(* ===== verification/Prelude.thy ===== *)
theory Prelude
  imports Main "HOL-Library.Word"
begin

unbundle bit_operations_syntax

text \<open>
  Shared vocabulary of the development: the C integer types as words, little-endian byte
  strings, flat byte arrays addressed by offset, the result type for code that can stop
  (\<open>assert\<close>, \<open>panic\<close>, an access outside an array), and the lemma collections that the
  component theories hand to the simplifier.
\<close>

section \<open>C integer types\<close>

type_synonym u8 = "8 word"
type_synonym u16 = "16 word"
type_synonym u32 = "32 word"
type_synonym u64 = "64 word"

text \<open>
  \<open>bits_simps\<close>: bit-level reading of the word operations a component uses;
  \<open>byte_simps\<close>: rewriting of reads over writes on byte arrays.
\<close>

named_theorems bits_simps
named_theorems byte_simps

lemmas [bits_simps] = bit_simps

text \<open>
  \<open>BITMASK\<close> and \<open>BITS\<close> of \<open>nemu/include/macro.h\<close>: the mask is an \<open>unsigned long long\<close>, the field of
  a 32-bit value is read back as a 32-bit value.
\<close>

definition BITMASK :: "nat \<Rightarrow> u64" where
  "BITMASK bits = push_bit bits 1 - 1"

definition BITS :: "u32 \<Rightarrow> nat \<Rightarrow> nat \<Rightarrow> u32" where
  "BITS x hi lo = ucast (ucast (drop_bit lo x) AND BITMASK (hi - lo + 1))"

lemma BITMASK_mask: "BITMASK n = mask n"
  by (simp add: BITMASK_def mask_eq_exp_minus_1 push_bit_eq_mult)

lemma BITS_take_bit: "BITS x hi lo = take_bit (hi - lo + 1) (drop_bit lo x)"
  by (rule bit_word_eqI) (auto simp: BITS_def BITMASK_mask bits_simps dest: bit_imp_le_length)

lemma unat_and_mask_less:
  fixes x :: "'a::len word"
  assumes "n < LENGTH('a)"
  shows "unat (x AND mask n) < 2 ^ n"
  using assms by (simp flip: take_bit_eq_mask add: unsigned_take_bit_eq)

lemma unat_drop_bit: "unat (drop_bit k x) = unat x div 2 ^ k" for x :: "'a::len word"
proof -
  have "unat (drop_bit k x) = drop_bit k (unat x)"
    by (simp add: unsigned_drop_bit_eq take_bit_nat_eq_self)
  then show ?thesis
    by (simp add: drop_bit_eq_div)
qed

lemma unat_pow2: "b < LENGTH('a) \<Longrightarrow> unat ((2 :: 'a::len word) ^ b) = 2 ^ b"
  using unat_of_nat [of "2 ^ b", where 'a = 'a] by (simp add: take_bit_nat_eq_self)

lemma unat_field:
  fixes x :: "'a::len word"
  assumes "n < LENGTH('a)"
  shows "unat (take_bit n (drop_bit k x)) = unat x div 2 ^ k mod 2 ^ n"
proof -
  have "unat (take_bit n (drop_bit k x)) = take_bit n (drop_bit k (unat x))"
    using assms by (simp add: unsigned_take_bit_eq unsigned_drop_bit_eq take_bit_nat_eq_self)
  then show ?thesis
    by (simp add: take_bit_eq_mod drop_bit_eq_div)
qed

section \<open>Long division\<close>

text \<open>One more bit of the dividend: quotient and remainder of the digits seen so far.\<close>

lemma long_division_digit:
  fixes Y D b :: nat
  assumes "0 < D" "b < 2"
  defines "r \<equiv> 2 * (Y mod D) + b"
  shows "(2 * Y + b) div D = 2 * (Y div D) + (if D \<le> r then 1 else 0)"
    "(2 * Y + b) mod D = (if D \<le> r then r - D else r)" "r < 2 * D"
proof -
  have m: "Y mod D < D"
    using assms(1) by simp
  then show r: "r < 2 * D"
    using assms(2) by (simp add: r_def)
  have y: "2 * Y + b = D * (2 * (Y div D)) + r"
  proof -
    have "D * (Y div D) + Y mod D = Y"
      by simp
    then show ?thesis
      unfolding r_def by (metis add.assoc distrib_left mult.left_commute)
  qed
  show "(2 * Y + b) div D = 2 * (Y div D) + (if D \<le> r then 1 else 0)"
    unfolding y using assms(1) r by (simp add: le_div_geq)
  show "(2 * Y + b) mod D = (if D \<le> r then r - D else r)"
    unfolding y using assms(1) r by (simp add: le_mod_geq)
qed

lemma mod_pow_Suc: "N mod 2 ^ Suc s = 2 ^ s * (N div 2 ^ s mod 2) + N mod 2 ^ s" for N :: nat
  unfolding power_Suc2 by (rule mod_mult2_eq)

section \<open>Absolute values\<close>

text \<open>The absolute value of a signed word, as an unsigned number.\<close>

lemma uint_abs: "uint (if sint w < 0 then - w else w) = \<bar>sint w\<bar>" for w :: "'a::len word"
proof -
  have "- (2 ^ (LENGTH('a) - Suc 0)) \<le> sint w" "sint w < 2 ^ (LENGTH('a) - Suc 0)"
    by (rule sint_greater_eq, rule sint_less)
  moreover have "(2 :: int) ^ (LENGTH('a) - Suc 0) < 2 ^ LENGTH('a)"
    by simp
  ultimately have lt: "0 \<le> \<bar>sint w\<bar>" "\<bar>sint w\<bar> < 2 ^ LENGTH('a)"
    unfolding abs_less_iff by linarith+
  have "(if sint w < 0 then - w else w) = word_of_int \<bar>sint w\<bar>"
    by (simp add: abs_if)
  then have "uint (if sint w < 0 then - w else w) = take_bit LENGTH('a) \<bar>sint w\<bar>"
    by (simp only: unsigned_of_int) simp
  then show ?thesis
    using lt by (simp add: take_bit_int_eq_self)
qed

lemma abs_div_words:
  fixes a b :: "'a::len word"
  defines "a' \<equiv> (if sint a < 0 then - a else a)" and "b' \<equiv> (if sint b < 0 then - b else b)"
  shows "a' div b' = word_of_int (\<bar>sint a\<bar> div \<bar>sint b\<bar>)" "a' mod b' = word_of_int (\<bar>sint a\<bar> mod \<bar>sint b\<bar>)"
  using uint_abs [of a] uint_abs [of b] unfolding a'_def [symmetric] b'_def [symmetric]
  by (simp_all add: word_div_def word_mod_def)

section \<open>Results\<close>

text \<open>
  Code that can stop returns a sum: \<open>Inl\<close> the reason it stopped, \<open>Inr\<close> the value. \<open>rbind\<close>
  sequences two such steps and stops at the first failure. The reasons are a failed \<open>assert\<close>
  or \<open>Assert\<close>, a \<open>panic\<close>, and an access outside the array it is made on, which C leaves
  undefined and the model never gives a value to.
\<close>

datatype err = AssertFail | Panic | Overrun

type_synonym ('e, 'a) result = "'e + 'a"

fun rbind :: "('e, 'a) result \<Rightarrow> ('a \<Rightarrow> ('e, 'b) result) \<Rightarrow> ('e, 'b) result" where
  "rbind (Inl e) f = Inl e"
| "rbind (Inr x) f = f x"

lemma rbind_Inr_iff: "rbind m f = Inr y \<longleftrightarrow> (\<exists>x. m = Inr x \<and> f x = Inr y)"
  by (cases m) auto

lemma rbind_Inl_iff: "rbind m f = Inl e \<longleftrightarrow> m = Inl e \<or> (\<exists>x. m = Inr x \<and> f x = Inl e)"
  by (cases m) auto

lemma rbind_assoc: "rbind (rbind m f) g = rbind m (\<lambda>x. rbind (f x) g)"
  by (cases m) auto

section \<open>Lists\<close>

lemma find_unique:
  assumes "\<And>i j. i < length ms \<Longrightarrow> j < length ms \<Longrightarrow> P (ms ! i) \<Longrightarrow> P (ms ! j) \<Longrightarrow> i = j"
  shows "find P ms = Some m \<longleftrightarrow> m \<in> set ms \<and> P m"
proof
  assume "find P ms = Some m"
  then show "m \<in> set ms \<and> P m"
    by (auto simp: find_Some_iff)
next
  assume m: "m \<in> set ms \<and> P m"
  then obtain j where j: "j < length ms" "ms ! j = m"
    by (auto simp: in_set_conv_nth)
  obtain m' where m': "find P ms = Some m'"
    using m by (cases "find P ms") (auto simp: find_None_iff)
  then obtain i where "i < length ms" "ms ! i = m'" "P m'"
    by (auto simp: find_Some_iff)
  then have "i = j"
    using assms [of i j] j m by simp
  then show "find P ms = Some m"
    using m' j \<open>ms ! i = m'\<close> by simp
qed

section \<open>Byte strings and byte arrays\<close>

text \<open>The hosts and guests of the repository are little-endian.\<close>

definition bytes_of :: "nat \<Rightarrow> 'a::len word \<Rightarrow> u8 list" where
  "bytes_of n w = map (\<lambda>i. ucast (drop_bit (8 * i) w)) [0..<n]"

fun of_bytes :: "u8 list \<Rightarrow> 'a::len word" where
  "of_bytes [] = 0"
| "of_bytes (b # bs) = ucast b OR push_bit 8 (of_bytes bs)"

definition load_bytes :: "(nat \<Rightarrow> u8) \<Rightarrow> nat \<Rightarrow> nat \<Rightarrow> u8 list" where
  "load_bytes f off n = map f [off..<off + n]"

definition store_bytes :: "(nat \<Rightarrow> u8) \<Rightarrow> nat \<Rightarrow> u8 list \<Rightarrow> (nat \<Rightarrow> u8)" where
  "store_bytes f off bs =
     (\<lambda>i. if off \<le> i \<and> i < off + length bs then bs ! (i - off) else f i)"

lemma length_bytes_of [simp]: "length (bytes_of n w) = n"
  by (simp add: bytes_of_def)

lemma length_load_bytes [simp]: "length (load_bytes f off n) = n"
  by (simp add: load_bytes_def)

lemma bytes_of_Suc: "bytes_of (Suc n) w = ucast w # bytes_of n (drop_bit 8 w)"
  by (simp add: bytes_of_def upt_conv_Cons map_Suc_upt [symmetric] del: upt_Suc)
     (simp add: algebra_simps)

lemma of_bytes_bytes_of: "of_bytes (bytes_of n w) = take_bit (8 * n) w"
proof (induction n arbitrary: w)
  case 0
  show ?case by (simp add: bytes_of_def)
next
  case (Suc n)
  have "of_bytes (bytes_of (Suc n) w)
      = ucast (ucast w :: u8) OR push_bit 8 (take_bit (8 * n) (drop_bit 8 w))"
    by (simp add: bytes_of_Suc Suc.IH)
  also have "\<dots> = take_bit (8 * Suc n) w"
    by (rule bit_word_eqI) (auto simp: bits_simps)
  finally show ?case .
qed

lemma bit_of_bytes:
  "bit (of_bytes bs :: 'a::len word) k \<longleftrightarrow>
     k < LENGTH('a) \<and> k div 8 < length bs \<and> bit (bs ! (k div 8)) (k mod 8)"
proof (induction bs arbitrary: k)
  case Nil
  then show ?case by simp
next
  case (Cons b bs)
  show ?case
  proof (cases "k < 8")
    case True
    then show ?thesis by (auto simp: bit_simps)
  next
    case False
    then have "k div 8 = Suc ((k - 8) div 8)" "(k - 8) mod 8 = k mod 8"
      by (simp_all add: le_div_geq le_mod_geq not_less)
    then show ?thesis
      using False Cons.IH [of "k - 8"] by (auto simp: bit_simps dest: bit_imp_le_length)
  qed
qed

lemma of_bytes_nth:
  assumes "i < length bs" "8 * length bs \<le> LENGTH('a)"
  shows "(ucast (drop_bit (8 * i) (of_bytes bs :: 'a::len word)) :: u8) = bs ! i"
proof (rule bit_word_eqI)
  fix n assume n: "n < LENGTH(8)"
  then have "(8 * i + n) div 8 = i" "(8 * i + n) mod 8 = n" "8 * i + n < LENGTH('a)"
    using assms by auto
  then show "bit (ucast (drop_bit (8 * i) (of_bytes bs :: 'a word)) :: u8) n = bit (bs ! i) n"
    using assms n by (simp add: bit_simps bit_of_bytes)
qed

lemma load_store_same [byte_simps]:
  "length bs = n \<Longrightarrow> load_bytes (store_bytes f off bs) off n = bs"
  by (rule nth_equalityI) (auto simp: load_bytes_def store_bytes_def)

lemma load_store_disjoint [byte_simps]:
  "off + n \<le> off' \<or> off' + length bs \<le> off \<Longrightarrow>
   load_bytes (store_bytes f off' bs) off n = load_bytes f off n"
  by (auto simp: load_bytes_def store_bytes_def)

lemma store_bytes_other [byte_simps]:
  "i < off \<or> off + length bs \<le> i \<Longrightarrow> store_bytes f off bs i = f i"
  by (auto simp: store_bytes_def)

end
