(* ===== verification/Trace_Pack.thy ===== *)
theory Trace_Pack
  imports Prelude "HOL-Library.Multiset"
begin

text \<open>
  The two trace files: \<open>itrace_pack\<close> (\<open>cachesim/public/src/itrace_pack.cc\<close>), a run-length
  coded sequence of addresses that NEMU writes and the cache simulator reads, and
  \<open>btrace_pack\<close> (\<open>branchsim/public/btrace_pack.cc\<close>), the branch records of the branch
  simulator. A file is its byte string: the bytes written so far while a pack is being
  created, the bytes not yet read while it is being read.
\<close>

section \<open>Fixed-size records in a file\<close>

text \<open>\<open>fread (p, n, 1, fp)\<close> under an \<open>assert\<close> that it returned 1.\<close>

definition fread_n :: "nat \<Rightarrow> u8 list \<Rightarrow> (err, u8 list \<times> u8 list) result" where
  "fread_n n bs = (if length bs < n then Inl AssertFail else Inr (take n bs, drop n bs))"

lemma fread_n_append [simp]: "length xs = n \<Longrightarrow> fread_n n (xs @ ys) = Inr (xs, ys)"
  by (simp add: fread_n_def)

lemma fread_n_all [simp]: "length xs = n \<Longrightarrow> fread_n n xs = Inr (xs, [])"
  by (simp add: fread_n_def)

lemma of_bytes_full [simp]:
  "LENGTH('a) \<le> 8 * n \<Longrightarrow> of_bytes (bytes_of n (w :: 'a::len word)) = w"
  by (simp add: of_bytes_bytes_of take_bit_word_eq_self)

text \<open>Reading \<open>n\<close> records one after the other with a record reader \<open>dec\<close>.\<close>

fun read_n :: "(u8 list \<Rightarrow> (err, 'r \<times> u8 list) result) \<Rightarrow> nat \<Rightarrow> u8 list
    \<Rightarrow> (err, 'r list \<times> u8 list) result" where
  "read_n dec 0 bs = Inr ([], bs)"
| "read_n dec (Suc n) bs =
     rbind (dec bs) (\<lambda>(r, bs). rbind (read_n dec n bs) (\<lambda>(rs, bs). Inr (r # rs, bs)))"

text \<open>
  The contract between a record writer and its reader, and what a client gets from it: a file
  that is a sequence of written records is read back as that sequence.
\<close>

locale record_codec =
  fixes enc :: "'r \<Rightarrow> u8 list" and dec :: "u8 list \<Rightarrow> (err, 'r \<times> u8 list) result"
  assumes dec_enc: "dec (enc r @ rest) = Inr (r, rest)"
begin

lemma read_n_concat:
  "read_n dec (length rs) (concat (map enc rs) @ rest) = Inr (rs, rest)"
  by (induction rs) (simp_all add: dec_enc)

lemma enc_inj: "enc r = enc r' \<Longrightarrow> r = r'"
  using dec_enc [of r "[]"] dec_enc [of r' "[]"] by simp

lemma concat_enc_inj:
  assumes "concat (map enc rs) = concat (map enc rs')" "length rs = length rs'"
  shows "rs = rs'"
  using read_n_concat [of rs "[]"] read_n_concat [of rs' "[]"] assms by simp

end

section \<open>Instruction traces\<close>

record pc_record =
  rec_pc :: u32
  rec_count :: u8

record itrace_pack =
  it_isCreate :: bool
  it_size :: u64
  it_nRecords :: u64
  it_fp :: "u8 list"
  it_current :: pc_record

definition ONE_PC_STEP :: u32 where
  "ONE_PC_STEP = 4"

definition put_header :: "itrace_pack \<Rightarrow> u8 list" where
  "put_header p = bytes_of 8 (it_size p) @ bytes_of 8 (it_nRecords p)"

definition put_record :: "pc_record \<Rightarrow> u8 list" where
  "put_record r = bytes_of 4 (rec_pc r) @ bytes_of 1 (rec_count r)"

definition get_record :: "u8 list \<Rightarrow> (err, pc_record \<times> u8 list) result" where
  "get_record bs = rbind (fread_n 4 bs) (\<lambda>(p, bs). rbind (fread_n 1 bs) (\<lambda>(c, bs).
     Inr (\<lparr>rec_pc = of_bytes p, rec_count = of_bytes c\<rparr>, bs)))"

definition itrace_pack_create :: itrace_pack where
  "itrace_pack_create =
     (let pack = \<lparr>it_isCreate = False, it_size = 0, it_nRecords = 0, it_fp = [],
                  it_current = \<lparr>rec_pc = 0, rec_count = 0\<rparr>\<rparr>
      in pack\<lparr>it_fp := put_header pack, it_isCreate := True\<rparr>)"

definition load_one_record :: "itrace_pack \<Rightarrow> (err, itrace_pack) result" where
  "load_one_record p =
     (if it_isCreate p then Inl AssertFail
      else rbind (get_record (it_fp p)) (\<lambda>(r, bs). Inr (p\<lparr>it_current := r, it_fp := bs\<rparr>)))"

definition save_one_record :: "itrace_pack \<Rightarrow> (err, itrace_pack) result" where
  "save_one_record p =
     (if \<not> it_isCreate p then Inl AssertFail
      else Inr (p\<lparr>it_fp := it_fp p @ put_record (it_current p),
                  it_nRecords := it_nRecords p + 1\<rparr>))"

definition init_from_file :: "itrace_pack \<Rightarrow> (err, itrace_pack) result" where
  "init_from_file p =
     rbind (fread_n 8 (it_fp p)) (\<lambda>(s, bs). rbind (fread_n 8 bs) (\<lambda>(n, bs).
       let p = p\<lparr>it_size := of_bytes s, it_nRecords := of_bytes n, it_fp := bs\<rparr>
       in if 0 < it_nRecords p then load_one_record p else Inr p))"

definition itrace_pack_openfp :: "u8 list \<Rightarrow> (err, itrace_pack) result" where
  "itrace_pack_openfp file =
     init_from_file \<lparr>it_isCreate = False, it_size = 0, it_nRecords = 0, it_fp = file,
                     it_current = \<lparr>rec_pc = 0, rec_count = 0\<rparr>\<rparr>"

text \<open>Closing a created pack gives the file; \<open>fseek\<close> and the second header overwrite the first.\<close>

definition itrace_pack_close :: "itrace_pack \<Rightarrow> (err, u8 list) result" where
  "itrace_pack_close p =
     (if it_isCreate p
      then rbind (if rec_pc (it_current p) \<noteq> 0 then save_one_record p else Inr p)
             (\<lambda>p. Inr (put_header p @ drop 16 (it_fp p)))
      else Inr (it_fp p))"

definition itrace_pack_add :: "itrace_pack \<Rightarrow> u32 \<Rightarrow> (err, itrace_pack) result" where
  "itrace_pack_add p pc =
     rbind
       (if rec_pc (it_current p) + ucast (rec_count (it_current p)) + ONE_PC_STEP = pc
        then if rec_count (it_current p) = 0xff then Inl AssertFail
             else Inr (p\<lparr>it_current := (it_current p)\<lparr>rec_count := rec_count (it_current p) + 1\<rparr>\<rparr>)
        else rbind (if rec_pc (it_current p) \<noteq> 0 then save_one_record p else Inr p)
               (\<lambda>p. Inr (p\<lparr>it_current := \<lparr>rec_pc = pc, rec_count = 0\<rparr>\<rparr>)))
       (\<lambda>p. Inr (p\<lparr>it_size := it_size p + 1\<rparr>))"

definition itrace_pack_pickone :: "itrace_pack \<Rightarrow> (err, u32 \<times> itrace_pack) result" where
  "itrace_pack_pickone p =
     (if it_size p = 0 then Inr (0, p)
      else let pc = rec_pc (it_current p) + ucast (rec_count (it_current p)) * ONE_PC_STEP
           in rbind
                (if rec_count (it_current p) = 0
                 then if 1 < it_size p then load_one_record p else Inr p
                 else Inr (p\<lparr>it_current :=
                            (it_current p)\<lparr>rec_count := rec_count (it_current p) - 1\<rparr>\<rparr>))
                (\<lambda>p. Inr (pc, p\<lparr>it_size := it_size p - 1\<rparr>)))"

text \<open>The two uses of a pack: a sequence of \<open>add\<close>s, and \<open>pickone\<close> until it answers 0.\<close>

fun itrace_pack_adds :: "itrace_pack \<Rightarrow> u32 list \<Rightarrow> (err, itrace_pack) result" where
  "itrace_pack_adds p [] = Inr p"
| "itrace_pack_adds p (pc # pcs) = rbind (itrace_pack_add p pc) (\<lambda>p. itrace_pack_adds p pcs)"

definition write_itrace :: "u32 list \<Rightarrow> (err, u8 list) result" where
  "write_itrace pcs = rbind (itrace_pack_adds itrace_pack_create pcs) itrace_pack_close"

lemma load_one_record_simps [simp]:
  "load_one_record p = Inr p' \<Longrightarrow> it_size p' = it_size p"
  by (auto simp: load_one_record_def rbind_Inr_iff split: if_splits)

lemma pickone_size:
  assumes "itrace_pack_pickone p = Inr (pc, p')" "pc \<noteq> 0"
  shows "it_size p \<noteq> 0" "it_size p' = it_size p - 1"
  using assms
  by (auto simp: itrace_pack_pickone_def Let_def rbind_Inr_iff split: if_splits)

function itrace_pack_picks :: "itrace_pack \<Rightarrow> (err, u32 list) result" where
  "itrace_pack_picks p =
     (case itrace_pack_pickone p of
        Inl e \<Rightarrow> Inl e
      | Inr (pc, p') \<Rightarrow>
          if pc = 0 then Inr [] else rbind (itrace_pack_picks p') (\<lambda>pcs. Inr (pc # pcs)))"
  by auto
termination
proof (relation "measure (\<lambda>p. unat (it_size p))")
  fix p x pc p'
  assume "itrace_pack_pickone p = Inr x" "(pc, p') = x" "pc \<noteq> 0"
  then have "it_size p \<noteq> 0" "it_size p' = it_size p - 1"
    using pickone_size [of p pc p'] by auto
  then show "(p', p) \<in> measure (\<lambda>p. unat (it_size p))"
    by (simp add: measure_unat)
qed simp

declare itrace_pack_picks.simps [simp del]

definition read_itrace :: "u8 list \<Rightarrow> (err, u32 list) result" where
  "read_itrace file = rbind (itrace_pack_openfp file) itrace_pack_picks"

subsection \<open>What a file of records reads as\<close>

interpretation itrace_rec: record_codec put_record get_record
  by unfold_locales (simp add: put_record_def get_record_def)

definition unpack :: "pc_record \<Rightarrow> u32 list" where
  "unpack r = map (\<lambda>i. rec_pc r + of_nat i * ONE_PC_STEP) (rev [0..<Suc (unat (rec_count r))])"

definition n_pcs :: "pc_record list \<Rightarrow> nat" where
  "n_pcs rs = (\<Sum>r\<leftarrow>rs. Suc (unat (rec_count r)))"

lemma n_pcs_simps [simp]:
  "n_pcs [] = 0" "n_pcs (r # rs) = Suc (unat (rec_count r)) + n_pcs rs"
  by (simp_all add: n_pcs_def)

lemma n_pcs_append [simp]: "n_pcs (xs @ ys) = n_pcs xs + n_pcs ys"
  by (simp add: n_pcs_def)

lemma length_unpack [simp]: "length (unpack r) = Suc (unat (rec_count r))"
  by (simp add: unpack_def)

lemma unpack_0: "rec_count r = 0 \<Longrightarrow> unpack r = [rec_pc r]"
  by (simp add: unpack_def)

lemma unpack_step:
  assumes "rec_count r \<noteq> 0"
  shows "unpack r = (rec_pc r + ucast (rec_count r) * ONE_PC_STEP)
                    # unpack (r\<lparr>rec_count := rec_count r - 1\<rparr>)"
proof -
  have "unat (rec_count r) = Suc (unat (rec_count r - 1))"
    using assms unat_minus_one [of "rec_count r"] unat_gt_0 [of "rec_count r"] by simp
  moreover have "of_nat (unat (rec_count r)) = (ucast (rec_count r) :: u32)"
    by (simp add: unsigned_ucast_eq)
  ultimately show ?thesis
    by (simp add: unpack_def)
qed

definition reading :: "itrace_pack \<Rightarrow> pc_record list \<Rightarrow> bool" where
  "reading p rs \<longleftrightarrow> \<not> it_isCreate p \<and> it_fp p = concat (map put_record rs)
     \<and> unat (it_size p) = n_pcs (it_current p # rs)"

lemma picks_step:
  assumes "itrace_pack_pickone p = Inr (pc, p')" "pc \<noteq> 0" "itrace_pack_picks p' = Inr pcs"
  shows "itrace_pack_picks p = Inr (pc # pcs)"
  using assms by (subst itrace_pack_picks.simps) simp

lemma picks_end: "it_size p = 0 \<Longrightarrow> itrace_pack_picks p = Inr []"
  by (subst itrace_pack_picks.simps) (simp add: itrace_pack_pickone_def)

lemma reading_size_pos: "reading p rs \<Longrightarrow> it_size p \<noteq> 0"
  by (auto simp: reading_def)

lemma unat_minus_1:
  fixes w :: "'a::len word"
  shows "w \<noteq> 0 \<Longrightarrow> unat (w - 1) = unat w - 1"
  by (simp add: unat_minus_one)

lemma pickone_last:
  assumes "reading p []" "rec_count (it_current p) = 0"
  shows "itrace_pack_pickone p = Inr (rec_pc (it_current p), p\<lparr>it_size := 0\<rparr>)"
proof -
  have "it_size p = 1"
    using assms by (simp add: reading_def word_unat_eq_iff)
  then show ?thesis
    using assms by (simp add: itrace_pack_pickone_def)
qed

lemma pickone_next_record:
  assumes "reading p (r # rs)" "rec_count (it_current p) = 0"
  defines "p' \<equiv> p\<lparr>it_current := r, it_fp := concat (map put_record rs), it_size := it_size p - 1\<rparr>"
  shows "itrace_pack_pickone p = Inr (rec_pc (it_current p), p')" "reading p' rs"
proof -
  have gt: "1 < it_size p"
    using assms(1) by (simp add: reading_def word_less_nat_alt)
  then show "itrace_pack_pickone p = Inr (rec_pc (it_current p), p')"
    using assms reading_size_pos [OF assms(1)]
    by (simp add: itrace_pack_pickone_def load_one_record_def reading_def itrace_rec.dec_enc)
  show "reading p' rs"
    using assms reading_size_pos [OF assms(1)] by (simp add: reading_def unat_minus_1)
qed

lemma pickone_same_record:
  assumes "reading p rs" "rec_count (it_current p) \<noteq> 0"
  defines "p' \<equiv> p\<lparr>it_current := (it_current p)\<lparr>rec_count := rec_count (it_current p) - 1\<rparr>,
                  it_size := it_size p - 1\<rparr>"
  shows "itrace_pack_pickone p = Inr (rec_pc (it_current p)
           + ucast (rec_count (it_current p)) * ONE_PC_STEP, p')" "reading p' rs"
proof -
  show "itrace_pack_pickone p = Inr (rec_pc (it_current p)
           + ucast (rec_count (it_current p)) * ONE_PC_STEP, p')"
    using assms reading_size_pos [OF assms(1)] by (simp add: itrace_pack_pickone_def Let_def)
  have "0 < unat (rec_count (it_current p))"
    using assms(2) by (simp add: unat_gt_0)
  then show "reading p' rs"
    using assms reading_size_pos [OF assms(1)] by (simp add: reading_def unat_minus_1)
qed

lemma picks_reading:
  assumes "reading p rs" "0 \<notin> set (concat (map unpack (it_current p # rs)))"
  shows "itrace_pack_picks p = Inr (concat (map unpack (it_current p # rs)))"
  using assms
proof (induction "unat (it_size p)" arbitrary: p rs rule: less_induct)
  case less
  have dec: "unat (it_size p - 1) < unat (it_size p)"
    using reading_size_pos [OF less.prems(1)] by (simp add: unat_minus_1 unat_gt_0)
  show ?case
  proof (cases "rec_count (it_current p) = 0")
    case True
    note u = unpack_0 [OF True]
    show ?thesis
    proof (cases rs)
      case Nil
      then show ?thesis
        using less.prems pickone_last [of p] True u by (simp add: picks_step picks_end)
    next
      case (Cons r rs')
      note pk = pickone_next_record [of p r rs', OF less.prems(1) [unfolded Cons] True]
      from less.hyps [OF _ pk(2)] dec less.prems(2) Cons
      show ?thesis by (intro picks_step [OF pk(1), THEN trans]) (simp_all add: u)
    qed
  next
    case False
    note u = unpack_step [OF False] and pk = pickone_same_record [OF less.prems(1) False]
    from less.hyps [OF _ pk(2)] dec less.prems(2)
    show ?thesis by (intro picks_step [OF pk(1), THEN trans]) (simp_all add: u)
  qed
qed

subsection \<open>What a sequence of \<open>add\<close>s writes\<close>

definition fetchable :: "u32 \<Rightarrow> bool" where
  "fetchable pc \<longleftrightarrow> unat pc mod 4 = 0 \<and> 4 < pc"

fun runs_from :: "pc_record \<Rightarrow> u32 list \<Rightarrow> pc_record list" where
  "runs_from r [] = [r]"
| "runs_from r (pc # pcs) =
     (if rec_pc r + ucast (rec_count r) + ONE_PC_STEP = pc
      then runs_from (r\<lparr>rec_count := rec_count r + 1\<rparr>) pcs
      else r # runs_from \<lparr>rec_pc = pc, rec_count = 0\<rparr> pcs)"

definition writing :: "itrace_pack \<Rightarrow> pc_record list \<Rightarrow> bool" where
  "writing p rs \<longleftrightarrow> it_isCreate p \<and> 16 \<le> length (it_fp p)
     \<and> drop 16 (it_fp p) = concat (map put_record rs) \<and> it_nRecords p = of_nat (length rs)"

text \<open>An address is four bytes on, so a run stops at two: the third test is \<open>pc + 1 + 4\<close>.\<close>

lemma fetchable_no_third:
  assumes "fetchable a" "fetchable b"
  shows "a + 1 + ONE_PC_STEP \<noteq> b"
proof
  assume "a + 1 + ONE_PC_STEP = b"
  then have "b = a + 5"
    by (auto simp: ONE_PC_STEP_def)
  then have "unat b = (unat a + 5) mod 2 ^ 32"
    by (simp add: unat_word_ariths)
  then have "unat b mod 4 = (unat a + 5) mod 4"
    by (simp add: mod_mod_cancel)
  moreover have "unat b mod 4 = 0" "unat a mod 4 = 0"
    using assms by (simp_all add: fetchable_def)
  ultimately show False
    by presburger
qed

lemma save_writing:
  assumes "writing p rs"
  obtains p' where "save_one_record p = Inr p'" "writing p' (rs @ [it_current p])"
    "it_size p' = it_size p" "it_current p' = it_current p"
  using assms by (simp add: save_one_record_def writing_def)

lemma adds_writing:
  assumes "writing p rs" "fetchable (rec_pc (it_current p))" "rec_count (it_current p) \<le> 1"
    "\<And>pc. pc \<in> set pcs \<Longrightarrow> fetchable pc"
  obtains p' rs' where "itrace_pack_adds p pcs = Inr p'" "writing p' rs'"
    "rs' @ [it_current p'] = rs @ runs_from (it_current p) pcs"
    "it_size p' = it_size p + of_nat (length pcs)" "fetchable (rec_pc (it_current p'))"
  using assms
proof (induction pcs arbitrary: p rs thesis)
  case Nil
  then show ?case by simp
next
  case (Cons pc pcs)
  let ?c = "it_current p"
  show ?case
  proof (cases "rec_pc ?c + ucast (rec_count ?c) + ONE_PC_STEP = pc")
    case True
    have c0: "rec_count ?c = 0"
      using Cons.prems(4) True fetchable_no_third [OF Cons.prems(3), of pc] Cons.prems(5)
      by (cases "rec_count ?c = 1") (auto simp: word_le_nat_alt word_unat_eq_iff)
    define q where "q = p\<lparr>it_current := ?c\<lparr>rec_count := 1\<rparr>, it_size := it_size p + 1\<rparr>"
    have add: "itrace_pack_add p pc = Inr q"
      using True c0 by (simp add: itrace_pack_add_def q_def)
    have "writing q rs" "fetchable (rec_pc (it_current q))" "rec_count (it_current q) \<le> 1"
      using Cons.prems by (simp_all add: q_def writing_def)
    from Cons.IH [OF _ this] Cons.prems(5) obtain p' rs' where
      "itrace_pack_adds q pcs = Inr p'" "writing p' rs'"
      "rs' @ [it_current p'] = rs @ runs_from (it_current q) pcs"
      "it_size p' = it_size q + of_nat (length pcs)" "fetchable (rec_pc (it_current p'))"
      by (metis list.set_intros(2))
    then show ?thesis
      using Cons.prems(1) [of p' rs'] add True c0 by (simp add: q_def)
  next
    case False
    obtain s where s: "save_one_record p = Inr s" "writing s (rs @ [?c])"
        "it_size s = it_size p" "it_current s = ?c"
      using save_writing [OF Cons.prems(2)] .
    define q where "q = s\<lparr>it_current := \<lparr>rec_pc = pc, rec_count = 0\<rparr>, it_size := it_size s + 1\<rparr>"
    have nz: "rec_pc ?c \<noteq> 0"
      using Cons.prems(3) by (auto simp: fetchable_def)
    have add: "itrace_pack_add p pc = Inr q"
      using False s nz by (simp add: itrace_pack_add_def q_def)
    have "writing q (rs @ [?c])" "fetchable (rec_pc (it_current q))" "rec_count (it_current q) \<le> 1"
      using Cons.prems s by (simp_all add: q_def writing_def)
    from Cons.IH [OF _ this] Cons.prems(5) obtain p' rs' where
      "itrace_pack_adds q pcs = Inr p'" "writing p' rs'"
      "rs' @ [it_current p'] = (rs @ [?c]) @ runs_from (it_current q) pcs"
      "it_size p' = it_size q + of_nat (length pcs)" "fetchable (rec_pc (it_current p'))"
      by (metis list.set_intros(2))
    then show ?thesis
      using Cons.prems(1) [of p' rs'] add False s by (simp add: q_def)
  qed
qed

text \<open>
  \<open>swapped\<close>: the order in which a written trace comes back. A record covers at most two
  addresses and \<open>pickone\<close> counts down, so the two addresses of a pair are exchanged.
\<close>

fun swapped :: "u32 list \<Rightarrow> u32 list" where
  "swapped (a # b # xs) =
     (if b = a + ONE_PC_STEP then b # a # swapped xs else a # swapped (b # xs))"
| "swapped xs = xs"

lemma mset_swapped: "mset (swapped xs) = mset xs"
  by (induction xs rule: swapped.induct) auto

lemma set_swapped [simp]: "set (swapped xs) = set xs"
  by (metis mset_swapped set_mset_mset)

lemma length_swapped [simp]: "length (swapped xs) = length xs"
  by (metis mset_swapped size_mset)

lemma unpack_1: "unpack \<lparr>rec_pc = a, rec_count = 1\<rparr> = [a + ONE_PC_STEP, a]"
  by (simp add: unpack_def)

lemma unpack_runs_1:
  assumes "\<And>x. x \<in> set (a # pcs) \<Longrightarrow> fetchable x"
  shows "concat (map unpack (runs_from \<lparr>rec_pc = a, rec_count = 1\<rparr> pcs))
           = (a + ONE_PC_STEP) # a # concat (map unpack (case pcs of [] \<Rightarrow> []
               | b # bs \<Rightarrow> runs_from \<lparr>rec_pc = b, rec_count = 0\<rparr> bs))"
  using assms fetchable_no_third [of a] by (cases pcs) (simp_all add: unpack_1)

lemma unpack_runs:
  assumes "\<And>x. x \<in> set (a # pcs) \<Longrightarrow> fetchable x"
  shows "concat (map unpack (runs_from \<lparr>rec_pc = a, rec_count = 0\<rparr> pcs)) = swapped (a # pcs)"
  using assms
proof (induction "length pcs" arbitrary: a pcs rule: less_induct)
  case less
  show ?case
  proof (cases pcs)
    case Nil
    then show ?thesis by (simp add: unpack_0)
  next
    case (Cons b bs)
    show ?thesis
    proof (cases "b = a + ONE_PC_STEP")
      case True
      have "concat (map unpack (runs_from \<lparr>rec_pc = a, rec_count = 1\<rparr> bs)) = b # a # swapped bs"
        using less.hyps less.prems Cons True
        by (subst unpack_runs_1) (auto split: list.split)
      then show ?thesis using Cons True by simp
    next
      case False
      then show ?thesis
        using less.hyps [of bs b] less.prems Cons by (auto simp: unpack_0)
    qed
  qed
qed

lemma n_pcs_length: "n_pcs rs = length (concat (map unpack rs))"
  by (induction rs) auto

lemma close_writing:
  assumes "writing p rs" "rec_pc (it_current p) \<noteq> 0"
  shows "itrace_pack_close p =
    Inr (bytes_of 8 (it_size p) @ bytes_of 8 (of_nat (Suc (length rs)) :: u64)
         @ concat (map put_record (rs @ [it_current p])))"
proof -
  have "it_isCreate p" "16 \<le> length (it_fp p)" "drop 16 (it_fp p) = concat (map put_record rs)"
    "it_nRecords p = of_nat (length rs)"
    using assms(1) by (simp_all add: writing_def)
  then show ?thesis
    using assms(2)
    by (simp add: itrace_pack_close_def save_one_record_def put_header_def add.commute)
qed

lemma open_records:
  fixes n :: u64
  assumes "length (r # rs) < 2 ^ 64" "unat n = n_pcs (r # rs)"
  obtains p where
    "itrace_pack_openfp (bytes_of 8 n @ bytes_of 8 (of_nat (length (r # rs)) :: u64)
        @ concat (map put_record (r # rs))) = Inr p"
    "it_current p = r" "reading p rs"
proof -
  have "(0 :: u64) < of_nat (length (r # rs))"
    using assms(1) by (simp add: word_less_nat_alt unat_of_nat del: of_nat_Suc)
  then show ?thesis
    using assms that
    by (simp add: itrace_pack_openfp_def init_from_file_def load_one_record_def
        itrace_rec.dec_enc reading_def del: of_nat_Suc)
qed

lemma length_le_n_pcs: "length rs \<le> n_pcs rs"
  by (induction rs) auto

lemma first_add:
  assumes "fetchable a"
  obtains p where "itrace_pack_add itrace_pack_create a = Inr p" "writing p []"
    "it_size p = 1" "it_current p = \<lparr>rec_pc = a, rec_count = 0\<rparr>"
proof -
  have "ONE_PC_STEP \<noteq> a"
    using assms by (auto simp: fetchable_def ONE_PC_STEP_def)
  then show ?thesis
    using that by (simp add: itrace_pack_add_def itrace_pack_create_def Let_def put_header_def
        writing_def)
qed

lemma write_read_itrace:
  assumes "\<And>pc. pc \<in> set pcs \<Longrightarrow> fetchable pc" and "length pcs < 2 ^ 64"
  shows "\<exists>file. write_itrace pcs = Inr file \<and> read_itrace file = Inr (swapped pcs)"
proof (cases pcs)
  case Nil
  then show ?thesis
    by (simp add: write_itrace_def read_itrace_def itrace_pack_create_def itrace_pack_close_def
        put_header_def itrace_pack_openfp_def init_from_file_def picks_end)
next
  case (Cons a xs)
  have fa: "fetchable a" and fxs: "\<And>pc. pc \<in> set xs \<Longrightarrow> fetchable pc"
    using assms(1) Cons by auto
  obtain p where p: "itrace_pack_add itrace_pack_create a = Inr p" "writing p []"
      "it_size p = 1" "it_current p = \<lparr>rec_pc = a, rec_count = 0\<rparr>"
    using first_add [OF fa] .
  obtain p' rs where p': "itrace_pack_adds p xs = Inr p'" "writing p' rs"
      "rs @ [it_current p'] = runs_from (it_current p) xs"
      "it_size p' = 1 + of_nat (length xs)" "fetchable (rec_pc (it_current p'))"
    using adds_writing [OF p(2) _ _ fxs] fa p(3,4) by auto
  have un: "concat (map unpack (rs @ [it_current p'])) = swapped pcs"
    unfolding p'(3) p(4) Cons using unpack_runs assms(1) Cons by simp
  then have np: "n_pcs (rs @ [it_current p']) = length pcs"
    by (simp only: n_pcs_length length_swapped)
  obtain r rs' where rs: "rs @ [it_current p'] = r # rs'"
    by (cases "rs @ [it_current p']") auto
  have sz: "unat (it_size p') = n_pcs (r # rs')"
    using assms(2) np Cons unfolding p'(4) rs
    by (simp add: unat_of_nat take_bit_nat_eq_self flip: of_nat_Suc)
  have len: "length (r # rs') < 2 ^ 64"
    using assms(2) np length_le_n_pcs [of "r # rs'"] rs by simp
  obtain q where q: "itrace_pack_openfp (bytes_of 8 (it_size p')
        @ bytes_of 8 (of_nat (length (r # rs')) :: u64) @ concat (map put_record (r # rs'))) = Inr q"
      "it_current q = r" "reading q rs'"
    using open_records [OF len sz] .
  have sl: "Suc (length rs) = length (r # rs')"
    using arg_cong [OF rs, of length] by simp
  have nz: "rec_pc (it_current p') \<noteq> 0"
    using p'(5) by (auto simp: fetchable_def)
  have "0 \<notin> set (swapped pcs)"
    using assms(1) [of 0] by (auto simp: fetchable_def)
  then have "itrace_pack_picks q = Inr (swapped pcs)"
    using picks_reading [OF q(3)] un [unfolded rs] by (simp only: q(2) simp_thms)
  moreover have "itrace_pack_close p' = Inr (bytes_of 8 (it_size p')
        @ bytes_of 8 (of_nat (length (r # rs')) :: u64) @ concat (map put_record (r # rs')))"
    using close_writing [OF p'(2) nz] by (simp only: rs sl)
  ultimately show ?thesis
    using p(1) p'(1) q(1) by (simp add: write_itrace_def read_itrace_def Cons)
qed

text \<open>
  C14. A trace of word-aligned addresses above 4 (an address 4 would continue the empty first
  record) that NEMU adds to a pack and closes is written without a failed assertion, and
  opening that file and picking until 0 gives the addresses back, every pair of consecutive
  instructions exchanged: the addresses read back are a permutation of the addresses written.
\<close>

theorem itrace_roundtrip:
  assumes "\<And>pc. pc \<in> set pcs \<Longrightarrow> fetchable pc" and "length pcs < 2 ^ 64"
  shows "\<exists>file pcs'. write_itrace pcs = Inr file \<and> read_itrace file = Inr pcs'
     \<and> pcs' = swapped pcs \<and> mset pcs' = mset pcs"
  using write_read_itrace [OF assms] mset_swapped by auto

text \<open>A straight-line trace of four instructions, the last one a jump back.\<close>

theorem itrace_roundtrip_witness:
  "\<exists>file. write_itrace [0x80000000, 0x80000004, 0x80000008, 0x80000000] = Inr file
     \<and> read_itrace file = Inr [0x80000004, 0x80000000, 0x80000008, 0x80000000]"
proof -
  let ?pcs = "[0x80000000, 0x80000004, 0x80000008, 0x80000000] :: u32 list"
  have "fetchable pc" if "pc \<in> set ?pcs" for pc
    using that by (auto simp: fetchable_def)
  then show ?thesis
    using itrace_roundtrip [of ?pcs] by (simp add: ONE_PC_STEP_def)
qed

section \<open>Branch traces\<close>

record btrace_record =
  bt_pc :: u32
  bt_code :: u32
  bt_nxt_pc :: u32

record btrace_pack =
  bp_is_create :: bool
  bp_fp :: "u8 list"
  bp_use_pclose :: bool
  bp_count :: u32

definition put_btrace :: "btrace_record \<Rightarrow> u8 list" where
  "put_btrace r = bytes_of 4 (bt_pc r) @ bytes_of 4 (bt_code r) @ bytes_of 4 (bt_nxt_pc r)"

definition get_btrace :: "u8 list \<Rightarrow> (err, btrace_record \<times> u8 list) result" where
  "get_btrace bs = rbind (fread_n 12 bs) (\<lambda>(r, bs).
     Inr (\<lparr>bt_pc = of_bytes (take 4 r), bt_code = of_bytes (take 4 (drop 4 r)),
           bt_nxt_pc = of_bytes (drop 8 r)\<rparr>, bs))"

text \<open>
  Opening: \<open>None\<close> is the null pointer of a stream that could not be opened or does not hold
  the four bytes of the count.
\<close>

definition btrace_pack_open_impl :: "u8 list option \<Rightarrow> bool \<Rightarrow> btrace_pack option" where
  "btrace_pack_open_impl fp use_pclose =
     (case fp of
        None \<Rightarrow> None
      | Some bs \<Rightarrow>
          (case fread_n 4 bs of
             Inl _ \<Rightarrow> None
           | Inr (c, bs) \<Rightarrow> Some \<lparr>bp_is_create = False, bp_fp = bs, bp_use_pclose = use_pclose,
                                 bp_count = of_bytes c\<rparr>))"

definition btrace_pack_open_fp :: "u8 list option \<Rightarrow> int \<Rightarrow> btrace_pack option" where
  "btrace_pack_open_fp fp use_pclose = btrace_pack_open_impl fp (use_pclose \<noteq> 0)"

definition btrace_pack_create :: btrace_pack where
  "btrace_pack_create = \<lparr>bp_is_create = True, bp_fp = bytes_of 4 (0 :: u32),
     bp_use_pclose = False, bp_count = 0\<rparr>"

definition btrace_pack_add :: "btrace_pack \<Rightarrow> btrace_record \<Rightarrow> btrace_pack" where
  "btrace_pack_add p r = p\<lparr>bp_fp := bp_fp p @ put_btrace r, bp_count := bp_count p + 1\<rparr>"

definition btrace_pack_pick ::
  "btrace_pack \<Rightarrow> (err, btrace_record option \<times> btrace_pack) result" where
  "btrace_pack_pick p =
     (if bp_count p = 0 then Inr (None, p)
      else rbind (get_btrace (bp_fp p)) (\<lambda>(r, bs).
             Inr (Some r, p\<lparr>bp_fp := bs, bp_count := bp_count p - 1\<rparr>)))"

definition btrace_pack_close :: "btrace_pack \<Rightarrow> u8 list" where
  "btrace_pack_close p =
     (if bp_is_create p then bytes_of 4 (bp_count p) @ drop 4 (bp_fp p) else bp_fp p)"

lemma pick_count:
  "btrace_pack_pick p = Inr (Some r, p') \<Longrightarrow> bp_count p \<noteq> 0 \<and> bp_count p' = bp_count p - 1"
  by (auto simp: btrace_pack_pick_def rbind_Inr_iff split: if_splits)

text \<open>The reading loop of the branch simulator: pick until the pack is empty.\<close>

function btrace_pack_picks :: "btrace_pack \<Rightarrow> (err, btrace_record list) result" where
  "btrace_pack_picks p =
     (case btrace_pack_pick p of
        Inl e \<Rightarrow> Inl e
      | Inr (None, _) \<Rightarrow> Inr []
      | Inr (Some r, p') \<Rightarrow> rbind (btrace_pack_picks p') (\<lambda>rs. Inr (r # rs)))"
  by auto
termination
proof (relation "measure (\<lambda>p. unat (bp_count p))")
  fix p :: btrace_pack and x o' p' r
  assume "btrace_pack_pick p = Inr x" "(o', p') = x" "o' = Some r"
  then have "bp_count p \<noteq> 0" "bp_count p' = bp_count p - 1"
    using pick_count [of p r p'] by auto
  then show "(p', p) \<in> measure (\<lambda>p. unat (bp_count p))"
    by (simp add: measure_unat)
qed simp

declare btrace_pack_picks.simps [simp del]

interpretation btrace_rec: record_codec put_btrace get_btrace
  by unfold_locales (simp add: put_btrace_def get_btrace_def fread_n_def)

lemma adds_btrace:
  "foldl btrace_pack_add p rs = p\<lparr>bp_fp := bp_fp p @ concat (map put_btrace rs),
      bp_count := bp_count p + of_nat (length rs)\<rparr>"
  by (induction rs arbitrary: p) (simp_all add: btrace_pack_add_def add.commute add.left_commute)

lemma picks_btrace:
  assumes "bp_fp p = concat (map put_btrace rs)" "unat (bp_count p) = length rs"
  shows "btrace_pack_picks p = Inr rs"
  using assms
proof (induction rs arbitrary: p)
  case Nil
  then show ?case
    by (subst btrace_pack_picks.simps) (simp add: btrace_pack_pick_def unat_eq_0)
next
  case (Cons r rs)
  have "bp_count p \<noteq> 0"
    using Cons.prems(2) by auto
  then show ?case
    using Cons.prems Cons.IH [of "p\<lparr>bp_fp := concat (map put_btrace rs), bp_count := bp_count p - 1\<rparr>"]
    by (subst btrace_pack_picks.simps)
       (simp add: btrace_pack_pick_def btrace_rec.dec_enc unat_minus_1)
qed

lemma read_written_btrace:
  assumes "length rs < 2 ^ 32"
  shows "\<exists>p. btrace_pack_open_fp
                (Some (btrace_pack_close (foldl btrace_pack_add btrace_pack_create rs))) flag = Some p
           \<and> btrace_pack_picks p = Inr rs"
proof -
  have "unat (of_nat (length rs) :: u32) = length rs"
    using assms by (simp add: unat_of_nat take_bit_nat_eq_self)
  then show ?thesis
    by (simp add: btrace_pack_open_fp_def btrace_pack_open_impl_def btrace_pack_close_def
        adds_btrace btrace_pack_create_def picks_btrace)
qed

text \<open>
  C15. A branch trace of fewer than 2^32 records that is added to a created pack and closed is
  read back record by record in the order it was added.
\<close>

theorem btrace_roundtrip:
  assumes "length rs < 2 ^ 32"
  shows "\<exists>p. btrace_pack_open_fp
                (Some (btrace_pack_close (foldl btrace_pack_add btrace_pack_create rs))) flag = Some p
           \<and> btrace_pack_picks p = Inr rs"
  using assms by (rule read_written_btrace)

theorem btrace_roundtrip_witness:
  "\<exists>p. btrace_pack_open_fp (Some (btrace_pack_close (foldl btrace_pack_add btrace_pack_create
          [\<lparr>bt_pc = 0x80000000, bt_code = 0xfe0008e3, bt_nxt_pc = 0x7ffffff0\<rparr>]))) 1 = Some p
     \<and> btrace_pack_picks p = Inr [\<lparr>bt_pc = 0x80000000, bt_code = 0xfe0008e3, bt_nxt_pc = 0x7ffffff0\<rparr>]"
  using btrace_roundtrip [of "[\<lparr>bt_pc = 0x80000000, bt_code = 0xfe0008e3, bt_nxt_pc = 0x7ffffff0\<rparr>]" 1]
  by simp

end
