(* ===== verification/Tag_Table.thy ===== *)
theory Tag_Table
  imports Prelude
begin

text \<open>
  The contract of a direct-mapped table: the instruction cache of the cache simulator, the data
  cache and the branch target buffers of the profiler and of the branch simulator all keep one
  tagged entry per index. A client only sees \<open>lookup\<close> and \<open>put\<close>; what it can rely on is that
  \<open>lookup\<close> answers with the last entry put at that index, and only under the tag it was put
  with.
\<close>

locale direct_mapped =
  fixes invar :: "'s \<Rightarrow> bool"
    and lookup :: "'s \<Rightarrow> 'a \<Rightarrow> 'v option"
    and put :: "'s \<Rightarrow> 'a \<Rightarrow> 'v \<Rightarrow> 's"
    and idx :: "'a \<Rightarrow> 'i"
    and tag :: "'a \<Rightarrow> 't"
    and content :: "'s \<Rightarrow> 'i \<Rightarrow> ('t \<times> 'v) option"
  assumes invar_put: "invar s \<Longrightarrow> invar (put s a v)"
    and lookup_content: "invar s \<Longrightarrow> lookup s a =
      (case content s (idx a) of None \<Rightarrow> None | Some (t, v) \<Rightarrow> if t = tag a then Some v else None)"
    and content_put: "invar s \<Longrightarrow> content (put s a v) = (content s)(idx a \<mapsto> (tag a, v))"
begin

lemma lookup_put_same: "invar s \<Longrightarrow> lookup (put s a v) a = Some v"
  by (simp add: lookup_content content_put invar_put)

lemma lookup_put_other: "invar s \<Longrightarrow> idx b \<noteq> idx a \<Longrightarrow> lookup (put s a v) b = lookup s b"
  by (simp add: lookup_content content_put invar_put)

lemma lookup_put_evict:
  "invar s \<Longrightarrow> idx b = idx a \<Longrightarrow> tag b \<noteq> tag a \<Longrightarrow> lookup (put s a v) b = None"
  by (simp add: lookup_content content_put invar_put)

lemma invar_puts: "invar s \<Longrightarrow> invar (foldl (\<lambda>s (a, v). put s a v) s avs)"
  by (induction avs arbitrary: s) (auto simp: invar_put)

lemma content_puts:
  "invar s \<Longrightarrow> content (foldl (\<lambda>s (a, v). put s a v) s avs) i =
     (case find (\<lambda>(a, v). idx a = i) (rev avs) of
        None \<Rightarrow> content s i
      | Some (a, v) \<Rightarrow> Some (tag a, v))"
proof (induction avs rule: rev_induct)
  case (snoc av avs)
  then show ?case
    by (cases av) (simp add: content_put invar_puts)
qed simp

lemma lookup_puts:
  assumes "invar s" "content s = (\<lambda>_. None)"
  shows "lookup (foldl (\<lambda>s (a, v). put s a v) s avs) b =
     (case find (\<lambda>(a, v). idx a = idx b) (rev avs) of
        None \<Rightarrow> None
      | Some (a, v) \<Rightarrow> if tag a = tag b then Some v else None)"
  using assms by (simp add: lookup_content invar_puts content_puts split: option.split prod.split)

end

end
