(* ===== verification/Cache_Sim.thy ===== *)
theory Cache_Sim
  imports Trace_Pack Tag_Table
begin

text \<open>
  The instruction-cache simulator, \<open>cachesim/src/main.cc\<close>: the direct-mapped tag store
  \<open>ICacheSim\<close> and the loop \<open>sim\<close> that replays an instruction trace through it. The report
  files of \<open>dumpStats\<close> and the thread pool of \<open>main\<close>, which runs independent simulations, are
  not modelled.
\<close>

section \<open>The cache\<close>

text \<open>\<open>std::countr_zero\<close> and \<open>std::has_single_bit\<close>.\<close>

definition countr_zero :: "u64 \<Rightarrow> nat" where
  "countr_zero w = length (takeWhile (\<lambda>i. \<not> bit w i) [0..<64])"

definition has_single_bit :: "u64 \<Rightarrow> bool" where
  "has_single_bit w = (length (filter (bit w) [0..<64]) = 1)"

definition extractBits :: "u32 \<Rightarrow> int \<Rightarrow> int \<Rightarrow> (err, u32) result" where
  "extractBits num high low =
     (if high \<ge> low \<and> high < 32 \<and> low \<ge> 0 \<and> high - low + 1 < 32
      then Inr (drop_bit (nat low) num AND (push_bit (nat (high - low + 1)) 1 - 1))
      else Inl AssertFail)"

record icache_sim =
  ic_blockSize :: u64
  ic_blockNum :: u64
  ic_blocks :: "u32 list"
  ic_valid :: "bool list"
  ic_totalMissCount :: u64
  ic_totalAccessCount :: u64

definition blockSizeWidth :: "icache_sim \<Rightarrow> int" where
  "blockSizeWidth c = int (countr_zero (ic_blockSize c))"

definition blockNumWidth :: "icache_sim \<Rightarrow> int" where
  "blockNumWidth c = int (countr_zero (ic_blockNum c))"

definition getBlockIndex :: "icache_sim \<Rightarrow> u32 \<Rightarrow> (err, nat) result" where
  "getBlockIndex c addr =
     rbind (extractBits addr (blockSizeWidth c + blockNumWidth c - 1) (blockSizeWidth c))
       (\<lambda>w. Inr (unat w))"

definition getTag :: "icache_sim \<Rightarrow> u32 \<Rightarrow> (err, u32) result" where
  "getTag c addr = extractBits addr 31 (blockSizeWidth c + blockNumWidth c)"

definition icache_new :: "u64 \<Rightarrow> u64 \<Rightarrow> (err, icache_sim) result" where
  "icache_new bSize bNum =
     (if has_single_bit bSize \<and> has_single_bit bNum
      then Inr \<lparr>ic_blockSize = bSize, ic_blockNum = bNum,
                ic_blocks = replicate (unat bNum) 0, ic_valid = replicate (unat bNum) False,
                ic_totalMissCount = 0, ic_totalAccessCount = 0\<rparr>
      else Inl AssertFail)"

definition icache_access :: "icache_sim \<Rightarrow> u32 \<Rightarrow> (err, icache_sim) result" where
  "icache_access c addr =
     (let c = c\<lparr>ic_totalAccessCount := ic_totalAccessCount c + 1\<rparr>
      in rbind (getBlockIndex c addr) (\<lambda>bIndex.
         rbind (getTag c addr) (\<lambda>tag.
           if length (ic_valid c) \<le> bIndex \<or> length (ic_blocks c) \<le> bIndex then Inl Overrun
           else if \<not> ic_valid c ! bIndex \<or> ic_blocks c ! bIndex \<noteq> tag
           then Inr (c\<lparr>ic_totalMissCount := ic_totalMissCount c + 1,
                       ic_blocks := (ic_blocks c)[bIndex := tag],
                       ic_valid := (ic_valid c)[bIndex := True]\<rparr>)
           else Inr c)))"

text \<open>The \<open>do ... while (pc != 0)\<close> loop of \<open>sim\<close>, and \<open>sim\<close> on the bytes of a trace file.\<close>

function sim_loop :: "itrace_pack \<Rightarrow> icache_sim \<Rightarrow> (err, icache_sim) result" where
  "sim_loop pack c =
     (case itrace_pack_pickone pack of
        Inl e \<Rightarrow> Inl e
      | Inr (pc, pack') \<Rightarrow>
          if pc \<noteq> 0 then rbind (icache_access c pc) (sim_loop pack') else Inr c)"
  by auto
termination
proof (relation "measure (\<lambda>(p, c). unat (it_size p))")
  fix p :: itrace_pack and c :: icache_sim and x pc p' y
  assume "itrace_pack_pickone p = Inr x" "(pc, p') = x" "pc \<noteq> 0"
  then have "it_size p \<noteq> 0" "it_size p' = it_size p - 1"
    using pickone_size [of p pc p'] by auto
  then show "((p', y), p, c) \<in> measure (\<lambda>(p, c). unat (it_size p))"
    by (simp add: measure_unat)
qed simp

declare sim_loop.simps [simp del]

definition cache_sim :: "u8 list \<Rightarrow> u64 \<Rightarrow> u64 \<Rightarrow> (err, icache_sim) result" where
  "cache_sim file blockSize blockNum =
     rbind (itrace_pack_openfp file) (\<lambda>pack.
     rbind (icache_new blockSize blockNum) (sim_loop pack))"

section \<open>Correctness\<close>

text \<open>The geometry of a well-formed cache: blocks of \<open>2^a\<close> bytes, \<open>2^b\<close> of them.\<close>

definition blk_idx :: "nat \<Rightarrow> nat \<Rightarrow> u32 \<Rightarrow> nat" where
  "blk_idx a b addr = unat addr div 2 ^ a mod 2 ^ b"

definition blk_tag :: "nat \<Rightarrow> nat \<Rightarrow> u32 \<Rightarrow> u32" where
  "blk_tag a b addr = drop_bit (a + b) addr"

definition geometry :: "nat \<Rightarrow> nat \<Rightarrow> icache_sim \<Rightarrow> bool" where
  "geometry a b c \<longleftrightarrow> ic_blockSize c = 2 ^ a \<and> ic_blockNum c = 2 ^ b \<and> 1 \<le> b \<and> 1 \<le> a + b \<and> a + b < 32
     \<and> length (ic_blocks c) = 2 ^ b \<and> length (ic_valid c) = 2 ^ b"

lemma upt_64_split: "a < 64 \<Longrightarrow> [0..<64] = [0..<a] @ a # [Suc a..<64]"
  using upt_add_eq_append [of 0 a "64 - a"] by (simp add: upt_conv_Cons)

lemma countr_zero_pow2 [simp]: "a < 64 \<Longrightarrow> countr_zero (2 ^ a) = a"
  unfolding countr_zero_def
  by (simp only: upt_64_split [of a], subst takeWhile_append2) (auto simp: bit_simps)

lemma has_single_bit_pow2 [simp]: "a < 64 \<Longrightarrow> has_single_bit (2 ^ a)"
  by (simp add: has_single_bit_def bit_simps upt_64_split [of a])

lemma geometry_widths:
  "geometry a b c \<Longrightarrow> blockSizeWidth c = int a \<and> blockNumWidth c = int b"
  by (simp add: geometry_def blockSizeWidth_def blockNumWidth_def)

lemma getBlockIndex_geometry:
  assumes "geometry a b c"
  shows "getBlockIndex c addr = Inr (blk_idx a b addr)"
proof -
  have "nat (int a + int b - 1 - int a + 1) = b" "1 \<le> b" "a + b < 32"
    using assms by (auto simp: geometry_def)
  then show ?thesis
    using geometry_widths [OF assms] unat_field [where n = b and x = addr and k = a]
    by (simp add: getBlockIndex_def extractBits_def blk_idx_def mask_eq_exp_minus_1 [symmetric]
        push_bit_eq_mult take_bit_eq_mask [symmetric])
qed

lemma getTag_geometry:
  assumes "geometry a b c"
  shows "getTag c addr = Inr (blk_tag a b addr)"
proof -
  have ab: "1 \<le> a + b" "a + b < 32"
    using assms by (auto simp: geometry_def)
  then have "nat (31 - (int a + int b) + 1) = 32 - (a + b)" "nat (int a + int b) = a + b"
    by auto
  moreover have "drop_bit (a + b) addr AND mask (32 - (a + b)) = drop_bit (a + b) addr"
    by (rule bit_word_eqI) (auto simp: bits_simps dest: bit_imp_le_length)
  ultimately show ?thesis
    using geometry_widths [OF assms] ab
    by (simp add: getTag_def extractBits_def blk_tag_def mask_eq_exp_minus_1 [symmetric]
        push_bit_eq_mult)
qed

definition icache_content :: "icache_sim \<Rightarrow> nat \<Rightarrow> (u32 \<times> unit) option" where
  "icache_content c i =
     (if i < length (ic_valid c) \<and> ic_valid c ! i then Some (ic_blocks c ! i, ()) else None)"

definition icache_lookup :: "nat \<Rightarrow> nat \<Rightarrow> icache_sim \<Rightarrow> u32 \<Rightarrow> unit option" where
  "icache_lookup a b c addr =
     (if ic_valid c ! blk_idx a b addr \<and> ic_blocks c ! blk_idx a b addr = blk_tag a b addr
      then Some () else None)"

definition icache_put :: "icache_sim \<Rightarrow> u32 \<Rightarrow> unit \<Rightarrow> icache_sim" where
  "icache_put c addr u = (case icache_access c addr of Inl _ \<Rightarrow> c | Inr c' \<Rightarrow> c')"

lemma blk_idx_less [simp]: "blk_idx a b addr < 2 ^ b"
  by (simp add: blk_idx_def)

lemma access_geometry:
  assumes "geometry a b c"
  shows "icache_access c addr = Inr (if icache_lookup a b c addr = None
      then c\<lparr>ic_totalAccessCount := ic_totalAccessCount c + 1,
             ic_totalMissCount := ic_totalMissCount c + 1,
             ic_blocks := (ic_blocks c)[blk_idx a b addr := blk_tag a b addr],
             ic_valid := (ic_valid c)[blk_idx a b addr := True]\<rparr>
      else c\<lparr>ic_totalAccessCount := ic_totalAccessCount c + 1\<rparr>)"
proof -
  let ?c = "c\<lparr>ic_totalAccessCount := ic_totalAccessCount c + 1\<rparr>"
  have g: "geometry a b ?c"
    using assms by (simp add: geometry_def)
  have "length (ic_blocks c) = 2 ^ b" "length (ic_valid c) = 2 ^ b"
    using assms by (simp_all add: geometry_def)
  then show ?thesis
    by (simp add: icache_access_def Let_def getBlockIndex_geometry [OF g] getTag_geometry [OF g]
        icache_lookup_def not_le)
qed

interpretation icache: direct_mapped "geometry a b" "icache_lookup a b" icache_put
  "blk_idx a b" "blk_tag a b" icache_content for a b :: nat
proof
  fix s :: icache_sim and x :: u32 and v :: unit
  assume g: "geometry a b s"
  then have len: "length (ic_blocks s) = 2 ^ b" "length (ic_valid s) = 2 ^ b"
    by (simp_all add: geometry_def)
  show "geometry a b (icache_put s x v)"
    using g by (simp add: icache_put_def access_geometry [OF g]) (simp add: geometry_def)
  show "icache_lookup a b s x = (case icache_content s (blk_idx a b x) of None \<Rightarrow> None
      | Some (t, v) \<Rightarrow> if t = blk_tag a b x then Some v else None)"
    using len by (simp add: icache_lookup_def icache_content_def)
  show "icache_content (icache_put s x v) =
      (icache_content s)(blk_idx a b x \<mapsto> (blk_tag a b x, v))"
    using len
    by (auto simp: icache_put_def access_geometry [OF g] icache_content_def icache_lookup_def
        fun_eq_iff nth_list_update split: if_splits)
qed

text \<open>
  The reference: an access hits when the most recent earlier access with the same index was to
  the same block, where the block of an address is \<open>unat addr div 2^a\<close>.
\<close>

definition ref_hit :: "nat \<Rightarrow> nat \<Rightarrow> u32 list \<Rightarrow> u32 \<Rightarrow> bool" where
  "ref_hit a b before addr =
     (case find (\<lambda>x. blk_idx a b x = blk_idx a b addr) before of
        None \<Rightarrow> False
      | Some x \<Rightarrow> unat x div 2 ^ a = unat addr div 2 ^ a)"

fun ref_misses :: "nat \<Rightarrow> nat \<Rightarrow> u32 list \<Rightarrow> u32 list \<Rightarrow> nat" where
  "ref_misses a b before [] = 0"
| "ref_misses a b before (x # xs) =
     (if ref_hit a b before x then 0 else 1) + ref_misses a b (x # before) xs"

text \<open>Index and tag together name the block.\<close>

lemma same_block_iff:
  assumes "blk_idx a b x = blk_idx a b y"
  shows "blk_tag a b x = blk_tag a b y \<longleftrightarrow> unat x div 2 ^ a = unat y div 2 ^ a"
proof -
  have tag: "unat (blk_tag a b z) = unat z div 2 ^ a div 2 ^ b" for z
    by (simp add: blk_tag_def unat_drop_bit div_mult2_eq [symmetric] power_add)
  have dm: "unat z div 2 ^ a = unat (blk_tag a b z) * 2 ^ b + blk_idx a b z" for z
    unfolding tag blk_idx_def by (rule div_mult_mod_eq [symmetric])
  have "unat x div 2 ^ a = unat y div 2 ^ a" if "blk_tag a b x = blk_tag a b y"
    using that assms by (simp only: dm)
  moreover have "blk_tag a b x = blk_tag a b y" if "unat x div 2 ^ a = unat y div 2 ^ a"
    using that by (simp add: word_unat_eq_iff tag)
  ultimately show ?thesis by blast
qed

fun icache_accesses :: "icache_sim \<Rightarrow> u32 list \<Rightarrow> (err, icache_sim) result" where
  "icache_accesses c [] = Inr c"
| "icache_accesses c (x # xs) = rbind (icache_access c x) (\<lambda>c. icache_accesses c xs)"

lemma sim_loop_picks:
  "itrace_pack_picks p = Inr pcs \<Longrightarrow> sim_loop p c = icache_accesses c pcs"
proof (induction p arbitrary: pcs c rule: itrace_pack_picks.induct)
  case (1 p)
  obtain pc p' where pk: "itrace_pack_pickone p = Inr (pc, p')"
    using "1.prems" by (cases "itrace_pack_pickone p") (auto simp: itrace_pack_picks.simps [of p])
  show ?case
  proof (cases "pc = 0")
    case True
    then show ?thesis
      using "1.prems" pk by (simp add: itrace_pack_picks.simps [of p] sim_loop.simps [of p])
  next
    case False
    then obtain pcs' where "itrace_pack_picks p' = Inr pcs'" "pcs = pc # pcs'"
      using "1.prems" pk by (auto simp: itrace_pack_picks.simps [of p] rbind_Inr_iff)
    moreover from this have "sim_loop p' = (\<lambda>c. icache_accesses c pcs')"
      using "1.IH" [OF pk] False by (simp add: fun_eq_iff)
    ultimately show ?thesis
      using False pk by (simp add: sim_loop.simps [of p])
  qed
qed

text \<open>The tag store after a history of accesses, most recent first.\<close>

definition holds :: "nat \<Rightarrow> nat \<Rightarrow> icache_sim \<Rightarrow> u32 list \<Rightarrow> bool" where
  "holds a b c before \<longleftrightarrow> geometry a b c \<and> (\<forall>i. icache_content c i =
     map_option (\<lambda>x. (blk_tag a b x, ())) (find (\<lambda>x. blk_idx a b x = i) before))"

lemma lookup_holds:
  assumes "holds a b c before"
  shows "icache_lookup a b c x = None \<longleftrightarrow> \<not> ref_hit a b before x"
proof -
  have "unat y div 2 ^ a = unat x div 2 ^ a \<longleftrightarrow> blk_tag a b y = blk_tag a b x"
    if "find (\<lambda>y. blk_idx a b y = blk_idx a b x) before = Some y" for y
    using that same_block_iff [of a b y x] by (auto simp: find_Some_iff)
  then show ?thesis
    using assms icache.lookup_content [of a b c x]
    by (auto simp: holds_def ref_hit_def split: option.splits if_splits)
qed

lemma access_holds:
  assumes "holds a b c before"
  shows "\<exists>c'. icache_access c x = Inr c' \<and> holds a b c' (x # before)
     \<and> ic_totalAccessCount c' = ic_totalAccessCount c + 1
     \<and> ic_totalMissCount c' = ic_totalMissCount c + (if ref_hit a b before x then 0 else 1)"
proof -
  have g: "geometry a b c"
    using assms by (simp add: holds_def)
  obtain c' where c': "icache_access c x = Inr c'" "icache_put c x () = c'"
    by (simp add: icache_put_def access_geometry [OF g])
  have "holds a b c' (x # before)"
    using icache.invar_put [OF g, of x "()"] icache.content_put [OF g, of x "()"] assms
    unfolding c'(2) by (simp add: holds_def)
  then show ?thesis
    using c'(1) lookup_holds [OF assms, of x] by (auto simp: access_geometry [OF g])
qed

lemma accesses_holds:
  assumes "holds a b c before"
  shows "\<exists>c'. icache_accesses c xs = Inr c'
     \<and> ic_totalAccessCount c' = ic_totalAccessCount c + of_nat (length xs)
     \<and> ic_totalMissCount c' = ic_totalMissCount c + of_nat (ref_misses a b before xs)"
  using assms
proof (induction xs arbitrary: c before)
  case Nil
  then show ?case by simp
next
  case (Cons x xs)
  then obtain c' where c': "icache_access c x = Inr c'" "holds a b c' (x # before)"
    "ic_totalAccessCount c' = ic_totalAccessCount c + 1"
    "ic_totalMissCount c' = ic_totalMissCount c + (if ref_hit a b before x then 0 else 1)"
    using access_holds [of a b c before x] by blast
  from Cons.IH [OF c'(2)] c'(1,3,4) show ?case
    by (auto simp: add.assoc)
qed

lemma new_holds:
  assumes "1 \<le> b" "a + b < 32"
  shows "\<exists>c. icache_new (2 ^ a) (2 ^ b) = Inr c \<and> holds a b c []
     \<and> ic_totalAccessCount c = 0 \<and> ic_totalMissCount c = 0"
proof -
  have "unat ((2 :: u64) ^ b) = 2 ^ b"
    using assms by (simp add: unat_pow2)
  then show ?thesis
    using assms by (auto simp: icache_new_def holds_def geometry_def icache_content_def)
qed

text \<open>
  C17. The simulator on a recorded instruction trace, for blocks of \<open>2^a\<close> bytes and \<open>2^b\<close>
  blocks: it finishes without a failed assertion, counts every address once, and its miss
  count is that of the reference cache on the order in which the trace is read back.
\<close>

theorem cache_sim_correct:
  assumes "\<And>pc. pc \<in> set pcs \<Longrightarrow> fetchable pc" "length pcs < 2 ^ 64" "1 \<le> b" "a + b < 32"
  shows "\<exists>file c. write_itrace pcs = Inr file \<and> cache_sim file (2 ^ a) (2 ^ b) = Inr c
     \<and> ic_totalAccessCount c = of_nat (length pcs)
     \<and> ic_totalMissCount c = of_nat (ref_misses a b [] (swapped pcs))"
proof -
  obtain bs where f: "write_itrace pcs = Inr bs" "read_itrace bs = Inr (swapped pcs)"
    using write_read_itrace [OF assms(1,2)] by blast
  then obtain p where p: "itrace_pack_openfp bs = Inr p" "itrace_pack_picks p = Inr (swapped pcs)"
    by (auto simp: read_itrace_def rbind_Inr_iff)
  obtain c where c: "icache_new (2 ^ a) (2 ^ b) = Inr c" "holds a b c []"
      "ic_totalAccessCount c = 0" "ic_totalMissCount c = 0"
    using new_holds [OF assms(3,4)] by blast
  show ?thesis
    using accesses_holds [OF c(2), of "swapped pcs"] c(1,3,4) f(1) p
    by (auto simp: cache_sim_def sim_loop_picks)
qed

theorem cache_sim_correct_witness:
  "\<exists>file c. write_itrace [0x80000000, 0x80000004, 0x80000010, 0x80000100, 0x80000004] = Inr file
     \<and> cache_sim file (2 ^ 2) (2 ^ 4) = Inr c
     \<and> ic_totalAccessCount c = 5 \<and> ic_totalMissCount c = 4"
proof -
  let ?pcs = "[0x80000000, 0x80000004, 0x80000010, 0x80000100, 0x80000004] :: u32 list"
  have ok: "fetchable pc" if "pc \<in> set ?pcs" for pc
    using that by (auto simp: fetchable_def)
  have "ref_misses 2 4 [] (swapped ?pcs) = 4"
    by (simp add: ONE_PC_STEP_def ref_hit_def blk_idx_def)
  then show ?thesis
    using cache_sim_correct [of ?pcs 4 2, OF ok] by simp
qed

end
