(* ===== verification/Nemu_Mem.thy ===== *)
theory Nemu_Mem
  imports Trace_Pack
begin

text \<open>
  The physical address space of NEMU: the five memory arrays and their address ranges
  (\<open>nemu/src/memory/paddr.c\<close>, \<open>nemu/include/memory/{host,paddr}.h\<close>), the memory-mapped and port
  I/O maps with their device callbacks (\<open>nemu/src/device/io/{map,mmio,port-io}.c\<close>,
  \<open>nemu/include/device/map.h\<close>) and the bus operations \<open>paddr_read\<close> and \<open>paddr_write\<close>.

  The configuration macros of the generated \<open>autoconf.h\<close> are the fields of \<open>config\<close>, as is the
  global \<open>isSoC\<close>, which only the command line sets. A host pointer is an array and an offset into it;
  an access that leaves the array is the error \<open>Overrun\<close>. A device callback sees the
  I/O space and the state \<open>'d\<close> of the devices.
\<close>

section \<open>Configuration and state\<close>

record config =
  CONFIG_MBASE :: u32
  CONFIG_MSIZE :: u32
  CONFIG_PC_RESET_OFFSET :: u32
  CONFIG_DEVICE :: bool
  CONFIG_RT_CHECK :: bool
  CONFIG_DIFFTEST :: bool
  CONFIG_SERIAL_MMIO :: u32
  CONFIG_RTC_MMIO :: u32
  isSoC :: bool

datatype region = Pmem | Mrom | Sram | Flash | Sdram | IoSpace

type_synonym hptr = "region \<times> nat"

type_synonym ('d) io_callback = "u32 \<Rightarrow> nat \<Rightarrow> bool \<Rightarrow> (nat \<Rightarrow> u8) \<times> 'd \<Rightarrow> (err, (nat \<Rightarrow> u8) \<times> 'd) result"

record 'd IOMap =
  map_name :: string
  map_low :: u32
  map_high :: u32
  map_space :: nat
  map_callback :: "'d io_callback option"

record 'd mem_state =
  host :: "region \<Rightarrow> nat \<Rightarrow> u8"
  p_space :: nat
  mmio_maps :: "'d IOMap list"
  pio_maps :: "'d IOMap list"
  devices :: 'd
  skip_difftest_ref :: bool
  mtrace_pack :: "itrace_pack option"

definition NR_MAP :: nat where
  "NR_MAP = 16"

definition IO_SPACE_MAX :: nat where
  "IO_SPACE_MAX = 32 * 1024 * 1024"

definition PORT_IO_SPACE_MAX :: int where
  "PORT_IO_SPACE_MAX = 65535"

definition SOC_SERIAL_BASE :: u32 where "SOC_SERIAL_BASE = 0x10000000"
definition SOC_SERIAL_END :: u32 where "SOC_SERIAL_END = 0x10001000"
definition SOC_TIMER_BASE :: u32 where "SOC_TIMER_BASE = 0x02000048"
definition SOC_TIMER_END :: u32 where "SOC_TIMER_END = 0x02000100"
definition SRAM_BASE :: u32 where "SRAM_BASE = 0x0f000000"
definition MROM_BASE :: u32 where "MROM_BASE = 0x20000000"
definition FLASH_BASE :: u32 where "FLASH_BASE = 0x30000000"
definition FLASH_END :: u32 where "FLASH_END = 0x40000000"

definition SDRAM_BASE :: "config \<Rightarrow> u32" where
  "SDRAM_BASE c = (if CONFIG_DEVICE c then if isSoC c then 0xa0000000 else 0xffffffff else 0xa0000000)"

definition SDRAM_END :: "config \<Rightarrow> u32" where
  "SDRAM_END c = (if CONFIG_DEVICE c then if isSoC c then 0xb0000000 else 0xffffffff else 0xb0000000)"

text \<open>The sizes of the arrays.\<close>

definition region_size :: "config \<Rightarrow> region \<Rightarrow> nat" where
  "region_size c r = (case r of
     Pmem \<Rightarrow> unat (CONFIG_MSIZE c) | Mrom \<Rightarrow> 0x1000 | Sram \<Rightarrow> 0x2000
   | Flash \<Rightarrow> 0x1000000 | Sdram \<Rightarrow> 0x2000000 | IoSpace \<Rightarrow> IO_SPACE_MAX)"

section \<open>Host accesses\<close>

definition host_read :: "config \<Rightarrow> (region \<Rightarrow> nat \<Rightarrow> u8) \<Rightarrow> hptr \<Rightarrow> nat \<Rightarrow> (err, u32) result" where
  "host_read c m p len =
     (if len \<in> {1, 2, 4}
      then if snd p + len \<le> region_size c (fst p)
           then Inr (of_bytes (load_bytes (m (fst p)) (snd p) len))
           else Inl Overrun
      else if CONFIG_RT_CHECK c then Inl AssertFail else Inr 0)"

definition host_write ::
  "config \<Rightarrow> (region \<Rightarrow> nat \<Rightarrow> u8) \<Rightarrow> hptr \<Rightarrow> nat \<Rightarrow> u32 \<Rightarrow> (err, region \<Rightarrow> nat \<Rightarrow> u8) result" where
  "host_write c m p len data =
     (if len \<in> {1, 2, 4}
      then if snd p + len \<le> region_size c (fst p)
           then Inr (m(fst p := store_bytes (m (fst p)) (snd p) (bytes_of len data)))
           else Inl Overrun
      else if CONFIG_RT_CHECK c then Inl AssertFail else Inr m)"

section \<open>Address translation\<close>

definition in_pmem :: "config \<Rightarrow> u32 \<Rightarrow> bool" where
  "in_pmem c addr = (addr - CONFIG_MBASE c < CONFIG_MSIZE c)"

definition in_mrom :: "u32 \<Rightarrow> bool" where
  "in_mrom addr = (addr - MROM_BASE < 0x1000)"

definition in_sram :: "u32 \<Rightarrow> bool" where
  "in_sram addr = (addr - SRAM_BASE < 0x2000)"

definition in_flash :: "u32 \<Rightarrow> bool" where
  "in_flash addr = (FLASH_BASE \<le> addr \<and> addr < FLASH_END)"

definition in_sdram :: "config \<Rightarrow> u32 \<Rightarrow> bool" where
  "in_sdram c addr = (SDRAM_BASE c \<le> addr \<and> addr < SDRAM_END c)"

text \<open>
  \<open>None\<close> is the null pointer. The three device ranges at the end of the code's cascade and the
  final diagnostic all give it.
\<close>

definition guest_to_host :: "config \<Rightarrow> u32 \<Rightarrow> hptr option" where
  "guest_to_host c paddr =
     (if in_pmem c paddr then Some (Pmem, unat (paddr - CONFIG_MBASE c))
      else if in_mrom paddr then Some (Mrom, unat (paddr - MROM_BASE))
      else if in_sram paddr then Some (Sram, unat (paddr - SRAM_BASE))
      else if in_flash paddr
      then if 0x1000000 \<le> paddr - FLASH_BASE then None
           else Some (Flash, unat (paddr - FLASH_BASE))
      else if in_sdram c paddr
      then if 0x2000000 \<le> paddr - SDRAM_BASE c then None
           else Some (Sdram, unat (paddr - SDRAM_BASE c))
      else None)"

definition region_base :: "config \<Rightarrow> region \<Rightarrow> u32" where
  "region_base c r = (case r of
     Pmem \<Rightarrow> CONFIG_MBASE c | Mrom \<Rightarrow> MROM_BASE | Sram \<Rightarrow> SRAM_BASE
   | Flash \<Rightarrow> FLASH_BASE | Sdram \<Rightarrow> SDRAM_BASE c | IoSpace \<Rightarrow> 0)"

definition host_to_guest :: "config \<Rightarrow> hptr \<Rightarrow> u32" where
  "host_to_guest c p = (case p of (r, off) \<Rightarrow>
     if r \<noteq> IoSpace \<and> off < region_size c r then of_nat off + region_base c r else 0)"

definition reset_vector :: "config \<Rightarrow> u32" where
  "reset_vector c = (if isSoC c then 0x30000000 else CONFIG_MBASE c + CONFIG_PC_RESET_OFFSET c)"

section \<open>I/O maps\<close>

definition PAGE_SIZE :: int where "PAGE_SIZE = 4096"
definition PAGE_MASK :: int where "PAGE_MASK = PAGE_SIZE - 1"

definition init_map :: "'d mem_state \<Rightarrow> 'd mem_state" where
  "init_map s = s\<lparr>p_space := 0\<rparr>"

definition new_space :: "'d mem_state \<Rightarrow> int \<Rightarrow> (err, nat \<times> 'd mem_state) result" where
  "new_space s sz =
     (let p = p_space s;
          sz = (sz + (PAGE_SIZE - 1)) AND NOT PAGE_MASK;
          q = int p + sz
      in if q < int IO_SPACE_MAX then Inr (p, s\<lparr>p_space := nat q\<rparr>) else Inl AssertFail)"

definition map_inside :: "'d IOMap \<Rightarrow> u32 \<Rightarrow> bool" where
  "map_inside m addr = (addr \<ge> map_low m \<and> addr \<le> map_high m)"

text \<open>\<open>difftest_skip_ref\<close> is a call into the debugger when differential testing is configured.\<close>

definition difftest_skip_ref :: "config \<Rightarrow> 'd mem_state \<Rightarrow> 'd mem_state" where
  "difftest_skip_ref c s = (if CONFIG_DIFFTEST c then s\<lparr>skip_difftest_ref := True\<rparr> else s)"

definition find_mapid_by_addr ::
  "config \<Rightarrow> 'd IOMap list \<Rightarrow> u32 \<Rightarrow> 'd mem_state \<Rightarrow> 'd IOMap option \<times> 'd mem_state" where
  "find_mapid_by_addr c maps addr s =
     (case find (\<lambda>m. map_inside m addr) maps of
        None \<Rightarrow> (None, s)
      | Some m \<Rightarrow> (Some m, difftest_skip_ref c s))"

definition check_bound :: "'d IOMap option \<Rightarrow> u32 \<Rightarrow> (err, 'd IOMap) result" where
  "check_bound m addr =
     (case m of
        None \<Rightarrow> Inl AssertFail
      | Some m \<Rightarrow> if addr \<le> map_high m \<and> addr \<ge> map_low m then Inr m else Inl AssertFail)"

definition invoke_callback ::
  "'d io_callback option \<Rightarrow> u32 \<Rightarrow> nat \<Rightarrow> bool \<Rightarrow> 'd mem_state \<Rightarrow> (err, 'd mem_state) result" where
  "invoke_callback cb offset len is_write s =
     (case cb of
        None \<Rightarrow> Inr s
      | Some f \<Rightarrow> rbind (f offset len is_write (host s IoSpace, devices s)) (\<lambda>(io, d).
          Inr (s\<lparr>host := (host s)(IoSpace := io), devices := d\<rparr>)))"

definition map_read ::
  "config \<Rightarrow> u32 \<Rightarrow> nat \<Rightarrow> 'd IOMap option \<Rightarrow> 'd mem_state \<Rightarrow> (err, u32 \<times> 'd mem_state) result" where
  "map_read c addr len mp s =
     (if \<not> (1 \<le> len \<and> len \<le> 8) then Inl AssertFail
      else rbind (check_bound mp addr) (\<lambda>m.
        let offset = addr - map_low m
        in rbind (invoke_callback (map_callback m) offset len False s) (\<lambda>s.
           rbind (host_read c (host s) (IoSpace, map_space m + unat offset) len) (\<lambda>ret.
             Inr (ret, s)))))"

definition map_write ::
  "config \<Rightarrow> u32 \<Rightarrow> nat \<Rightarrow> u32 \<Rightarrow> 'd IOMap option \<Rightarrow> 'd mem_state \<Rightarrow> (err, 'd mem_state) result" where
  "map_write c addr len data mp s =
     (if \<not> (1 \<le> len \<and> len \<le> 8) then Inl AssertFail
      else rbind (check_bound mp addr) (\<lambda>m.
        let offset = addr - map_low m
        in rbind (host_write c (host s) (IoSpace, map_space m + unat offset) len data) (\<lambda>h.
             invoke_callback (map_callback m) offset len True (s\<lparr>host := h\<rparr>))))"

definition add_mmio_map ::
  "config \<Rightarrow> string \<Rightarrow> u32 \<Rightarrow> nat \<Rightarrow> u32 \<Rightarrow> 'd io_callback option \<Rightarrow> 'd mem_state
   \<Rightarrow> (err, 'd mem_state) result" where
  "add_mmio_map c name addr space len callback s =
     (if \<not> length (mmio_maps s) < NR_MAP then Inl AssertFail
      else let left = addr; right = addr + len - 1
      in if in_pmem c left \<or> in_pmem c right then Inl Panic
         else if \<exists>m \<in> set (mmio_maps s). left \<le> map_high m \<and> right \<ge> map_low m then Inl Panic
         else Inr (s\<lparr>mmio_maps := mmio_maps s @
                [\<lparr>map_name = name, map_low = addr, map_high = addr + len - 1, map_space = space,
                  map_callback = callback\<rparr>]\<rparr>))"

definition mmio_read ::
  "config \<Rightarrow> u32 \<Rightarrow> nat \<Rightarrow> 'd mem_state \<Rightarrow> (err, u32 \<times> 'd mem_state) result" where
  "mmio_read c addr len s =
     (let (m, s) = find_mapid_by_addr c (mmio_maps s) addr s in map_read c addr len m s)"

definition mmio_write ::
  "config \<Rightarrow> u32 \<Rightarrow> nat \<Rightarrow> u32 \<Rightarrow> 'd mem_state \<Rightarrow> (err, 'd mem_state) result" where
  "mmio_write c addr len data s =
     (let (m, s) = find_mapid_by_addr c (mmio_maps s) addr s in map_write c addr len data m s)"

definition add_pio_map ::
  "string \<Rightarrow> u16 \<Rightarrow> nat \<Rightarrow> u32 \<Rightarrow> 'd io_callback option \<Rightarrow> 'd mem_state
   \<Rightarrow> (err, 'd mem_state) result" where
  "add_pio_map name addr space len callback s =
     (if \<not> length (pio_maps s) < NR_MAP then Inl AssertFail
      else if \<not> uint (ucast addr + len :: u32) \<le> PORT_IO_SPACE_MAX then Inl AssertFail
      else Inr (s\<lparr>pio_maps := pio_maps s @
             [\<lparr>map_name = name, map_low = ucast addr, map_high = ucast addr + len - 1,
               map_space = space, map_callback = callback\<rparr>]\<rparr>))"

definition pio_read ::
  "config \<Rightarrow> u16 \<Rightarrow> nat \<Rightarrow> 'd mem_state \<Rightarrow> (err, u32 \<times> 'd mem_state) result" where
  "pio_read c addr len s =
     (if \<not> uint addr + int len - 1 < PORT_IO_SPACE_MAX then Inl AssertFail
      else let (m, s) = find_mapid_by_addr c (pio_maps s) (ucast addr) s
      in case m of None \<Rightarrow> Inl AssertFail | Some _ \<Rightarrow> map_read c (ucast addr) len m s)"

definition pio_write ::
  "config \<Rightarrow> u16 \<Rightarrow> nat \<Rightarrow> u32 \<Rightarrow> 'd mem_state \<Rightarrow> (err, 'd mem_state) result" where
  "pio_write c addr len data s =
     (if \<not> uint addr + int len - 1 < PORT_IO_SPACE_MAX then Inl AssertFail
      else let (m, s) = find_mapid_by_addr c (pio_maps s) (ucast addr) s
      in case m of None \<Rightarrow> Inl AssertFail | Some _ \<Rightarrow> map_write c (ucast addr) len data m s)"

section \<open>The bus\<close>

text \<open>\<open>Inr None\<close> is the answer \<open>false\<close>: the address is not one of the built-in memories.\<close>

definition builtin_read :: "config \<Rightarrow> 'd mem_state \<Rightarrow> u32 \<Rightarrow> nat \<Rightarrow> (err, u32 option) result" where
  "builtin_read c s addr len =
     (case guest_to_host c addr of
        None \<Rightarrow> Inr None
      | Some haddr \<Rightarrow> rbind (host_read c (host s) haddr len) (\<lambda>data. Inr (Some data)))"

definition builtin_write ::
  "config \<Rightarrow> 'd mem_state \<Rightarrow> u32 \<Rightarrow> nat \<Rightarrow> u32 \<Rightarrow> (err, 'd mem_state option) result" where
  "builtin_write c s addr len data =
     (if in_mrom addr then Inl Panic
      else case guest_to_host c addr of
        None \<Rightarrow> Inr None
      | Some haddr \<Rightarrow> rbind (host_write c (host s) haddr len data) (\<lambda>h. Inr (Some (s\<lparr>host := h\<rparr>))))"

definition paddr_read ::
  "config \<Rightarrow> 'd mem_state \<Rightarrow> u32 \<Rightarrow> nat \<Rightarrow> (err, u32 \<times> 'd mem_state) result" where
  "paddr_read c s addr len =
     rbind (case mtrace_pack s of
              None \<Rightarrow> Inr s
            | Some p \<Rightarrow> rbind (itrace_pack_add p addr) (\<lambda>p. Inr (s\<lparr>mtrace_pack := Some p\<rparr>)))
       (\<lambda>s. rbind (builtin_read c s addr len) (\<lambda>r.
          case r of
            Some data \<Rightarrow> Inr (data, s)
          | None \<Rightarrow>
              if CONFIG_DEVICE c
              then let addr =
                     (if SOC_SERIAL_BASE \<le> addr \<and> addr < SOC_SERIAL_END
                      then addr - SOC_SERIAL_BASE + CONFIG_SERIAL_MMIO c
                      else if SOC_TIMER_BASE \<le> addr \<and> addr < SOC_TIMER_END
                      then addr - SOC_TIMER_BASE + CONFIG_RTC_MMIO c
                      else addr)
                   in mmio_read c addr len s
              else Inl Panic))"

definition paddr_write ::
  "config \<Rightarrow> 'd mem_state \<Rightarrow> u32 \<Rightarrow> nat \<Rightarrow> u32 \<Rightarrow> (err, 'd mem_state) result" where
  "paddr_write c s addr len data =
     rbind (builtin_write c s addr len data) (\<lambda>r.
       case r of
         Some s \<Rightarrow> Inr s
       | None \<Rightarrow>
           if CONFIG_DEVICE c
           then let addr =
                  (if SOC_SERIAL_BASE \<le> addr \<and> addr < SOC_SERIAL_END
                   then addr - SOC_SERIAL_BASE + CONFIG_SERIAL_MMIO c
                   else addr)
                in mmio_write c addr len data s
           else Inl Panic)"

definition vaddr_ifetch :: "config \<Rightarrow> 'd mem_state \<Rightarrow> u32 \<Rightarrow> nat \<Rightarrow> (err, u32 \<times> 'd mem_state) result" where
  "vaddr_ifetch c s addr len = paddr_read c s addr len"

definition vaddr_read :: "config \<Rightarrow> 'd mem_state \<Rightarrow> u32 \<Rightarrow> nat \<Rightarrow> (err, u32 \<times> 'd mem_state) result" where
  "vaddr_read c s addr len = paddr_read c s addr len"

definition vaddr_write :: "config \<Rightarrow> 'd mem_state \<Rightarrow> u32 \<Rightarrow> nat \<Rightarrow> u32 \<Rightarrow> (err, 'd mem_state) result" where
  "vaddr_write c s addr len data = paddr_write c s addr len data"

section \<open>Translation is exact\<close>

lemma guest_to_host_bound:
  "guest_to_host c a = Some (r, off) \<Longrightarrow> off < region_size c r \<and> r \<noteq> IoSpace"
  by (auto simp: guest_to_host_def in_pmem_def in_mrom_def in_sram_def region_size_def not_le
      word_less_nat_alt split: if_splits)

lemma guest_to_host_base:
  "guest_to_host c a = Some (r, off) \<Longrightarrow> off = unat (a - region_base c r)"
  by (auto simp: guest_to_host_def region_base_def split: if_splits)

lemma host_to_guest_guest_to_host:
  "guest_to_host c a = Some p \<Longrightarrow> host_to_guest c p = a"
  using guest_to_host_bound [of c a] guest_to_host_base [of c a]
  by (cases p) (auto simp: host_to_guest_def)

lemma guest_to_host_inj:
  "guest_to_host c a = Some p \<Longrightarrow> guest_to_host c b = Some p \<Longrightarrow> a = b"
  using host_to_guest_guest_to_host by metis

text \<open>
  The values of the shipped Kconfig defaults, with the device option on: the instance the witnesses use.
\<close>

definition kconfig_default :: config where
  "kconfig_default = \<lparr>CONFIG_MBASE = 0x80000000, CONFIG_MSIZE = 0x8000000,
     CONFIG_PC_RESET_OFFSET = 0, CONFIG_DEVICE = True, CONFIG_RT_CHECK = True,
     CONFIG_DIFFTEST = False, CONFIG_SERIAL_MMIO = 0xa00003f8, CONFIG_RTC_MMIO = 0xa0000048,
     isSoC = False\<rparr>"

definition empty_mem :: "'d \<Rightarrow> 'd mem_state" where
  "empty_mem d = \<lparr>host = (\<lambda>_ _. 0), p_space = 0, mmio_maps = [], pio_maps = [], devices = d,
     skip_difftest_ref = False, mtrace_pack = None\<rparr>"

lemma empty_mem_sel [simp]:
  "mtrace_pack (empty_mem d) = None" "mmio_maps (empty_mem d) = []" "pio_maps (empty_mem d) = []"
  "host (empty_mem d) = (\<lambda>_ _. 0)" "devices (empty_mem d) = d"
  by (simp_all add: empty_mem_def)

lemmas region_defs = in_pmem_def in_mrom_def in_sram_def in_flash_def in_sdram_def MROM_BASE_def
  SRAM_BASE_def FLASH_BASE_def FLASH_END_def SDRAM_BASE_def SDRAM_END_def kconfig_default_def

text \<open>
  C5. Address translation loses nothing: a guest address that is translated lands inside the
  array it is translated to, and \<open>host_to_guest\<close> gives that guest address back; so two guest
  addresses never share a byte of host memory.
\<close>

theorem translation_roundtrip:
  assumes "guest_to_host c a = Some (r, off)"
  shows "off < region_size c r \<and> host_to_guest c (r, off) = a
    \<and> (\<forall>b. guest_to_host c b = Some (r, off) \<longrightarrow> b = a)"
  using assms guest_to_host_bound host_to_guest_guest_to_host guest_to_host_inj by blast

theorem translation_roundtrip_witness:
  "host_to_guest kconfig_default (Pmem, 0x1234) = 0x80001234"
proof -
  have "guest_to_host kconfig_default 0x80001234 = Some (Pmem, 0x1234)"
    by (simp add: guest_to_host_def region_defs)
  from translation_roundtrip [OF this] show ?thesis by blast
qed

section \<open>Reads over writes\<close>

lemma host_read_write_same:
  "len \<in> {1, 2, 4} \<Longrightarrow> host_write c m p len v = Inr m' \<Longrightarrow>
   host_read c m' p len = Inr (take_bit (8 * len) v)"
  by (auto simp: host_write_def host_read_def byte_simps of_bytes_bytes_of split: if_splits)

lemma host_read_write_disjoint:
  assumes "host_write c m (r, off) len v = Inr m'"
    and "r' \<noteq> r \<or> off' + n \<le> off \<or> off + len \<le> off'"
  shows "host_read c m' (r', off') n = host_read c m (r', off') n"
  using assms by (auto simp: host_write_def host_read_def byte_simps split: if_splits)

lemma host_write_ok:
  "len \<in> {1, 2, 4} \<Longrightarrow> off + len \<le> region_size c r \<Longrightarrow> \<exists>m'. host_write c m (r, off) len v = Inr m'"
  by (auto simp: host_write_def)

lemma paddr_read_builtin:
  "mtrace_pack s = None \<Longrightarrow> guest_to_host c a = Some p \<Longrightarrow>
   paddr_read c s a len = rbind (host_read c (host s) p len) (\<lambda>v. Inr (v, s))"
  by (simp add: paddr_read_def builtin_read_def rbind_assoc)

lemma paddr_write_builtin:
  "guest_to_host c a = Some p \<Longrightarrow> \<not> in_mrom a \<Longrightarrow>
   paddr_write c s a len v = rbind (host_write c (host s) p len v) (\<lambda>h. Inr (s\<lparr>host := h\<rparr>))"
  by (simp add: paddr_write_def builtin_write_def rbind_assoc)

text \<open>
  C18. Memory behaves as memory: a store of 1, 2 or 4 bytes to a writable built-in address
  whose bytes lie inside its array succeeds, a load of that width from that address then
  returns the stored bytes, zero-extended, and a load of any width from bytes the store does
  not overlap returns what it returned before.
\<close>

theorem paddr_write_read:
  assumes "guest_to_host c a = Some (r, off)" "\<not> in_mrom a" "len \<in> {1, 2, 4}"
    "off + len \<le> region_size c r" "mtrace_pack s = None"
  shows "\<exists>s'. paddr_write c s a len v = Inr s'
    \<and> paddr_read c s' a len = Inr (take_bit (8 * len) v, s')
    \<and> (\<forall>b r' off' n. guest_to_host c b = Some (r', off')
          \<longrightarrow> (r' \<noteq> r \<or> off' + n \<le> off \<or> off + len \<le> off')
          \<longrightarrow> paddr_read c s' b n = rbind (paddr_read c s b n) (\<lambda>(w, _). Inr (w, s')))"
proof -
  obtain h where h: "host_write c (host s) (r, off) len v = Inr h"
    using host_write_ok assms(3,4) by blast
  let ?s = "s\<lparr>host := h\<rparr>"
  have "paddr_write c s a len v = Inr ?s"
    using assms(1,2) h by (simp add: paddr_write_builtin)
  moreover have "paddr_read c ?s a len = Inr (take_bit (8 * len) v, ?s)"
    using assms(1,5) host_read_write_same [OF assms(3) h] by (simp add: paddr_read_builtin)
  moreover have "paddr_read c ?s b n = rbind (paddr_read c s b n) (\<lambda>(w, _). Inr (w, ?s))"
    if "guest_to_host c b = Some (r', off')" "r' \<noteq> r \<or> off' + n \<le> off \<or> off + len \<le> off'"
    for b r' off' n
    using that assms(5) host_read_write_disjoint [OF h that(2)]
    by (simp add: paddr_read_builtin rbind_assoc)
  ultimately show ?thesis by blast
qed

theorem paddr_write_read_witness:
  "\<exists>s'. paddr_write kconfig_default (empty_mem ()) 0x80000100 2 0xdeadbeef = Inr s'
    \<and> paddr_read kconfig_default s' 0x80000100 2 = Inr (0xbeef, s')"
proof -
  have "guest_to_host kconfig_default 0x80000100 = Some (Pmem, 0x100)" "\<not> in_mrom 0x80000100"
    "0x100 + 2 \<le> region_size kconfig_default Pmem"
    by (simp_all add: guest_to_host_def region_defs region_size_def)
  from paddr_write_read [OF this(1,2) _ this(3), of "empty_mem ()" "0xdeadbeef"] show ?thesis
    by (simp add: empty_mem_def) blast
qed

section \<open>I/O maps\<close>

definition maps_disjoint :: "'d IOMap list \<Rightarrow> bool" where
  "maps_disjoint ms \<longleftrightarrow> (\<forall>addr i j. i < length ms \<and> j < length ms
     \<and> map_inside (ms ! i) addr \<and> map_inside (ms ! j) addr \<longrightarrow> i = j)"

lemma maps_disjoint_Nil [simp]: "maps_disjoint []"
  by (simp add: maps_disjoint_def)

lemma maps_disjoint_snoc:
  assumes "maps_disjoint ms"
    and "\<And>m' addr. m' \<in> set ms \<Longrightarrow> map_inside m' addr \<Longrightarrow> \<not> map_inside m addr"
  shows "maps_disjoint (ms @ [m])"
proof -
  have "i = j" if "i < Suc (length ms)" "j < Suc (length ms)" "map_inside ((ms @ [m]) ! i) addr"
      "map_inside ((ms @ [m]) ! j) addr" for addr i j
    using that assms(2) [OF nth_mem] assms(1)
    by (cases "i = length ms"; cases "j = length ms") (auto simp: nth_append maps_disjoint_def less_Suc_eq)
  then show ?thesis
    by (auto simp: maps_disjoint_def)
qed

lemma add_mmio_map_disjoint:
  assumes "add_mmio_map c name addr space len cb s = Inr s'" "maps_disjoint (mmio_maps s)"
  shows "maps_disjoint (mmio_maps s')" "length (mmio_maps s') \<le> NR_MAP"
proof -
  let ?m = "\<lparr>map_name = name, map_low = addr, map_high = addr + len - 1, map_space = space,
             map_callback = cb\<rparr>"
  have s': "s' = s\<lparr>mmio_maps := mmio_maps s @ [?m]\<rparr>" "length (mmio_maps s) < NR_MAP"
    and ov: "\<And>m. m \<in> set (mmio_maps s) \<Longrightarrow> \<not> (addr \<le> map_high m \<and> addr + len - 1 \<ge> map_low m)"
    using assms(1) by (auto simp: add_mmio_map_def Let_def split: if_splits)
  have "\<not> map_inside ?m a" if "m' \<in> set (mmio_maps s)" "map_inside m' a" for m' a
    using ov [OF that(1)] that(2) by (auto simp: map_inside_def dest: order_trans)
  then show "maps_disjoint (mmio_maps s')"
    using maps_disjoint_snoc [OF assms(2)] s' by simp
  show "length (mmio_maps s') \<le> NR_MAP"
    using s' by simp
qed

text \<open>The registrations a machine makes at start-up, in order.\<close>

fun add_mmio_maps ::
  "config \<Rightarrow> (string \<times> u32 \<times> nat \<times> u32 \<times> 'd io_callback option) list \<Rightarrow> 'd mem_state
   \<Rightarrow> (err, 'd mem_state) result" where
  "add_mmio_maps c [] s = Inr s"
| "add_mmio_maps c ((name, addr, space, len, cb) # rs) s =
     rbind (add_mmio_map c name addr space len cb s) (add_mmio_maps c rs)"

lemma add_mmio_maps_disjoint:
  "add_mmio_maps c rs s = Inr s' \<Longrightarrow> maps_disjoint (mmio_maps s) \<Longrightarrow> maps_disjoint (mmio_maps s')"
  by (induction c rs s rule: add_mmio_maps.induct)
     (auto simp: rbind_Inr_iff dest: add_mmio_map_disjoint)

text \<open>
  C19. Whatever the devices register, the accepted memory-mapped regions never overlap: the map
  that the bus finds for an address is the only registered one that contains it, so which device
  answers does not depend on the order of registration.
\<close>

theorem mmio_map_unique:
  assumes "add_mmio_maps c rs s = Inr s'" "mmio_maps s = []"
  shows "fst (find_mapid_by_addr c (mmio_maps s') addr s'') = Some m
     \<longleftrightarrow> m \<in> set (mmio_maps s') \<and> map_inside m addr"
proof -
  have "maps_disjoint (mmio_maps s')"
    using add_mmio_maps_disjoint [OF assms(1)] assms(2) by simp
  then have "find (\<lambda>m. map_inside m addr) (mmio_maps s') = Some m
      \<longleftrightarrow> m \<in> set (mmio_maps s') \<and> map_inside m addr"
    by (intro find_unique) (auto simp: maps_disjoint_def)
  then show ?thesis
    by (auto simp: find_mapid_by_addr_def split: option.splits)
qed

definition two_maps :: "(string \<times> u32 \<times> nat \<times> u32 \<times> unit io_callback option) list" where
  "two_maps = [(''serial'', 0xa00003f8, 0, 8, None), (''rtc'', 0xa0000048, 4096, 8, None)]"

theorem mmio_map_unique_witness:
  "\<exists>s'. add_mmio_maps kconfig_default two_maps (empty_mem ()) = Inr s'
    \<and> fst (find_mapid_by_addr kconfig_default (mmio_maps s') 0xa000004c s')
      = Some \<lparr>map_name = ''rtc'', map_low = 0xa0000048, map_high = 0xa000004f, map_space = 4096,
              map_callback = None\<rparr>"
proof -
  obtain s' where s': "add_mmio_maps kconfig_default two_maps (empty_mem ()) = Inr s'"
    "mmio_maps s' = [\<lparr>map_name = ''serial'', map_low = 0xa00003f8, map_high = 0xa00003ff,
        map_space = 0, map_callback = None\<rparr>, \<lparr>map_name = ''rtc'', map_low = 0xa0000048,
        map_high = 0xa000004f, map_space = 4096, map_callback = None\<rparr>]"
    by (simp add: two_maps_def add_mmio_map_def empty_mem_def region_defs NR_MAP_def)
  then show ?thesis
    using mmio_map_unique [OF s'(1), of "0xa000004c" s'] by (simp add: empty_mem_def map_inside_def)
qed

lemma and_not_page: "(x :: int) AND NOT PAGE_MASK = x div 4096 * 4096"
proof -
  have "x AND NOT (mask 12) = push_bit 12 (drop_bit 12 x)"
    by (rule bit_eqI) (auto simp: bit_simps)
  then show ?thesis
    by (simp add: PAGE_MASK_def PAGE_SIZE_def mask_eq_exp_minus_1 push_bit_eq_mult drop_bit_eq_div)
qed

lemma new_space_ok:
  assumes "new_space s sz = Inr (p, s')" "0 \<le> sz"
  shows "p = p_space s" "s' = s\<lparr>p_space := p_space s'\<rparr>" "int p + sz \<le> int (p_space s')"
    "p_space s' < IO_SPACE_MAX" "p_space s mod 4096 = 0 \<Longrightarrow> p_space s' mod 4096 = 0"
proof -
  let ?n = "(sz + 4095) div 4096 * 4096"
  have n: "sz \<le> ?n" "4096 dvd ?n"
    using div_mult_mod_eq [of "sz + 4095" 4096] pos_mod_bound [of 4096 "sz + 4095"] by auto
  have e: "p = p_space s" "s' = s\<lparr>p_space := nat (int (p_space s) + ?n)\<rparr>"
    "int (p_space s) + ?n < int IO_SPACE_MAX"
    using assms(1) by (auto simp: new_space_def Let_def PAGE_SIZE_def and_not_page split: if_splits)
  show "p = p_space s" "s' = s\<lparr>p_space := p_space s'\<rparr>"
    using e by simp_all
  show "int p + sz \<le> int (p_space s')" "p_space s' < IO_SPACE_MAX"
    using e n(1) assms(2) by simp_all
  show "p_space s' mod 4096 = 0" if "p_space s mod 4096 = 0"
  proof -
    have "int 4096 dvd int (p_space s)"
      using that by (simp only: int_dvd_int_iff mod_eq_0_iff_dvd)
    then have "int 4096 dvd int (p_space s')"
      using e(2) n assms(2) by simp
    then show ?thesis
      by (simp only: int_dvd_int_iff mod_eq_0_iff_dvd)
  qed
qed

fun new_spaces :: "'d mem_state \<Rightarrow> int list \<Rightarrow> (err, nat list \<times> 'd mem_state) result" where
  "new_spaces s [] = Inr ([], s)"
| "new_spaces s (z # zs) = rbind (new_space s z) (\<lambda>(p, s).
     rbind (new_spaces s zs) (\<lambda>(ps, s). Inr (p # ps, s)))"

lemma new_spaces_ok:
  assumes "new_spaces s zs = Inr (ps, s')" "\<And>z. z \<in> set zs \<Longrightarrow> 0 \<le> z" "p_space s mod 4096 = 0"
  shows "length ps = length zs \<and> p_space s \<le> p_space s'
    \<and> (\<forall>i < length zs. ps ! i mod 4096 = 0 \<and> p_space s \<le> ps ! i
         \<and> int (ps ! i) + zs ! i \<le> int (p_space s'))
    \<and> (\<forall>i j. i < j \<longrightarrow> j < length zs \<longrightarrow> int (ps ! i) + zs ! i \<le> int (ps ! j))
    \<and> (zs \<noteq> [] \<longrightarrow> p_space s' < IO_SPACE_MAX)"
  using assms
proof (induction zs arbitrary: s ps)
  case Nil
  then show ?case by simp
next
  case (Cons z zs)
  obtain p t ps1 where t: "new_space s z = Inr (p, t)" "new_spaces t zs = Inr (ps1, s')" "ps = p # ps1"
    using Cons.prems(1) by (auto simp: rbind_Inr_iff)
  have z: "0 \<le> z"
    using Cons.prems(2) by simp
  note n = new_space_ok [OF t(1) z]
  from Cons.IH [OF t(2)] Cons.prems(2) n(5) [OF Cons.prems(3)]
  have ih: "length ps1 = length zs" "p_space t \<le> p_space s'"
    "\<forall>i < length zs. ps1 ! i mod 4096 = 0 \<and> p_space t \<le> ps1 ! i \<and> int (ps1 ! i) + zs ! i \<le> int (p_space s')"
    "\<forall>i j. i < j \<longrightarrow> j < length zs \<longrightarrow> int (ps1 ! i) + zs ! i \<le> int (ps1 ! j)"
    "zs \<noteq> [] \<longrightarrow> p_space s' < IO_SPACE_MAX"
    by auto
  have st: "p_space s \<le> p_space t"
    using n(1,3) z by simp
  have "ps ! i mod 4096 = 0 \<and> p_space s \<le> ps ! i \<and> int (ps ! i) + (z # zs) ! i \<le> int (p_space s')"
    if "i < length (z # zs)" for i
    using that ih n st t(3) Cons.prems(3) by (cases i) auto
  moreover have "int (ps ! i) + (z # zs) ! i \<le> int (ps ! j)"
    if "i < j" "j < length (z # zs)" for i j
    using that ih n t(3) by (cases i; cases j) force+
  moreover have "p_space s' < IO_SPACE_MAX"
    using ih n(4) t(2) by (cases zs) auto
  ultimately show ?case
    using ih st t(3) by auto
qed



section \<open>Faults of the bus\<close>

text \<open>
  C22. Translation looks at the first byte only: a load or store of 2 or 4 bytes that starts in
  one of the last bytes of an array runs past its end, instead of being refused or sent to the
  devices.
\<close>

theorem paddr_last_bytes_overrun:
  assumes "guest_to_host c a = Some (r, off)" "len \<in> {2, 4}" "region_size c r < off + len"
    "\<not> in_mrom a" "mtrace_pack s = None"
  shows "paddr_read c s a len = Inl Overrun \<and> paddr_write c s a len v = Inl Overrun"
  using assms by (auto simp: paddr_read_builtin paddr_write_builtin host_read_def host_write_def)

theorem paddr_last_bytes_overrun_witness:
  "paddr_read kconfig_default (empty_mem ()) 0x87fffffe 4 = Inl Overrun
   \<and> paddr_write kconfig_default (empty_mem ()) 0x87fffffe 4 0 = Inl Overrun"
proof -
  have "guest_to_host kconfig_default 0x87fffffe = Some (Pmem, 0x7fffffe)" "\<not> in_mrom 0x87fffffe"
    "region_size kconfig_default Pmem < 0x7fffffe + 4"
    by (simp_all add: guest_to_host_def region_defs region_size_def)
  from paddr_last_bytes_overrun [OF this(1) _ this(3,2), of "empty_mem ()" 0] show ?thesis
    by simp
qed



section \<open>Memory as a word store\<close>

text \<open>
  What the instructions that walk memory rely on: on a set of good addresses, four-byte loads
  return a value and change nothing, and a four-byte store changes the value at its own address
  only.
\<close>

locale word_mem =
  fixes invar :: "'s \<Rightarrow> bool"
    and good :: "u32 \<Rightarrow> bool"
    and val :: "'s \<Rightarrow> u32 \<Rightarrow> u32"
    and rd :: "'s \<Rightarrow> u32 \<Rightarrow> (err, u32 \<times> 's) result"
    and wr :: "'s \<Rightarrow> u32 \<Rightarrow> u32 \<Rightarrow> (err, 's) result"
  assumes rd_val: "invar s \<Longrightarrow> good a \<Longrightarrow> rd s a = Inr (val s a, s)"
    and wr_val: "invar s \<Longrightarrow> good a \<Longrightarrow>
      \<exists>s'. wr s a v = Inr s' \<and> invar s' \<and> (\<forall>b. good b \<longrightarrow> val s' b = (if b = a then v else val s b))"

definition good_word :: "config \<Rightarrow> u32 \<Rightarrow> bool" where
  "good_word c a \<longleftrightarrow> in_pmem c a \<and> \<not> in_mrom a \<and> unat (a - CONFIG_MBASE c) mod 4 = 0
     \<and> unat (a - CONFIG_MBASE c) + 4 \<le> unat (CONFIG_MSIZE c)"

definition pmem_word :: "config \<Rightarrow> 'd mem_state \<Rightarrow> u32 \<Rightarrow> u32" where
  "pmem_word c s a = of_bytes (load_bytes (host s Pmem) (unat (a - CONFIG_MBASE c)) 4)"

definition no_mtrace :: "'d mem_state \<Rightarrow> bool" where
  "no_mtrace s \<longleftrightarrow> mtrace_pack s = None"

lemma good_word_host:
  "good_word c a \<Longrightarrow> guest_to_host c a = Some (Pmem, unat (a - CONFIG_MBASE c))
     \<and> unat (a - CONFIG_MBASE c) + 4 \<le> region_size c Pmem \<and> \<not> in_mrom a"
  by (auto simp: good_word_def guest_to_host_def region_size_def)

lemma aligned4_apart:
  "(x :: nat) mod 4 = 0 \<Longrightarrow> y mod 4 = 0 \<Longrightarrow> x \<noteq> y \<Longrightarrow> x + 4 \<le> y \<or> y + 4 \<le> x"
  by presburger

lemma good_words_apart:
  assumes "good_word c a" "good_word c b" "a \<noteq> b"
  shows "unat (a - CONFIG_MBASE c) + 4 \<le> unat (b - CONFIG_MBASE c)
       \<or> unat (b - CONFIG_MBASE c) + 4 \<le> unat (a - CONFIG_MBASE c)"
proof -
  have "unat (a - CONFIG_MBASE c) \<noteq> unat (b - CONFIG_MBASE c)"
    using assms(3) by (simp flip: word_unat_eq_iff)
  then show ?thesis
    using assms(1,2) aligned4_apart by (simp add: good_word_def)
qed

interpretation pmem: word_mem no_mtrace "good_word c" "pmem_word c"
  "\<lambda>s a. vaddr_read c s a 4" "\<lambda>s a v. vaddr_write c s a 4 v" for c :: config
proof
  fix s :: "'d mem_state" and a v :: u32
  assume s: "no_mtrace s" and a: "good_word c a"
  note h = good_word_host [OF a]
  show "vaddr_read c s a 4 = Inr (pmem_word c s a, s)"
    using s h by (simp add: vaddr_read_def no_mtrace_def paddr_read_builtin host_read_def pmem_word_def)
  let ?m = "(host s)(Pmem := store_bytes (host s Pmem) (unat (a - CONFIG_MBASE c)) (bytes_of 4 v))"
  have w: "vaddr_write c s a 4 v = Inr (s\<lparr>host := ?m\<rparr>)"
    using h by (simp add: vaddr_write_def paddr_write_builtin host_write_def)
  have "pmem_word c (s\<lparr>host := ?m\<rparr>) b = (if b = a then v else pmem_word c s b)"
    if "good_word c b" for b
    using good_words_apart [OF a that]
    by (auto simp: pmem_word_def load_store_same load_store_disjoint)
  then show "\<exists>s'. vaddr_write c s a 4 v = Inr s' \<and> no_mtrace s'
      \<and> (\<forall>b. good_word c b \<longrightarrow> pmem_word c s' b = (if b = a then v else pmem_word c s b))"
    using w s by (auto simp: no_mtrace_def)
qed

end
