(* ===== verification/Profile_Decode.thy ===== *)
theory Profile_Decode
  imports Prelude
begin

text \<open>
  The instruction classification of the NEMU profiler, \<open>nemu/src/isa/riscv32/profile.c\<close>: the
  enumerations, \<open>branch_imm\<close>, \<open>kind_of\<close>, \<open>mop_of\<close>, \<open>bop_of\<close>, \<open>memory_width\<close> and the predicates that say
  which instructions can take a late load result.
\<close>

section \<open>Enumerations\<close>

datatype Kind = K_ALU | K_BRANCH | K_JAL | K_JALR | K_LOAD | K_STORE | K_M | K_B | K_CRC
  | K_SYSTEM | K_OTHER

datatype BOp = B_CLZ | B_CTZ | B_CPOP | B_SEXTB | B_SEXTH | B_CLMUL | B_CLMULR | B_CLMULH
  | B_ORCB | B_REV8 | B_ANDN | B_ORN | B_XNOR | B_MIN | B_MAX | B_MINU | B_MAXU | B_SH1ADD
  | B_SH2ADD | B_SH3ADD | B_BSET | B_BCLR | B_BINV | B_BEXT | B_XPERM4 | B_ROL | B_ROR | B_RORI
  | B_PACK | B_OTHER

datatype MemWidth = W_BYTE | W_HALF | W_WORD | W_OTHER

section \<open>Fields\<close>

definition f_op :: "u32 \<Rightarrow> u32" where "f_op x = x AND 0x7f"
definition f_f3 :: "u32 \<Rightarrow> u32" where "f_f3 x = drop_bit 12 x AND 7"
definition f_f7 :: "u32 \<Rightarrow> u32" where "f_f7 x = drop_bit 25 x"
definition f_rd :: "u32 \<Rightarrow> u32" where "f_rd x = drop_bit 7 x AND 31"
definition f_rs1 :: "u32 \<Rightarrow> u32" where "f_rs1 x = drop_bit 15 x AND 31"
definition f_rs2 :: "u32 \<Rightarrow> u32" where "f_rs2 x = drop_bit 20 x AND 31"

lemmas field_defs = f_op_def f_f3_def f_f7_def f_rd_def f_rs1_def f_rs2_def

text \<open>The result is the \<open>int32_t\<close> as the word that holds it; its value is \<open>sint\<close> of it.\<close>

definition branch_imm :: "u32 \<Rightarrow> u32" where
  "branch_imm x =
     (let imm = push_bit 12 (drop_bit 31 x) OR push_bit 11 (drop_bit 7 x AND 1)
              OR push_bit 5 (drop_bit 25 x AND 0x3f) OR push_bit 1 (drop_bit 8 x AND 0xf)
      in signed_drop_bit 19 (push_bit 19 imm))"

definition sext :: "u32 \<Rightarrow> nat \<Rightarrow> u32" where
  "sext x n = signed_drop_bit (32 - n) (push_bit (32 - n) x)"

section \<open>Classification\<close>

definition kind_of :: "u32 \<Rightarrow> Kind" where
  "kind_of x =
     (let op = f_op x; f3 = f_f3 x; f7 = f_f7 x in
      if op = 0x63 then K_BRANCH
      else if op = 0x6f then K_JAL
      else if op = 0x67 then K_JALR
      else if op = 0x03 then K_LOAD
      else if op = 0x23 then K_STORE
      else if op = 0x0b \<and> f7 = 0 \<and> f3 < 3 then K_CRC
      else if op = 0x73 then K_SYSTEM
      else if op = 0x33 \<and> f7 = 1 then K_M
      else if op = 0x33 \<and> f7 = 0x04 \<and> f3 = 4 then K_B
      else let b_register = op = 0x33 \<and>
                 ((f7 = 0x05 \<and> (f3 \<le> 3 \<or> f3 \<ge> 4)) \<or>
                  (f7 = 0x10 \<and> (f3 = 2 \<or> f3 = 4 \<or> f3 = 6)) \<or>
                  (f7 = 0x20 \<and> (f3 = 4 \<or> f3 = 6 \<or> f3 = 7)) \<or>
                  (f7 = 0x30 \<and> (f3 = 1 \<or> f3 = 5)) \<or>
                  (f7 = 0x24 \<and> (f3 = 1 \<or> f3 = 5)) \<or>
                  (f7 = 0x14 \<and> (f3 = 1 \<or> f3 = 2)) \<or>
                  (f7 = 0x34 \<and> f3 = 1));
               b_immediate = op = 0x13 \<and> (f3 = 1 \<or> f3 = 5) \<and>
                 (f7 = 0x05 \<or> f7 = 0x30 \<or> f7 = 0x24 \<or> f7 = 0x14 \<or> f7 = 0x34)
           in if b_register \<or> b_immediate then K_B
              else if op = 0x33 \<or> op = 0x13 \<or> op = 0x37 \<or> op = 0x17 then K_ALU
              else K_OTHER)"

definition mop_of :: "u32 \<Rightarrow> nat" where
  "mop_of x = unat (drop_bit 12 x AND 7)"

text \<open>The cascade of \<open>bop_of\<close>; the first block falls through when \<open>rs2\<close> is none of its cases.\<close>

definition bop_of :: "u32 \<Rightarrow> BOp" where
  "bop_of x =
     (let op = f_op x; f3 = f_f3 x; f7 = f_f7 x; rs2 = f_rs2 x;
          unary = op = 0x13 \<and> f3 = 1 \<and> f7 = 0x30 in
      if unary \<and> rs2 = 0 then B_CLZ
      else if unary \<and> rs2 = 1 then B_CTZ
      else if unary \<and> rs2 = 2 then B_CPOP
      else if unary \<and> rs2 = 4 then B_SEXTB
      else if unary \<and> rs2 = 5 then B_SEXTH
      else if op = 0x33 \<and> f7 = 0x05 \<and> f3 = 1 then B_CLMUL
      else if op = 0x33 \<and> f7 = 0x05 \<and> f3 = 2 then B_CLMULR
      else if op = 0x33 \<and> f7 = 0x05 \<and> f3 = 3 then B_CLMULH
      else if op = 0x13 \<and> f3 = 5 \<and> f7 = 0x14 \<and> rs2 = 7 then B_ORCB
      else if op = 0x13 \<and> f3 = 5 \<and> f7 = 0x34 \<and> rs2 = 24 then B_REV8
      else if op = 0x33 \<and> f7 = 0x20 \<and> f3 = 4 then B_XNOR
      else if op = 0x33 \<and> f7 = 0x20 \<and> f3 = 6 then B_ORN
      else if op = 0x33 \<and> f7 = 0x20 \<and> f3 = 7 then B_ANDN
      else if op = 0x33 \<and> f7 = 0x05 \<and> f3 = 4 then B_MIN
      else if op = 0x33 \<and> f7 = 0x05 \<and> f3 = 5 then B_MAX
      else if op = 0x33 \<and> f7 = 0x05 \<and> f3 = 6 then B_MINU
      else if op = 0x33 \<and> f7 = 0x05 \<and> f3 = 7 then B_MAXU
      else if op = 0x33 \<and> f7 = 0x10 \<and> f3 = 2 then B_SH1ADD
      else if op = 0x33 \<and> f7 = 0x10 \<and> f3 = 4 then B_SH2ADD
      else if op = 0x33 \<and> f7 = 0x10 \<and> f3 = 6 then B_SH3ADD
      else if (op = 0x33 \<or> op = 0x13) \<and> f7 = 0x14 \<and> f3 = 1 then B_BSET
      else if (op = 0x33 \<or> op = 0x13) \<and> f7 = 0x24 \<and> f3 = 1 then B_BCLR
      else if (op = 0x33 \<or> op = 0x13) \<and> f7 = 0x34 \<and> f3 = 1 then B_BINV
      else if (op = 0x33 \<or> op = 0x13) \<and> f7 = 0x24 \<and> f3 = 5 then B_BEXT
      else if op = 0x33 \<and> f7 = 0x14 \<and> f3 = 2 then B_XPERM4
      else if op = 0x33 \<and> f7 = 0x30 \<and> f3 = 1 then B_ROL
      else if op = 0x33 \<and> f7 = 0x30 \<and> f3 = 5 then B_ROR
      else if op = 0x13 \<and> f7 = 0x30 \<and> f3 = 5 then B_RORI
      else if op = 0x33 \<and> f7 = 0x04 \<and> f3 = 4 then B_PACK
      else B_OTHER)"

definition is_late_load_consumer :: "u32 \<Rightarrow> bool" where
  "is_late_load_consumer x =
     (let op = f_op x; f3 = f_f3 x; f7 = f_f7 x; imm12 = drop_bit 20 x;
          add = f3 = 0 \<and> (op = 0x13 \<or> (op = 0x33 \<and> f7 = 0));
          andi1 = op = 0x13 \<and> f3 = 7 \<and> imm12 = 1;
          srli1 = op = 0x13 \<and> f3 = 5 \<and> imm12 = 1
      in add \<or> andi1 \<or> srli1)"

definition late_load_source_eligible :: "u32 \<Rightarrow> nat \<Rightarrow> bool" where
  "late_load_source_eligible x source_mask =
     (let op = f_op x; f3 = f_f3 x; f7 = f_f7 x; imm12 = drop_bit 20 x;
          add = f3 = 0 \<and> (op = 0x13 \<or> (op = 0x33 \<and> f7 = 0));
          andi1 = op = 0x13 \<and> f3 = 7 \<and> imm12 = 1;
          srli1 = op = 0x13 \<and> f3 = 5 \<and> imm12 = 1;
          allow_rs1 = add \<or> andi1 \<or> srli1;
          allow_rs2 = add \<and> op = 0x33
      in (source_mask AND 1 = 0 \<or> allow_rs1) \<and> (source_mask AND 2 = 0 \<or> allow_rs2))"

definition memory_width :: "u32 \<Rightarrow> bool \<Rightarrow> MemWidth" where
  "memory_width x load =
     (let f3 = f_f3 x in
      if f3 = 0 \<or> (load \<and> f3 = 4) then W_BYTE
      else if f3 = 1 \<or> (load \<and> f3 = 5) then W_HALF
      else if f3 = 2 then W_WORD
      else W_OTHER)"

definition aligned_for_width :: "u32 \<Rightarrow> MemWidth \<Rightarrow> bool" where
  "aligned_for_width addr width = (case width of
     W_BYTE \<Rightarrow> True | W_HALF \<Rightarrow> addr AND 1 = 0 | W_WORD \<Rightarrow> addr AND 3 = 0 | W_OTHER \<Rightarrow> False)"

text \<open>The \<open>source_mask\<close> of the record functions: which sources are the register \<open>r\<close>.\<close>

definition source_mask :: "bool \<Rightarrow> bool \<Rightarrow> u32 \<Rightarrow> u32 \<Rightarrow> u32 \<Rightarrow> nat" where
  "source_mask use1 use2 rs1 rs2 r =
     (if use1 \<and> rs1 = r then 1 else 0) OR (if use2 \<and> rs2 = r then 2 else 0)"

section \<open>Properties\<close>

lemma source_mask_cases:
  "source_mask use1 use2 rs1 rs2 r \<in> {0, 1, 2, 3}"
  by (auto simp: source_mask_def)

lemma late_load_consumer_rs1:
  "is_late_load_consumer x \<longleftrightarrow> late_load_source_eligible x 1"
  by (simp add: is_late_load_consumer_def late_load_source_eligible_def Let_def)

text \<open>
  The two B-extension tables agree: an instruction that \<open>bop_of\<close> recognises is one that \<open>kind_of\<close>
  counts as a B instruction, so the per-operation counts never count an instruction of another
  kind.
\<close>

theorem bop_kind: "bop_of x \<noteq> B_OTHER \<Longrightarrow> kind_of x = K_B"
  unfolding bop_of_def kind_of_def Let_def by (auto split: if_splits)

theorem bop_kind_witness: "kind_of 0x60251513 = K_B"
  using bop_kind [of "0x60251513"] by (simp add: bop_of_def field_defs)

text \<open>A B-type instruction word with the given branch offset, as the RISC-V manual lays it out.\<close>

definition enc_branch :: "u32 \<Rightarrow> u32 \<Rightarrow> u32" where
  "enc_branch x off = (x AND 0x01fff07f) OR push_bit 31 (drop_bit 12 off AND 1)
     OR push_bit 25 (drop_bit 5 off AND 0x3f) OR push_bit 8 (drop_bit 1 off AND 0xf)
     OR push_bit 7 (drop_bit 11 off AND 1)"

lemma bit_sext13:
  "n < 32 \<Longrightarrow> bit (signed_drop_bit 19 (push_bit 19 (w :: u32))) n = bit w (min n 12)"
  by (auto simp: bit_simps min_def)

lemma less_13_cases: "(k :: nat) < 13 \<Longrightarrow> k \<in> {0, 1, 2, 3, 4, 5, 6, 7, 8, 9, 10, 11, 12}"
  by (simp only: insert_iff empty_iff) presburger

lemma enc_branch_bits:
  assumes "\<not> bit off 0" "k < 13"
  shows "bit (push_bit 12 (drop_bit 31 (enc_branch x off))
      OR push_bit 11 (drop_bit 7 (enc_branch x off) AND 1)
      OR push_bit 5 (drop_bit 25 (enc_branch x off) AND 0x3f)
      OR push_bit 1 (drop_bit 8 (enc_branch x off) AND 0xf)) k = bit off k"
  using less_13_cases [OF assms(2)] assms(1)
  by (elim insertE emptyE)
     (simp_all add: enc_branch_def bit_simps del: push_bit_Suc One_nat_def, simp_all)

lemma bit_signed_13: "signed_take_bit 12 (w :: u32) = w \<Longrightarrow> n < 32 \<Longrightarrow> bit w (min n 12) = bit w n"
  using bit_signed_take_bit_iff [of 12 w n] by (auto simp: min.commute)

text \<open>
  \<open>branch_imm\<close> reads the B-type immediate: for every even offset of the 13-bit signed range
  it returns the offset that the instruction encodes, whatever the other fields hold.
\<close>

theorem branch_imm_enc:
  assumes "signed_take_bit 12 off = off" "\<not> bit off 0"
  shows "branch_imm (enc_branch x off) = off"
proof (rule bit_word_eqI)
  fix n assume "n < LENGTH(32)"
  then have n: "n < 32" by simp
  have "bit (branch_imm (enc_branch x off)) n = bit off (min n 12)"
    unfolding branch_imm_def Let_def bit_sext13 [OF n]
    by (rule enc_branch_bits [OF assms(2)]) simp
  then show "bit (branch_imm (enc_branch x off)) n = bit off n"
    using bit_signed_13 [OF assms(1) n] by simp
qed

theorem branch_imm_enc_witness: "branch_imm 0xfe208ee3 = -4 \<and> sint (-4 :: u32) = -4"
proof -
  have "signed_take_bit 12 (-4) = (-4 :: u32)" "\<not> bit (-4 :: u32) 0"
    by simp_all
  from branch_imm_enc [OF this, of "0x00208063"] show ?thesis
    by (simp add: enc_branch_def)
qed

end
