(* ===== verification/Profile_Cache.thy ===== *)
theory Profile_Cache
  imports Profile_Decode Tag_Table
begin

text \<open>
  The shadow structures of the profiler, \<open>nemu/src/isa/riscv32/profile.c\<close>: the direct-mapped data
  caches under three store policies (\<open>current\<close>, \<open>rtl\<close>, \<open>proposed\<close>), the set-associative caches with
  their replacement state, and the branch target buffers. An array is a function from its index,
  a pointer into an array is the index; the 0/1 bytes of the code are truth values.
\<close>

section \<open>Direct-mapped data caches\<close>

record DCacheEnt =
  dc_tag :: u8
  dc_valid :: bool

type_synonym dcache = "nat \<Rightarrow> DCacheEnt"

record DCacheStat =
  load_access :: "MemWidth \<Rightarrow> u64"
  load_hit :: "MemWidth \<Rightarrow> u64"
  load_miss :: "MemWidth \<Rightarrow> u64"
  full_store_allocate :: u64
  partial_store_total :: u64
  partial_store_hit_update :: u64
  partial_store_invalidate :: u64

text \<open>One more for one index of a counter array.\<close>

definition bump :: "('i \<Rightarrow> u64) \<Rightarrow> 'i \<Rightarrow> ('i \<Rightarrow> u64)" where
  "bump f i = f(i := f i + 1)"

definition DCACHE_LINES :: u32 where "DCACHE_LINES = 512"

definition dcacheable :: "u32 \<Rightarrow> bool" where
  "dcacheable addr = (drop_bit 20 addr AND 3 = 1)"

definition dcache_index :: "u32 \<Rightarrow> nat" where
  "dcache_index addr = unat (drop_bit 2 addr AND (DCACHE_LINES - 1))"

definition dcache_tag :: "u32 \<Rightarrow> u8" where
  "dcache_tag addr = ucast (drop_bit 11 addr AND 0x7f)"

definition dcache_hit :: "dcache \<Rightarrow> u32 \<Rightarrow> bool" where
  "dcache_hit cache addr =
     (let entry = cache (dcache_index addr) in dc_valid entry \<and> dc_tag entry = dcache_tag addr)"

definition dcache_allocate :: "dcache \<Rightarrow> u32 \<Rightarrow> dcache" where
  "dcache_allocate cache addr =
     cache(dcache_index addr := \<lparr>dc_tag = dcache_tag addr, dc_valid = True\<rparr>)"

definition dcache_invalidate :: "dcache \<Rightarrow> u32 \<Rightarrow> dcache" where
  "dcache_invalidate cache addr =
     cache(dcache_index addr := (cache (dcache_index addr))\<lparr>dc_valid := False\<rparr>)"

definition dcache_load ::
  "dcache \<times> DCacheStat \<Rightarrow> u32 \<Rightarrow> MemWidth \<Rightarrow> bool \<Rightarrow> bool \<times> (dcache \<times> DCacheStat)" where
  "dcache_load cs addr width eligible = (case cs of (cache, stat) \<Rightarrow>
     if \<not> eligible then (False, cs)
     else let stat = stat\<lparr>load_access := bump (load_access stat) width\<rparr>;
              hit = dcache_hit cache addr
          in if hit then (hit, cache, stat\<lparr>load_hit := bump (load_hit stat) width\<rparr>)
             else (hit, dcache_allocate cache addr, stat\<lparr>load_miss := bump (load_miss stat) width\<rparr>))"

definition current_dcache_store ::
  "dcache \<times> DCacheStat \<Rightarrow> u32 \<Rightarrow> MemWidth \<Rightarrow> dcache \<times> DCacheStat" where
  "current_dcache_store cs addr width = (case cs of (cache, stat) \<Rightarrow>
     if \<not> dcacheable addr then cs
     else if width = W_WORD
     then (dcache_allocate cache addr, stat\<lparr>full_store_allocate := full_store_allocate stat + 1\<rparr>)
     else (dcache_invalidate cache addr,
           stat\<lparr>partial_store_total := partial_store_total stat + 1,
                partial_store_invalidate := partial_store_invalidate stat + 1\<rparr>))"

text \<open>\<open>rtl_dcache_store\<close> is the same policy on its own cache and statistics.\<close>

definition rtl_dcache_store ::
  "dcache \<times> DCacheStat \<Rightarrow> u32 \<Rightarrow> MemWidth \<Rightarrow> dcache \<times> DCacheStat" where
  "rtl_dcache_store cs addr width = (case cs of (cache, stat) \<Rightarrow>
     if \<not> dcacheable addr then cs
     else if width = W_WORD
     then (dcache_allocate cache addr, stat\<lparr>full_store_allocate := full_store_allocate stat + 1\<rparr>)
     else (dcache_invalidate cache addr,
           stat\<lparr>partial_store_total := partial_store_total stat + 1,
                partial_store_invalidate := partial_store_invalidate stat + 1\<rparr>))"

definition proposed_dcache_store ::
  "dcache \<times> DCacheStat \<Rightarrow> u32 \<Rightarrow> MemWidth \<Rightarrow> dcache \<times> DCacheStat" where
  "proposed_dcache_store cs addr width = (case cs of (cache, stat) \<Rightarrow>
     if \<not> dcacheable addr then cs
     else if width = W_WORD
     then (dcache_allocate cache addr, stat\<lparr>full_store_allocate := full_store_allocate stat + 1\<rparr>)
     else if dcache_hit cache addr
     then (cache, stat\<lparr>partial_store_total := partial_store_total stat + 1,
                       partial_store_hit_update := partial_store_hit_update stat + 1\<rparr>)
     else (dcache_invalidate cache addr,
           stat\<lparr>partial_store_total := partial_store_total stat + 1,
                partial_store_invalidate := partial_store_invalidate stat + 1\<rparr>))"

section \<open>Set-associative data caches\<close>

record AssocDCacheEnt =
  as_tag :: u32
  as_valid :: bool
  as_lru :: u8

record AssocDCache =
  as_sets :: nat
  as_ways :: nat
  as_entries :: "nat \<Rightarrow> AssocDCacheEnt"
  as_stat :: DCacheStat

definition assoc_set :: "AssocDCache \<Rightarrow> u32 \<Rightarrow> nat" where
  "assoc_set cache addr = unat (drop_bit 2 addr) mod as_sets cache"

definition assoc_tag :: "AssocDCache \<Rightarrow> u32 \<Rightarrow> u32" where
  "assoc_tag cache addr = of_nat (unat (drop_bit 2 addr) div as_sets cache)"

definition assoc_entry :: "AssocDCache \<Rightarrow> nat \<Rightarrow> nat \<Rightarrow> nat" where
  "assoc_entry cache st way = st * as_ways cache + way"

definition assoc_find :: "AssocDCache \<Rightarrow> u32 \<Rightarrow> nat option" where
  "assoc_find cache addr =
     (let st = assoc_set cache addr; tag = assoc_tag cache addr
      in find (\<lambda>e. as_valid (as_entries cache e) \<and> as_tag (as_entries cache e) = tag)
           (map (assoc_entry cache st) [0..<as_ways cache]))"

text \<open>The loop of \<open>assoc_victim\<close> over the ways still to be looked at.\<close>

fun victim_loop :: "(nat \<Rightarrow> AssocDCacheEnt) \<Rightarrow> nat \<Rightarrow> nat list \<Rightarrow> nat" where
  "victim_loop es victim [] = victim"
| "victim_loop es victim (entry # rest) =
     (if \<not> as_valid (es entry) then entry
      else victim_loop es (if as_lru (es entry) > as_lru (es victim) then entry else victim) rest)"

definition assoc_victim :: "AssocDCache \<Rightarrow> u32 \<Rightarrow> nat" where
  "assoc_victim cache addr =
     (let st = assoc_set cache addr
      in victim_loop (as_entries cache) (assoc_entry cache st 0)
           (map (assoc_entry cache st) [0..<as_ways cache]))"

definition assoc_touch :: "AssocDCache \<Rightarrow> u32 \<Rightarrow> nat \<Rightarrow> AssocDCache" where
  "assoc_touch cache addr selected =
     (let st = assoc_set cache addr;
          old_lru = as_lru (as_entries cache selected);
          es = foldl (\<lambda>es entry.
                 if entry \<noteq> selected \<and> as_valid (es entry) \<and> as_lru (es entry) < old_lru
                 then es(entry := (es entry)\<lparr>as_lru := as_lru (es entry) + 1\<rparr>) else es)
               (as_entries cache) (map (assoc_entry cache st) [0..<as_ways cache])
      in cache\<lparr>as_entries := es(selected := (es selected)\<lparr>as_lru := 0\<rparr>)\<rparr>)"

definition assoc_allocate :: "AssocDCache \<Rightarrow> u32 \<Rightarrow> AssocDCache" where
  "assoc_allocate cache addr =
     (let entry = (case assoc_find cache addr of Some e \<Rightarrow> e | None \<Rightarrow> assoc_victim cache addr);
          es = as_entries cache
      in assoc_touch (cache\<lparr>as_entries :=
           es(entry := (es entry)\<lparr>as_valid := True, as_tag := assoc_tag cache addr\<rparr>)\<rparr>) addr entry)"

definition assoc_stat :: "(DCacheStat \<Rightarrow> DCacheStat) \<Rightarrow> AssocDCache \<Rightarrow> AssocDCache" where
  "assoc_stat f cache = cache\<lparr>as_stat := f (as_stat cache)\<rparr>"

definition assoc_load :: "AssocDCache \<Rightarrow> u32 \<Rightarrow> MemWidth \<Rightarrow> bool \<Rightarrow> bool \<times> AssocDCache" where
  "assoc_load cache addr width eligible =
     (if \<not> eligible then (False, cache)
      else let cache = assoc_stat (\<lambda>s. s\<lparr>load_access := bump (load_access s) width\<rparr>) cache
      in case assoc_find cache addr of
           Some entry \<Rightarrow>
             (True, assoc_touch (assoc_stat (\<lambda>s. s\<lparr>load_hit := bump (load_hit s) width\<rparr>) cache) addr entry)
         | None \<Rightarrow>
             (False, assoc_allocate (assoc_stat (\<lambda>s. s\<lparr>load_miss := bump (load_miss s) width\<rparr>) cache) addr))"

definition assoc_store :: "AssocDCache \<Rightarrow> u32 \<Rightarrow> MemWidth \<Rightarrow> AssocDCache" where
  "assoc_store cache addr width =
     (if \<not> dcacheable addr then cache
      else let found = assoc_find cache addr
      in if width = W_WORD
         then assoc_allocate
                (assoc_stat (\<lambda>s. s\<lparr>full_store_allocate := full_store_allocate s + 1\<rparr>) cache) addr
         else let cache = assoc_stat (\<lambda>s. s\<lparr>partial_store_total := partial_store_total s + 1\<rparr>) cache
         in case found of
              Some entry \<Rightarrow> assoc_touch
                (assoc_stat (\<lambda>s. s\<lparr>partial_store_hit_update := partial_store_hit_update s + 1\<rparr>) cache)
                addr entry
            | None \<Rightarrow>
                let cache = assoc_stat
                      (\<lambda>s. s\<lparr>partial_store_invalidate := partial_store_invalidate s + 1\<rparr>) cache;
                    entry = assoc_victim cache addr; es = as_entries cache
                in cache\<lparr>as_entries := es(entry := (es entry)\<lparr>as_valid := False\<rparr>)\<rparr>)"

section \<open>Branch target buffers\<close>

record BtbEnt =
  be_tag :: u32
  be_target :: u32
  be_valid :: bool
  be_type :: Kind
  be_counter :: u8

type_synonym btb = "nat \<Rightarrow> BtbEnt"

definition btb_index :: "nat \<Rightarrow> u32 \<Rightarrow> nat" where
  "btb_index n pc = unat (drop_bit 2 pc AND (of_nat n - 1))"

definition btb_model ::
  "btb \<times> u64 \<Rightarrow> nat \<Rightarrow> u32 \<Rightarrow> u32 \<Rightarrow> Kind \<Rightarrow> bool \<Rightarrow> bool \<Rightarrow> btb \<times> u64" where
  "btb_model bm n pc target type taken allow_jalr = (case bm of (b, miss) \<Rightarrow>
     let i = btb_index n pc in
     if type = K_JALR \<and> \<not> allow_jalr then (b, miss + 1)
     else let hit = be_valid (b i) \<and> be_tag (b i) = pc \<and> be_type (b i) = type;
              predicted_taken = (if type = K_BRANCH then hit \<and> be_counter (b i) \<ge> 2 else hit);
              miss = (if predicted_taken \<noteq> taken \<or> (taken \<and> (\<not> hit \<or> be_target (b i) \<noteq> target))
                      then miss + 1 else miss);
              e = (if \<not> hit
                   then \<lparr>be_tag = pc, be_target = target, be_valid = True, be_type = type,
                         be_counter = (if taken then 2 else 1)\<rparr>
                   else if taken
                   then (b i)\<lparr>be_counter := (if be_counter (b i) < 3 then be_counter (b i) + 1
                                              else be_counter (b i)),
                              be_target := target\<rparr>
                   else if be_counter (b i) > 0
                   then (b i)\<lparr>be_counter := be_counter (b i) - 1\<rparr>
                   else b i)
          in (b(i := e), miss))"

definition model_stored_jalr_not_predicted ::
  "btb \<times> u64 \<Rightarrow> nat \<Rightarrow> u32 \<Rightarrow> u32 \<Rightarrow> Kind \<Rightarrow> bool \<Rightarrow> btb \<times> u64" where
  "model_stored_jalr_not_predicted bm n pc target type taken =
     (if type \<noteq> K_JALR then btb_model bm n pc target type taken False
      else case bm of (b, miss) \<Rightarrow>
        (b(btb_index n pc := \<lparr>be_tag = pc, be_target = target, be_valid = True, be_type = type,
                              be_counter = 2\<rparr>), miss + 1))"

definition model_rtl_btb32 ::
  "btb \<Rightarrow> u32 \<Rightarrow> u32 \<Rightarrow> u32 \<Rightarrow> Kind \<Rightarrow> bool \<Rightarrow> bool \<Rightarrow> bool \<times> btb" where
  "model_rtl_btb32 b pc target inst type taken skip_conflicting_not_taken =
     (let i = unat (drop_bit 2 pc AND 31);
          hit = be_valid (b i) \<and> be_tag (b i) = pc;
          predicted_taken = hit \<and> (be_type (b i) = K_JAL
                              \<or> be_type (b i) = K_BRANCH \<and> be_counter (b i) \<ge> 2);
          predicted_pc = (if predicted_taken then be_target (b i) else pc + 4);
          wrong = predicted_pc \<noteq> target;
          incoming_branch = type = K_BRANCH;
          incoming_jal = type = K_JAL \<or> inst = 0x00008067;
          matching_branch = hit \<and> be_type (b i) = K_BRANCH \<and> incoming_branch
      in if skip_conflicting_not_taken \<and> incoming_branch \<and> \<not> taken \<and> \<not> matching_branch
         then (wrong, b)
         else let next_direction =
                    (if incoming_branch
                     then if \<not> matching_branch then if taken then 2 else 1
                          else if taken \<and> be_counter (b i) \<noteq> 3 then be_counter (b i) + 1
                          else if \<not> taken \<and> be_counter (b i) \<noteq> 0 then be_counter (b i) - 1
                          else be_counter (b i)
                     else 0);
                  stored_target = (if incoming_branch then pc + branch_imm inst else target)
              in (wrong, b(i := \<lparr>be_tag = pc, be_target = stored_target, be_valid = True,
                                 be_type = (if incoming_jal then K_JAL else type),
                                 be_counter = next_direction\<rparr>)))"

section \<open>Contracts of the tables\<close>

definition dcache_content :: "dcache \<Rightarrow> nat \<Rightarrow> (u8 \<times> unit) option" where
  "dcache_content c i = (if dc_valid (c i) then Some (dc_tag (c i), ()) else None)"

interpretation dcache: direct_mapped "\<lambda>_. True"
  "\<lambda>c a. if dcache_hit c a then Some () else None" "\<lambda>c a _. dcache_allocate c a"
  dcache_index dcache_tag dcache_content
  by unfold_locales
     (auto simp: dcache_hit_def dcache_allocate_def dcache_content_def Let_def)

type_synonym btb_val = "u32 \<times> Kind \<times> u8"

definition btb_content :: "btb \<Rightarrow> nat \<Rightarrow> (u32 \<times> btb_val) option" where
  "btb_content b i = (if be_valid (b i)
     then Some (be_tag (b i), be_target (b i), be_type (b i), be_counter (b i)) else None)"

definition btb_lookup :: "nat \<Rightarrow> btb \<Rightarrow> u32 \<Rightarrow> btb_val option" where
  "btb_lookup n b pc = (let e = b (btb_index n pc) in
     if be_valid e \<and> be_tag e = pc then Some (be_target e, be_type e, be_counter e) else None)"

definition btb_put :: "nat \<Rightarrow> btb \<Rightarrow> u32 \<Rightarrow> btb_val \<Rightarrow> btb" where
  "btb_put n b pc v = (case v of (target, type, counter) \<Rightarrow>
     b(btb_index n pc := \<lparr>be_tag = pc, be_target = target, be_valid = True, be_type = type,
                          be_counter = counter\<rparr>))"

interpretation btb: direct_mapped "\<lambda>_. True" "btb_lookup n" "btb_put n" "btb_index n" "\<lambda>pc. pc"
  btb_content for n :: nat
  by unfold_locales (auto simp: btb_lookup_def btb_put_def btb_content_def Let_def split: prod.split)

text \<open>What an update of a buffer stores, as a function of what the buffer held for the address.\<close>

definition btb_next :: "btb_val option \<Rightarrow> u32 \<Rightarrow> Kind \<Rightarrow> bool \<Rightarrow> btb_val" where
  "btb_next v target type taken = (case v of
     Some (tg, ty, c) \<Rightarrow>
       if ty \<noteq> type then (target, type, if taken then 2 else 1)
       else if taken then (target, type, if c < 3 then c + 1 else c)
       else (tg, type, if 0 < c then c - 1 else c)
   | None \<Rightarrow> (target, type, if taken then 2 else 1))"

lemma btb_ent_eta:
  "be_valid e \<Longrightarrow> \<lparr>be_tag = be_tag e, be_target = be_target e, be_valid = True, be_type = be_type e,
     be_counter = be_counter e\<rparr> = e"
  by (cases e) simp

lemma fst_btb_model:
  "fst (btb_model (b, m) n pc target type taken allow) =
     (if type = K_JALR \<and> \<not> allow then b
      else btb_put n b pc (btb_next (btb_lookup n b pc) target type taken))"
  by (cases "b (btb_index n pc)")
     (auto simp: btb_model_def btb_put_def btb_next_def btb_lookup_def Let_def)

lemma snd_btb_model_trained:
  assumes "btb_lookup n b pc = Some (target, type, c)" "type \<noteq> K_BRANCH" "type \<noteq> K_JALR \<or> allow"
  shows "snd (btb_model (b, m) n pc target type True allow) = m"
  using assms by (auto simp: btb_model_def btb_lookup_def Let_def split: if_splits)

definition btb_event :: "nat \<Rightarrow> bool \<Rightarrow> btb \<times> u64 \<Rightarrow> u32 \<times> u32 \<times> Kind \<times> bool \<Rightarrow> btb \<times> u64" where
  "btb_event n allow bm ev = (case ev of (pc, target, type, taken) \<Rightarrow>
     btb_model bm n pc target type taken allow)"

lemma btb_events_other:
  assumes "\<And>ev. ev \<in> set evs \<Longrightarrow> btb_index n (fst ev) \<noteq> btb_index n pc"
  shows "btb_lookup n (fst (foldl (btb_event n allow) bm evs)) pc = btb_lookup n (fst bm) pc"
  using assms
proof (induction evs arbitrary: bm)
  case (Cons ev evs)
  obtain pc' target type taken where ev: "ev = (pc', target, type, taken)"
    by (cases ev)
  have "btb_index n pc \<noteq> btb_index n pc'"
    using Cons.prems [of ev] ev by auto
  then have "btb_lookup n (fst (btb_event n allow bm ev)) pc = btb_lookup n (fst bm) pc"
    by (cases bm) (simp add: btb_event_def ev fst_btb_model btb.lookup_put_other)
  then show ?case
    using Cons by simp
qed simp

text \<open>
  C39. A branch target buffer learns a jump: once a taken jump (\<open>K_JAL\<close>, or \<open>K_JALR\<close> where the buffer
  admits it) has been seen, and whatever control instructions of other indices follow, its next
  execution to the same target adds no miss.
\<close>

theorem btb_learns_jump:
  fixes bm0 :: "btb \<times> u64" and target :: u32
  assumes "type \<noteq> K_BRANCH" "type \<noteq> K_JALR \<or> allow"
    "\<And>ev. ev \<in> set evs \<Longrightarrow> btb_index n (fst ev) \<noteq> btb_index n pc"
  defines "bm \<equiv> foldl (btb_event n allow) (btb_event n allow bm0 (pc, target, type, True)) evs"
  shows "snd (btb_event n allow bm (pc, target, type, True)) = snd bm"
proof -
  have "fst (btb_event n allow bm0 (pc, target, type, True))
      = btb_put n (fst bm0) pc (btb_next (btb_lookup n (fst bm0) pc) target type True)"
    using assms(1,2) by (cases bm0) (auto simp: btb_event_def fst_btb_model)
  moreover have "\<exists>c. btb_next v target type True = (target, type, c)" for v
    by (auto simp: btb_next_def split: option.split)
  ultimately obtain c where
    "fst (btb_event n allow bm0 (pc, target, type, True)) = btb_put n (fst bm0) pc (target, type, c)"
    by metis
  then have "btb_lookup n (fst bm) pc = Some (target, type, c)"
    unfolding bm_def by (subst btb_events_other) (simp_all add: assms(3) btb.lookup_put_same)
  then show ?thesis
    using snd_btb_model_trained [OF _ assms(1,2)] by (cases bm) (simp add: btb_event_def)
qed

definition empty_btb :: btb where
  "empty_btb = (\<lambda>_. \<lparr>be_tag = 0, be_target = 0, be_valid = False, be_type = K_ALU, be_counter = 0\<rparr>)"

theorem btb_learns_jump_witness:
  "snd (btb_event 16 False (foldl (btb_event 16 False)
      (btb_event 16 False (empty_btb, 0) (0x80000010, 0x80000100, K_JAL, True))
      [(0x80000100, 0x80000104, K_BRANCH, False)]) (0x80000010, 0x80000100, K_JAL, True))
   = snd (foldl (btb_event 16 False)
      (btb_event 16 False (empty_btb, 0) (0x80000010, 0x80000100, K_JAL, True))
      [(0x80000100, 0x80000104, K_BRANCH, False)])"
  by (rule btb_learns_jump) (simp_all add: btb_index_def)

section \<open>Store policies compared\<close>

text \<open>Everything one cache holds, the other holds.\<close>

definition dcache_sub :: "dcache \<Rightarrow> dcache \<Rightarrow> bool" where
  "dcache_sub c d \<longleftrightarrow> (\<forall>i. dc_valid (c i) \<longrightarrow> dc_valid (d i) \<and> dc_tag (d i) = dc_tag (c i))"

lemma dcache_sub_hit: "dcache_sub c d \<Longrightarrow> dcache_hit c addr \<Longrightarrow> dcache_hit d addr"
  by (auto simp: dcache_sub_def dcache_hit_def Let_def)

lemma dcache_sub_load:
  assumes "dcache_sub (fst cs) (fst ds)"
  shows "dcache_sub (fst (snd (dcache_load cs addr width e))) (fst (snd (dcache_load ds addr width e)))"
    "fst (dcache_load cs addr width e) \<Longrightarrow> fst (dcache_load ds addr width e)"
  using assms
  by (auto simp: dcache_load_def dcache_sub_def dcache_hit_def dcache_allocate_def Let_def
      split: prod.splits if_splits)

lemma dcache_sub_store:
  assumes "dcache_sub (fst cs) (fst ds)"
  shows "dcache_sub (fst (rtl_dcache_store cs addr width)) (fst (proposed_dcache_store ds addr width))"
  using assms
  by (auto simp: rtl_dcache_store_def proposed_dcache_store_def dcache_sub_def dcache_hit_def
      dcache_allocate_def dcache_invalidate_def Let_def split: prod.splits if_splits)

text \<open>Every load is counted as a hit or as a miss, every partial store as an update or an invalidation.\<close>

definition stat_ok :: "DCacheStat \<Rightarrow> bool" where
  "stat_ok s \<longleftrightarrow> (\<forall>w. load_access s w = load_hit s w + load_miss s w)
     \<and> partial_store_total s = partial_store_hit_update s + partial_store_invalidate s"

lemma stat_ok_load: "stat_ok (snd cs) \<Longrightarrow> stat_ok (snd (snd (dcache_load cs addr width e)))"
  by (auto simp: dcache_load_def stat_ok_def bump_def Let_def split: prod.split)

lemma stat_ok_store:
  "stat_ok (snd cs) \<Longrightarrow> stat_ok (snd (current_dcache_store cs addr width))"
  "stat_ok (snd cs) \<Longrightarrow> stat_ok (snd (rtl_dcache_store cs addr width))"
  "stat_ok (snd cs) \<Longrightarrow> stat_ok (snd (proposed_dcache_store cs addr width))"
  by (auto simp: current_dcache_store_def rtl_dcache_store_def proposed_dcache_store_def
      stat_ok_def split: prod.split)

section \<open>Replacement in the set-associative caches\<close>

definition no_age :: "AssocDCache \<Rightarrow> bool" where
  "no_age c \<longleftrightarrow> (\<forall>e. as_lru (as_entries c e) = 0)"

lemma no_age_touch: "no_age c \<Longrightarrow> assoc_touch c addr e = c"
proof -
  assume a: "no_age c"
  let ?f = "\<lambda>es entry. if entry \<noteq> e \<and> as_valid (es entry)
      \<and> as_lru (es entry) < as_lru (as_entries c e)
      then es(entry := (es entry)\<lparr>as_lru := as_lru (es entry) + 1\<rparr>) else es"
  have "foldl ?f (as_entries c) es = as_entries c" for es
    using a by (induction es) (auto simp: no_age_def)
  moreover have "(as_entries c)(e := (as_entries c e)\<lparr>as_lru := 0\<rparr>) = as_entries c"
    using a by (auto simp: no_age_def fun_eq_iff)
  ultimately show ?thesis
    by (simp add: assoc_touch_def Let_def)
qed

lemma no_age_stat [simp]: "no_age (assoc_stat f c) = no_age c"
  by (simp add: no_age_def assoc_stat_def)

lemma no_age_upd:
  "no_age c \<Longrightarrow> no_age (c\<lparr>as_entries := (as_entries c)(e := (as_entries c e)\<lparr>as_valid := v, as_tag := t\<rparr>)\<rparr>)"
  "no_age c \<Longrightarrow> no_age (c\<lparr>as_entries := (as_entries c)(e := (as_entries c e)\<lparr>as_valid := v\<rparr>)\<rparr>)"
  by (auto simp: no_age_def)

lemma no_age_allocate: "no_age c \<Longrightarrow> no_age (assoc_allocate c addr)"
  by (simp add: assoc_allocate_def Let_def no_age_touch no_age_upd)

lemma no_age_load: "no_age c \<Longrightarrow> no_age (snd (assoc_load c addr width e))"
  by (simp add: assoc_load_def Let_def no_age_touch no_age_allocate split: option.split)

lemma no_age_store: "no_age c \<Longrightarrow> no_age (assoc_store c addr width)"
  by (simp add: assoc_store_def Let_def no_age_touch no_age_allocate no_age_upd split: option.split)

lemma victim_no_age:
  assumes "\<And>e. as_lru (es e) = 0"
  shows "victim_loop es v ws = (case find (\<lambda>e. \<not> as_valid (es e)) ws of Some e \<Rightarrow> e | None \<Rightarrow> v)"
  using assms by (induction ws arbitrary: v) auto

datatype mem_event = LoadEv u32 MemWidth bool | StoreEv u32 MemWidth

fun assoc_event :: "AssocDCache \<Rightarrow> mem_event \<Rightarrow> AssocDCache" where
  "assoc_event c (LoadEv addr width eligible) = snd (assoc_load c addr width eligible)"
| "assoc_event c (StoreEv addr width) = assoc_store c addr width"

lemma no_age_event: "no_age c \<Longrightarrow> no_age (assoc_event c ev)"
  by (cases ev) (simp_all add: no_age_load no_age_store)

lemma no_age_events: "no_age c \<Longrightarrow> no_age (foldl assoc_event c evs)"
  by (induction evs arbitrary: c) (simp_all add: no_age_event)

lemma as_geometry [simp]:
  "as_ways (assoc_stat f c) = as_ways c" "as_sets (assoc_stat f c) = as_sets c"
  by (simp_all add: assoc_stat_def)

text \<open>
  C40. Replacement in the set-associative shadow caches ignores use: a newly filled way starts with
  age 0 and \<open>assoc_touch\<close> only ages ways younger than the touched one, so in every state that loads
  and stores reach from a cleared cache all ages are 0 and the victim of a set is its first
  invalid way or, when all ways are valid, always way 0.
\<close>

theorem assoc_victim_fixed:
  fixes evs :: "mem_event list"
  assumes "\<And>e. as_lru (as_entries c e) = 0"
  defines "c' \<equiv> foldl assoc_event c evs"
  shows "(\<forall>e. as_lru (as_entries c' e) = 0) \<and>
    assoc_victim c' addr =
      (case find (\<lambda>e. \<not> as_valid (as_entries c' e))
              (map (assoc_entry c' (assoc_set c' addr)) [0..<as_ways c']) of
         Some e \<Rightarrow> e
       | None \<Rightarrow> assoc_entry c' (assoc_set c' addr) 0)"
proof -
  have "no_age c'"
    using assms no_age_events [of c evs] by (simp add: no_age_def)
  then show ?thesis
    by (simp add: no_age_def assoc_victim_def Let_def victim_no_age)
qed

text \<open>
  Two ways, one set: A, B and A again, then C. The way of A, used last, is the one that is replaced.
\<close>

definition clear_stat :: DCacheStat where
  "clear_stat = \<lparr>load_access = (\<lambda>_. 0), load_hit = (\<lambda>_. 0), load_miss = (\<lambda>_. 0),
     full_store_allocate = 0, partial_store_total = 0, partial_store_hit_update = 0,
     partial_store_invalidate = 0\<rparr>"

definition clear_assoc :: "nat \<Rightarrow> nat \<Rightarrow> AssocDCache" where
  "clear_assoc s w = \<lparr>as_sets = s, as_ways = w,
     as_entries = (\<lambda>_. \<lparr>as_tag = 0, as_valid = False, as_lru = 0\<rparr>), as_stat = clear_stat\<rparr>"

lemma upt_0_2: "[0..<2] = [0, 1 :: nat]"
  by (simp add: upt_rec)

theorem assoc_victim_fixed_witness:
  "let c' = foldl assoc_event (clear_assoc 1 2)
     [LoadEv 0x100000 W_WORD True, LoadEv 0x100004 W_WORD True, LoadEv 0x100000 W_WORD True]
   in assoc_victim c' 0x100008 = 0 \<and> as_tag (as_entries c' 0) = 0x40000"
proof -
  let ?c = "foldl assoc_event (clear_assoc 1 2)
     [LoadEv 0x100000 W_WORD True, LoadEv 0x100004 W_WORD True, LoadEv 0x100000 W_WORD True]"
  have z: "as_lru (as_entries (clear_assoc 1 2) e) = 0" for e
    by (simp add: clear_assoc_def)
  have na: "no_age (clear_assoc 1 2)"
    by (simp add: no_age_def clear_assoc_def)
  have "as_entries ?c = (\<lambda>_. \<lparr>as_tag = 0, as_valid = False, as_lru = 0\<rparr>)
      (0 := \<lparr>as_tag = 0x40000, as_valid = True, as_lru = 0\<rparr>,
       1 := \<lparr>as_tag = 0x40001, as_valid = True, as_lru = 0\<rparr>)" "as_ways ?c = 2" "as_sets ?c = 1"
    by (simp_all add: assoc_load_def assoc_allocate_def assoc_find_def assoc_victim_def
        assoc_touch_def assoc_set_def assoc_tag_def assoc_entry_def assoc_stat_def Let_def
        clear_assoc_def upt_0_2 fun_eq_iff)
  then show ?thesis
    using assoc_victim_fixed [OF z, of "[LoadEv 0x100000 W_WORD True, LoadEv 0x100004 W_WORD True,
        LoadEv 0x100000 W_WORD True]" "0x100008"]
    by (simp add: Let_def assoc_set_def assoc_entry_def upt_0_2)
qed

end
