(* ===== verification/Profile_State.thy ===== *)
theory Profile_State
  imports Profile_Cache
begin

text \<open>
  The state of the profiler, \<open>nemu/src/isa/riscv32/profile.c\<close>: the static variables of the file, grouped
  into records by topic. A counter array is a function from its index.
\<close>

section \<open>State\<close>

record PcStat =
  ps_pc :: u32
  ps_n :: u64
  ps_taken :: u64

record Phase =
  ph_inst :: u64
  ph_control :: u64
  ph_taken :: u64
  ph_load :: u64
  ph_store :: u64
  ph_raw :: u64
  ph_current_bypass :: u64
  ph_proposed_bypass :: u64
  ph_incremental_bypass :: u64
  ph_lost_bypass :: u64
  ph_proposed_bypass_by_width :: "MemWidth \<Rightarrow> u64"
  ph_late_load_branch_eligible :: u64
  ph_late_load_branch_hit :: u64
  ph_rtl_btb32_miss :: u64
  ph_rtl_btb32_skip_not_taken_miss :: u64

record LoadPairStat =
  lp_producer_pc :: u32
  lp_consumer_pc :: u32
  lp_count :: u64
  lp_eligible :: u64
  lp_current_hit :: u64
  lp_proposed_hit :: u64
  lp_incremental_hit :: u64
  lp_lost_hit :: u64
  lp_assoc_hit :: "nat \<Rightarrow> u64"
  lp_source :: "nat \<Rightarrow> u64"
  lp_width :: MemWidth
  lp_consumer :: Kind
  lp_used :: bool

record PreviousLoad =
  pl_pc :: u32
  pl_rd :: u32
  pl_width :: MemWidth
  pl_current_hit :: bool
  pl_rtl_hit :: bool
  pl_proposed_hit :: bool
  pl_assoc_hit :: "nat \<Rightarrow> bool"
  pl_d1_state_diff :: bool
  pl_valid :: bool

record basic_counts =
  total :: u64
  kinds :: "Kind \<Rightarrow> u64"
  mops :: "nat \<Rightarrow> u64"
  bops :: "BOp \<Rightarrow> u64"
  crcops :: "nat \<Rightarrow> u64"
  raw_dist :: "nat \<Rightarrow> u64"
  xaccel_ops :: "nat \<Rightarrow> u64"
  xaccel_units :: "nat \<Rightarrow> u64"
  xaccel_cycles :: "nat \<Rightarrow> u64"
  xdfacnt_ops :: "nat \<Rightarrow> u64"
  pack_rs2_zero :: u64
  pack_rs1_upper_zero :: u64
  pack_matches_xor :: u64
  miss_consumer_successor_deps :: u64
  m_divide_by_zero :: u64
  m_signed_overflow :: u64
  prod_cons :: "Kind \<times> Kind \<Rightarrow> u64"
  widths :: "MemWidth \<Rightarrow> u64"
  regions :: "nat \<Rightarrow> u64"
  aliases :: "nat \<Rightarrow> u64"
  jalr_rd :: "nat \<Rightarrow> u64"
  jalr_rs1 :: "nat \<Rightarrow> u64"

record load_counts =
  load_raw :: "MemWidth \<times> Kind \<Rightarrow> u64"
  load_raw_source :: "MemWidth \<times> nat \<Rightarrow> u64"
  load_raw_eligible :: "MemWidth \<times> Kind \<Rightarrow> u64"
  load_raw_current_hit :: "MemWidth \<times> Kind \<Rightarrow> u64"
  load_raw_proposed_hit :: "MemWidth \<times> Kind \<Rightarrow> u64"
  load_raw_incremental_hit :: "MemWidth \<times> Kind \<Rightarrow> u64"
  load_raw_lost_hit :: "MemWidth \<times> Kind \<Rightarrow> u64"
  load_m_raw :: "MemWidth \<times> nat \<times> nat \<Rightarrow> u64"
  load_m_raw_eligible :: "MemWidth \<times> nat \<times> nat \<Rightarrow> u64"
  load_m_raw_current_hit :: "MemWidth \<times> nat \<times> nat \<Rightarrow> u64"
  load_m_raw_proposed_hit :: "MemWidth \<times> nat \<times> nat \<Rightarrow> u64"
  load_branch_raw :: "MemWidth \<times> nat \<times> nat \<Rightarrow> u64"
  load_branch_eligible :: "MemWidth \<times> nat \<times> nat \<Rightarrow> u64"
  load_branch_current_hit :: "MemWidth \<times> nat \<times> nat \<Rightarrow> u64"
  load_branch_proposed_hit :: "MemWidth \<times> nat \<times> nat \<Rightarrow> u64"

record masked_counts =
  masked_store_baseline_hit :: "nat \<times> MemWidth \<Rightarrow> u64"
  masked_store_candidate_hit :: "nat \<times> MemWidth \<Rightarrow> u64"
  masked_store_incremental_hit :: "nat \<times> MemWidth \<Rightarrow> u64"
  masked_store_lost_hit :: "nat \<times> MemWidth \<Rightarrow> u64"
  masked_store_baseline_miss_successor_deps :: u64
  masked_store_candidate_miss_successor_deps :: u64

record branch_counts =
  branch_total :: u64
  branch_taken :: u64
  branch_backward :: u64
  branch_backward_taken :: u64
  branch_backward_not_taken :: u64
  branch_forward_taken :: u64
  branch_forward_not_taken :: u64
  branch_static_backward_miss :: u64
  branch_static_not_taken_miss :: u64
  branch_btb32_miss_backward_taken :: u64
  rtl_btb32_miss :: u64
  rtl_btb32_skip_not_taken_miss :: u64

record btb_set =
  btb16 :: "btb \<times> u64"
  btb32 :: "btb \<times> u64"
  btb64 :: "btb \<times> u64"
  btb128 :: "btb \<times> u64"
  btb16j :: "btb \<times> u64"
  btb32j :: "btb \<times> u64"
  btb32_stored_jalr_not_predicted :: "btb \<times> u64"
  rtl_btb32 :: btb
  rtl_btb32_skip_not_taken :: btb

record dcache_set =
  current_dcache :: "dcache \<times> DCacheStat"
  rtl_dcache :: "dcache \<times> DCacheStat"
  proposed_dcache :: "dcache \<times> DCacheStat"
  dcache_2way :: AssocDCache
  dcache_4way :: AssocDCache
  dcache_8way :: AssocDCache

record prof =
  out_path :: bool
  basic :: basic_counts
  loads :: load_counts
  masked :: masked_counts
  branches :: branch_counts
  btbs :: btb_set
  dcaches :: dcache_set
  phases :: "nat \<Rightarrow> Phase"
  pcs :: "nat \<Rightarrow> PcStat"
  load_pairs :: "nat \<Rightarrow> LoadPairStat"
  pair_table_full :: u64
  previous_load :: PreviousLoad
  distance2_load :: PreviousLoad
  last_write :: "nat \<Rightarrow> u64"
  last_kind :: "nat \<Rightarrow> Kind"
  previous_miss_consumer_rd :: u32
  masked_baseline_miss_consumer_rd :: u32
  masked_candidate_miss_consumer_rd :: u32

definition PHASE_LEN :: nat where "PHASE_LEN = 16000000"
definition MAX_PHASES :: nat where "MAX_PHASES = 128"
definition PC_SLOTS :: u32 where "PC_SLOTS = push_bit 20 1"
definition PAIR_SLOTS :: u32 where "PAIR_SLOTS = push_bit 16 1"

text \<open>A truth value added to a counter, and a counter raised under a condition.\<close>

definition of_b :: "bool \<Rightarrow> u64" where
  "of_b b = (if b then 1 else 0)"

definition bump_if :: "bool \<Rightarrow> ('i \<Rightarrow> u64) \<Rightarrow> 'i \<Rightarrow> ('i \<Rightarrow> u64)" where
  "bump_if b f i = f(i := f i + of_b b)"

definition upd_phase :: "nat \<Rightarrow> (Phase \<Rightarrow> Phase) \<Rightarrow> prof \<Rightarrow> prof" where
  "upd_phase i f s = s\<lparr>phases := (phases s)(i := f (phases s i))\<rparr>"

end
