(* ===== verification/Profile.thy ===== *)
theory Profile
  imports Profile_State
begin

text \<open>
  The event recorder of the profiler, \<open>nemu/src/isa/riscv32/profile.c\<close>: the hash table of load/consumer
  pairs and \<open>riscv_profile_record\<close>, which is called once per executed instruction and is split here, in
  the order of its body, into the stages its blank lines mark. \<open>riscv_profile_finish\<close>, which prints the
  counters as JSON, is not modelled. The only array index the code does not bound, that of
  \<open>phases\<close>, is checked by the model.
\<close>

section \<open>Accelerator counters\<close>

definition riscv_profile_record_xaccel :: "prof \<Rightarrow> nat \<Rightarrow> u64 \<Rightarrow> u64 \<Rightarrow> prof" where
  "riscv_profile_record_xaccel s op units modeled_cycles =
     (if \<not> out_path s \<or> op \<ge> 6 then s
      else let b = basic s in s\<lparr>basic := b\<lparr>xaccel_ops := bump (xaccel_ops b) op,
        xaccel_units := (xaccel_units b)(op := xaccel_units b op + units),
        xaccel_cycles := (xaccel_cycles b)(op := xaccel_cycles b op + modeled_cycles)\<rparr>\<rparr>)"

definition riscv_profile_record_xdfacnt :: "prof \<Rightarrow> nat \<Rightarrow> prof" where
  "riscv_profile_record_xdfacnt s op =
     (if out_path s \<and> op < 6
      then s\<lparr>basic := (basic s)\<lparr>xdfacnt_ops := bump (xdfacnt_ops (basic s)) op\<rparr>\<rparr> else s)"

section \<open>The load/consumer pair table\<close>

definition width_num :: "MemWidth \<Rightarrow> u32" where
  "width_num w = (case w of W_BYTE \<Rightarrow> 0 | W_HALF \<Rightarrow> 1 | W_WORD \<Rightarrow> 2 | W_OTHER \<Rightarrow> 3)"

definition kind_num :: "Kind \<Rightarrow> u32" where
  "kind_num k = (case k of K_ALU \<Rightarrow> 0 | K_BRANCH \<Rightarrow> 1 | K_JAL \<Rightarrow> 2 | K_JALR \<Rightarrow> 3 | K_LOAD \<Rightarrow> 4
     | K_STORE \<Rightarrow> 5 | K_M \<Rightarrow> 6 | K_B \<Rightarrow> 7 | K_CRC \<Rightarrow> 8 | K_SYSTEM \<Rightarrow> 9 | K_OTHER \<Rightarrow> 10)"

type_synonym pair_key = "u32 \<times> u32 \<times> MemWidth \<times> Kind"

definition pair_key :: "LoadPairStat \<Rightarrow> pair_key" where
  "pair_key p = (lp_producer_pc p, lp_consumer_pc p, lp_width p, lp_consumer p)"

definition pair_hash :: "pair_key \<Rightarrow> u32" where
  "pair_hash k = (case k of (producer_pc, consumer_pc, width, consumer) \<Rightarrow>
     (producer_pc * 2654435761) XOR (consumer_pc * 2246822519)
     XOR (width_num width * 3266489917) XOR (kind_num consumer * 668265263))"

definition pair_slot :: "pair_key \<Rightarrow> nat \<Rightarrow> nat" where
  "pair_slot k probe = unat ((pair_hash k + of_nat probe) AND (PAIR_SLOTS - 1))"

text \<open>
  The probe loop: the probes still allowed are counted down. \<open>Some\<close> is the slot of the pair, in a table
  where a free slot has been claimed for it; \<open>None\<close> is a full table.
\<close>

fun find_load_pair_loop ::
  "(nat \<Rightarrow> LoadPairStat) \<Rightarrow> pair_key \<Rightarrow> nat \<Rightarrow> nat \<Rightarrow> (nat \<times> (nat \<Rightarrow> LoadPairStat)) option" where
  "find_load_pair_loop t k probe 0 = None"
| "find_load_pair_loop t k probe (Suc left) =
     (let i = pair_slot k probe in
      if \<not> lp_used (t i)
      then (case k of (producer_pc, consumer_pc, width, consumer) \<Rightarrow>
        Some (i, t(i := (t i)\<lparr>lp_used := True, lp_producer_pc := producer_pc,
          lp_consumer_pc := consumer_pc, lp_width := width, lp_consumer := consumer\<rparr>)))
      else if pair_key (t i) = k then Some (i, t)
      else find_load_pair_loop t k (Suc probe) left)"

definition find_load_pair ::
  "(nat \<Rightarrow> LoadPairStat) \<Rightarrow> pair_key \<Rightarrow> (nat \<times> (nat \<Rightarrow> LoadPairStat)) option" where
  "find_load_pair t k = find_load_pair_loop t k 0 (unat PAIR_SLOTS)"

section \<open>Recording\<close>

definition record_masked_store_update_saving ::
  "PreviousLoad \<Rightarrow> masked_counts \<Rightarrow> nat \<Rightarrow> u32 \<Rightarrow> Kind \<Rightarrow> u32 \<Rightarrow> u32 \<Rightarrow> bool \<Rightarrow> bool
   \<Rightarrow> PreviousLoad \<times> masked_counts" where
  "record_masked_store_update_saving load m distance x consumer rs1 rs2 use1 use2 =
     (let smask = source_mask use1 use2 rs1 rs2 (pl_rd load);
          eligible = (if distance = 1 then late_load_source_eligible x smask
                      else let address_rs1 = consumer = K_LOAD \<or> consumer = K_STORE \<or> consumer = K_JALR
                           in \<not> (address_rs1 \<and> smask AND 1 \<noteq> 0))
      in if \<not> pl_valid load \<or> smask = 0 \<or> \<not> eligible \<or> (distance = 2 \<and> pl_d1_state_diff load)
         then (load, m)
         else let slot = distance - 1; width = pl_width load;
                  baseline_hit = pl_rtl_hit load; candidate_hit = pl_proposed_hit load;
                  m = m\<lparr>masked_store_baseline_hit :=
                          bump_if baseline_hit (masked_store_baseline_hit m) (slot, width),
                        masked_store_candidate_hit :=
                          bump_if candidate_hit (masked_store_candidate_hit m) (slot, width),
                        masked_store_incremental_hit :=
                          bump_if (candidate_hit \<and> \<not> baseline_hit) (masked_store_incremental_hit m)
                            (slot, width),
                        masked_store_lost_hit :=
                          bump_if (baseline_hit \<and> \<not> candidate_hit) (masked_store_lost_hit m)
                            (slot, width)\<rparr>
              in (if distance = 1 then load\<lparr>pl_d1_state_diff := baseline_hit \<noteq> candidate_hit\<rparr> else load,
                  m))"

text \<open>The three groups of counters of \<open>record_immediate_load_raw\<close>: the load matrices, the phase, the pair.\<close>

definition count_load_raw ::
  "load_counts \<Rightarrow> u32 \<Rightarrow> MemWidth \<Rightarrow> Kind \<Rightarrow> nat \<Rightarrow> bool \<Rightarrow> bool \<Rightarrow> bool \<Rightarrow> load_counts" where
  "count_load_raw l x width consumer smask eligible current_hit proposed_hit =
     (let source = smask - 1;
          l = (if consumer = K_M
               then let i = (width, mop_of x, source) in
                 l\<lparr>load_m_raw := bump (load_m_raw l) i,
                   load_m_raw_eligible := bump_if eligible (load_m_raw_eligible l) i,
                   load_m_raw_current_hit := bump_if current_hit (load_m_raw_current_hit l) i,
                   load_m_raw_proposed_hit := bump_if proposed_hit (load_m_raw_proposed_hit l) i\<rparr>
               else l);
          l = (if consumer = K_BRANCH
               then let i = (width, unat (drop_bit 12 x AND 7), source) in
                 l\<lparr>load_branch_raw := bump (load_branch_raw l) i,
                   load_branch_eligible := bump_if eligible (load_branch_eligible l) i,
                   load_branch_current_hit := bump_if current_hit (load_branch_current_hit l) i,
                   load_branch_proposed_hit := bump_if proposed_hit (load_branch_proposed_hit l) i\<rparr>
               else l);
          i = (width, consumer)
      in l\<lparr>load_raw := bump (load_raw l) i,
           load_raw_source := bump (load_raw_source l) (width, source),
           load_raw_eligible := bump_if eligible (load_raw_eligible l) i,
           load_raw_current_hit := bump_if current_hit (load_raw_current_hit l) i,
           load_raw_proposed_hit := bump_if proposed_hit (load_raw_proposed_hit l) i,
           load_raw_incremental_hit :=
             bump_if (proposed_hit \<and> \<not> current_hit) (load_raw_incremental_hit l) i,
           load_raw_lost_hit := bump_if (current_hit \<and> \<not> proposed_hit) (load_raw_lost_hit l) i\<rparr>)"

definition count_phase_raw ::
  "Phase \<Rightarrow> MemWidth \<Rightarrow> Kind \<Rightarrow> bool \<Rightarrow> bool \<Rightarrow> bool \<Rightarrow> Phase" where
  "count_phase_raw p width consumer eligible current_hit proposed_hit =
     p\<lparr>ph_late_load_branch_eligible :=
         ph_late_load_branch_eligible p + of_b (consumer = K_BRANCH \<and> eligible),
       ph_late_load_branch_hit := ph_late_load_branch_hit p + of_b (consumer = K_BRANCH \<and> proposed_hit),
       ph_current_bypass := ph_current_bypass p + of_b current_hit,
       ph_proposed_bypass := ph_proposed_bypass p + of_b proposed_hit,
       ph_proposed_bypass_by_width := bump_if proposed_hit (ph_proposed_bypass_by_width p) width,
       ph_incremental_bypass := ph_incremental_bypass p + of_b (proposed_hit \<and> \<not> current_hit),
       ph_lost_bypass := ph_lost_bypass p + of_b (current_hit \<and> \<not> proposed_hit)\<rparr>"

definition count_pair ::
  "LoadPairStat \<Rightarrow> nat \<Rightarrow> bool \<Rightarrow> bool \<Rightarrow> bool \<Rightarrow> (nat \<Rightarrow> bool) \<Rightarrow> LoadPairStat" where
  "count_pair p smask eligible current_hit proposed_hit assoc_hit =
     p\<lparr>lp_count := lp_count p + 1,
       lp_source := bump (lp_source p) (smask - 1),
       lp_eligible := lp_eligible p + of_b eligible,
       lp_current_hit := lp_current_hit p + of_b current_hit,
       lp_proposed_hit := lp_proposed_hit p + of_b proposed_hit,
       lp_assoc_hit := (\<lambda>i. lp_assoc_hit p i + of_b (i < 3 \<and> assoc_hit i)),
       lp_incremental_hit := lp_incremental_hit p + of_b (proposed_hit \<and> \<not> current_hit),
       lp_lost_hit := lp_lost_hit p + of_b (current_hit \<and> \<not> proposed_hit)\<rparr>"

definition record_immediate_load_raw ::
  "prof \<Rightarrow> u32 \<Rightarrow> u32 \<Rightarrow> Kind \<Rightarrow> u32 \<Rightarrow> u32 \<Rightarrow> bool \<Rightarrow> bool \<Rightarrow> nat \<Rightarrow> prof" where
  "record_immediate_load_raw s pc x consumer rs1 rs2 use1 use2 phase =
     (let pl = previous_load s; smask = source_mask use1 use2 rs1 rs2 (pl_rd pl)
      in if \<not> pl_valid pl \<or> smask = 0 then s
      else let width = pl_width pl;
               address_rs1 = consumer = K_LOAD \<or> consumer = K_STORE \<or> consumer = K_JALR;
               eligible = (\<not> (address_rs1 \<and> smask AND 1 \<noteq> 0));
               current_hit = (eligible \<and> pl_current_hit pl);
               proposed_hit = (eligible \<and> pl_proposed_hit pl);
               s = s\<lparr>loads := count_load_raw (loads s) x width consumer smask eligible current_hit proposed_hit\<rparr>;
               s = upd_phase phase
                     (\<lambda>p. count_phase_raw p width consumer eligible current_hit proposed_hit) s
           in case find_load_pair (load_pairs s) (pl_pc pl, pc, width, consumer) of
                None \<Rightarrow> s\<lparr>pair_table_full := pair_table_full s + 1\<rparr>
              | Some (i, t) \<Rightarrow> s\<lparr>load_pairs := t(i :=
                  count_pair (t i) smask eligible current_hit proposed_hit (pl_assoc_hit pl))\<rparr>)"

definition prof_miss_deps :: "prof \<Rightarrow> u32 \<Rightarrow> u32 \<Rightarrow> u32 \<Rightarrow> u32 \<Rightarrow> bool \<Rightarrow> bool \<Rightarrow> prof" where
  "prof_miss_deps s x rd rs1 rs2 use1 use2 =
     (let dep = (\<lambda>r. r \<noteq> 0 \<and> ((use1 \<and> rs1 = r) \<or> (use2 \<and> rs2 = r)));
          b = basic s; m = masked s; pl = previous_load s;
          smask = source_mask use1 use2 rs1 rs2 (pl_rd pl);
          s = s\<lparr>basic := b\<lparr>miss_consumer_successor_deps := miss_consumer_successor_deps b
                             + of_b (dep (previous_miss_consumer_rd s))\<rparr>,
                masked := m\<lparr>masked_store_baseline_miss_successor_deps :=
                               masked_store_baseline_miss_successor_deps m
                               + of_b (dep (masked_baseline_miss_consumer_rd s)),
                             masked_store_candidate_miss_successor_deps :=
                               masked_store_candidate_miss_successor_deps m
                               + of_b (dep (masked_candidate_miss_consumer_rd s))\<rparr>,
                previous_miss_consumer_rd := 0,
                masked_baseline_miss_consumer_rd := 0,
                masked_candidate_miss_consumer_rd := 0\<rparr>
      in if pl_valid pl \<and> rd \<noteq> 0 \<and> is_late_load_consumer x
         then let eligible = (smask \<noteq> 0 \<and> late_load_source_eligible x smask)
              in s\<lparr>previous_miss_consumer_rd := (if smask \<noteq> 0 \<and> \<not> pl_proposed_hit pl then rd else 0),
                   masked_baseline_miss_consumer_rd := (if eligible \<and> \<not> pl_rtl_hit pl then rd else 0),
                   masked_candidate_miss_consumer_rd :=
                     (if eligible \<and> \<not> pl_proposed_hit pl then rd else 0)\<rparr>
         else s)"

definition prof_masked :: "prof \<Rightarrow> u32 \<Rightarrow> Kind \<Rightarrow> u32 \<Rightarrow> u32 \<Rightarrow> bool \<Rightarrow> bool \<Rightarrow> prof" where
  "prof_masked s x k rs1 rs2 use1 use2 =
     (let (l1, m) = record_masked_store_update_saving (previous_load s) (masked s) 1 x k rs1 rs2 use1 use2;
          (l2, m) = record_masked_store_update_saving (distance2_load s) m 2 x k rs1 rs2 use1 use2
      in s\<lparr>previous_load := l1, distance2_load := l2, masked := m\<rparr>)"

definition pc_slot :: "u32 \<Rightarrow> nat" where
  "pc_slot pc = unat ((drop_bit 2 pc * 2654435761) AND (PC_SLOTS - 1))"

definition prof_pcs :: "prof \<Rightarrow> u32 \<Rightarrow> prof" where
  "prof_pcs s pc =
     (let i = pc_slot pc; q = pcs s i
      in if ps_n q = 0 \<or> ps_pc q = pc
         then s\<lparr>pcs := (pcs s)(i := q\<lparr>ps_pc := pc, ps_n := ps_n q + 1\<rparr>)\<rparr> else s)"

definition prof_raw1 :: "u64 \<Rightarrow> Kind \<Rightarrow> nat \<Rightarrow> bool \<Rightarrow> u32 \<Rightarrow> prof \<Rightarrow> prof" where
  "prof_raw1 seq k phase use r s =
     (let r = unat r in
      if use \<and> r \<noteq> 0 \<and> last_write s r \<noteq> 0
      then let d = seq - last_write s r; b = basic s
           in upd_phase phase (\<lambda>p. p\<lparr>ph_raw := ph_raw p + 1\<rparr>)
                (s\<lparr>basic := b\<lparr>raw_dist := bump (raw_dist b) (if d < 8 then unat d else 8),
                              prod_cons := bump (prod_cons b) (last_kind s r, k)\<rparr>\<rparr>)
      else s)"

definition prof_ops :: "basic_counts \<Rightarrow> u32 \<Rightarrow> Kind \<Rightarrow> u32 \<Rightarrow> u32 \<Rightarrow> basic_counts" where
  "prof_ops b x k rs1_before rs2_before =
     (let b = (if k = K_M
               then let m_func3 = drop_bit 12 x AND 7; is_div_rem = m_func3 \<ge> 4;
                        is_signed_div_rem = m_func3 = 4 \<or> m_func3 = 6
                    in b\<lparr>mops := bump (mops b) (mop_of x),
                         m_divide_by_zero := m_divide_by_zero b + of_b (is_div_rem \<and> rs2_before = 0),
                         m_signed_overflow := m_signed_overflow b
                           + of_b (is_signed_div_rem \<and> rs1_before = 0x80000000 \<and> rs2_before = 0xffffffff)\<rparr>
               else b);
          b = (if k = K_B
               then let bop = bop_of x; b = b\<lparr>bops := bump (bops b) bop\<rparr>
                    in if bop = B_PACK
                       then let pack_result = (rs1_before AND 0xffff) OR push_bit 16 rs2_before
                            in b\<lparr>pack_rs2_zero := pack_rs2_zero b + of_b (rs2_before = 0),
                                 pack_rs1_upper_zero := pack_rs1_upper_zero b
                                   + of_b (drop_bit 16 rs1_before = 0),
                                 pack_matches_xor := pack_matches_xor b
                                   + of_b (pack_result = (rs1_before XOR rs2_before))\<rparr>
                       else b
               else b)
      in if k = K_CRC then b\<lparr>crcops := bump (crcops b) (unat (drop_bit 12 x AND 7))\<rparr> else b)"

definition prof_branch :: "branch_counts \<Rightarrow> u32 \<Rightarrow> bool \<Rightarrow> branch_counts" where
  "prof_branch c x taken =
     (let backward = sint (branch_imm x) < 0
      in c\<lparr>branch_total := branch_total c + 1,
           branch_taken := branch_taken c + of_b taken,
           branch_backward := branch_backward c + of_b backward,
           branch_backward_taken := branch_backward_taken c + of_b (backward \<and> taken),
           branch_backward_not_taken := branch_backward_not_taken c + of_b (backward \<and> \<not> taken),
           branch_forward_taken := branch_forward_taken c + of_b (\<not> backward \<and> taken),
           branch_forward_not_taken := branch_forward_not_taken c + of_b (\<not> backward \<and> \<not> taken),
           branch_static_backward_miss := branch_static_backward_miss c + of_b (backward \<noteq> taken),
           branch_static_not_taken_miss := branch_static_not_taken_miss c + of_b taken\<rparr>)"

definition prof_control :: "prof \<Rightarrow> u32 \<Rightarrow> u32 \<Rightarrow> u32 \<Rightarrow> u32 \<Rightarrow> Kind \<Rightarrow> nat \<Rightarrow> prof" where
  "prof_control s pc snpc dnpc x k phase =
     (if k = K_BRANCH \<or> k = K_JAL \<or> k = K_JALR
      then let taken = dnpc \<noteq> snpc; q = pcs s (pc_slot pc);
               s = upd_phase phase (\<lambda>p. p\<lparr>ph_control := ph_control p + 1,
                     ph_taken := ph_taken p + of_b taken\<rparr>) s;
               s = s\<lparr>pcs := (pcs s)(pc_slot pc := q\<lparr>ps_taken := ps_taken q + of_b taken\<rparr>)\<rparr>;
               s = (if k = K_BRANCH then s\<lparr>branches := prof_branch (branches s) x taken\<rparr> else s);
               t = btbs s; btb32_before = snd (btb32 t);
               (rtl_current_wrong, rtl) = model_rtl_btb32 (rtl_btb32 t) pc dnpc x k taken False;
               (rtl_candidate_wrong, rtl_skip) =
                 model_rtl_btb32 (rtl_btb32_skip_not_taken t) pc dnpc x k taken True;
               t = t\<lparr>btb16 := btb_model (btb16 t) 16 pc dnpc k taken False,
                     btb32 := btb_model (btb32 t) 32 pc dnpc k taken False,
                     btb64 := btb_model (btb64 t) 64 pc dnpc k taken False,
                     btb128 := btb_model (btb128 t) 128 pc dnpc k taken False,
                     btb16j := btb_model (btb16j t) 16 pc dnpc k taken True,
                     btb32j := btb_model (btb32j t) 32 pc dnpc k taken True,
                     btb32_stored_jalr_not_predicted := model_stored_jalr_not_predicted
                       (btb32_stored_jalr_not_predicted t) 32 pc dnpc k taken,
                     rtl_btb32 := rtl, rtl_btb32_skip_not_taken := rtl_skip\<rparr>;
               c = branches s;
               s = s\<lparr>btbs := t, branches := c\<lparr>
                     rtl_btb32_miss := rtl_btb32_miss c + of_b rtl_current_wrong,
                     rtl_btb32_skip_not_taken_miss := rtl_btb32_skip_not_taken_miss c
                       + of_b rtl_candidate_wrong,
                     branch_btb32_miss_backward_taken := branch_btb32_miss_backward_taken c
                       + of_b (k = K_BRANCH \<and> taken \<and> snd (btb32 t) \<noteq> btb32_before
                               \<and> sint (branch_imm x) < 0)\<rparr>\<rparr>
           in upd_phase phase (\<lambda>p. p\<lparr>ph_rtl_btb32_miss := ph_rtl_btb32_miss p + of_b rtl_current_wrong,
                ph_rtl_btb32_skip_not_taken_miss := ph_rtl_btb32_skip_not_taken_miss p
                  + of_b rtl_candidate_wrong\<rparr>) s
      else s)"

definition prof_jalr :: "basic_counts \<Rightarrow> u32 \<Rightarrow> u32 \<Rightarrow> basic_counts" where
  "prof_jalr b rd rs1 =
     b\<lparr>jalr_rd := bump (jalr_rd b) (if rd = 0 then 0 else if rd = 1 then 1 else 2),
       jalr_rs1 := bump (jalr_rs1 b) (if rs1 = 1 then 0 else if rs1 = 5 then 1 else 2)\<rparr>"

definition prof_region :: "u32 \<Rightarrow> nat" where
  "prof_region addr = (if addr < 0x10000000 then 0 else if addr < 0x80000000 then 1
     else if addr < 0x90000000 then 2 else if addr < 0xc0000000 then 3 else 4)"

text \<open>The loads and stores of the shadow caches.\<close>

definition prof_dcache_load ::
  "dcache_set \<Rightarrow> u32 \<Rightarrow> MemWidth \<Rightarrow> (bool \<times> bool \<times> bool \<times> (nat \<Rightarrow> bool)) \<times> dcache_set" where
  "prof_dcache_load d addr width =
     (let current_eligible = (dcacheable addr \<and> width = W_WORD \<and> aligned_for_width addr width);
          proposed_eligible = (dcacheable addr \<and> aligned_for_width addr width);
          (current_hit, cur) = dcache_load (current_dcache d) addr width current_eligible;
          (rtl_hit, rtl) = dcache_load (rtl_dcache d) addr width proposed_eligible;
          (proposed_hit, prp) = dcache_load (proposed_dcache d) addr width proposed_eligible;
          (h2, d2) = assoc_load (dcache_2way d) addr width proposed_eligible;
          (h4, d4) = assoc_load (dcache_4way d) addr width proposed_eligible;
          (h8, d8) = assoc_load (dcache_8way d) addr width proposed_eligible
      in ((current_hit, rtl_hit, proposed_hit, (\<lambda>i. [h2, h4, h8] ! i)),
          d\<lparr>current_dcache := cur, rtl_dcache := rtl, proposed_dcache := prp,
            dcache_2way := d2, dcache_4way := d4, dcache_8way := d8\<rparr>))"

definition prof_dcache_store :: "dcache_set \<Rightarrow> u32 \<Rightarrow> MemWidth \<Rightarrow> dcache_set" where
  "prof_dcache_store d addr width =
     d\<lparr>current_dcache := current_dcache_store (current_dcache d) addr width,
       rtl_dcache := rtl_dcache_store (rtl_dcache d) addr width,
       proposed_dcache := proposed_dcache_store (proposed_dcache d) addr width,
       dcache_2way := assoc_store (dcache_2way d) addr width,
       dcache_4way := assoc_store (dcache_4way d) addr width,
       dcache_8way := assoc_store (dcache_8way d) addr width\<rparr>"

definition prof_mem :: "prof \<Rightarrow> u32 \<Rightarrow> u32 \<Rightarrow> Kind \<Rightarrow> u32 \<Rightarrow> u32 \<Rightarrow> nat \<Rightarrow> prof" where
  "prof_mem s pc x k rd rs1_before phase =
     (let s = s\<lparr>distance2_load := previous_load s\<rparr>;
          s = s\<lparr>previous_load := (previous_load s)\<lparr>pl_valid := False\<rparr>\<rparr>
      in if k = K_LOAD \<or> k = K_STORE
      then let imm = (if k = K_LOAD then sext (drop_bit 20 x) 12
                      else sext (push_bit 5 (drop_bit 25 x) OR (drop_bit 7 x AND 31)) 12);
               addr = rs1_before + imm;
               width = memory_width x (k = K_LOAD); b = basic s;
               s = s\<lparr>basic := b\<lparr>widths := bump (widths b) width,
                     regions := bump (regions b) (prof_region addr),
                     aliases := bump (aliases b) (unat (addr AND 511))\<rparr>\<rparr>
           in if k = K_LOAD
              then let s = upd_phase phase (\<lambda>p. p\<lparr>ph_load := ph_load p + 1\<rparr>) s;
                       ((current_hit, rtl_hit, proposed_hit, assoc_hit), d) =
                         prof_dcache_load (dcaches s) addr width;
                       s = s\<lparr>dcaches := d\<rparr>
                   in if rd \<noteq> 0
                      then s\<lparr>previous_load := \<lparr>pl_pc = pc, pl_rd = rd, pl_width = width,
                             pl_current_hit = current_hit, pl_rtl_hit = rtl_hit,
                             pl_proposed_hit = proposed_hit, pl_assoc_hit = assoc_hit,
                             pl_d1_state_diff = False, pl_valid = True\<rparr>\<rparr>
                      else s
              else let s = upd_phase phase (\<lambda>p. p\<lparr>ph_store := ph_store p + 1\<rparr>) s
                   in s\<lparr>dcaches := prof_dcache_store (dcaches s) addr width\<rparr>
      else s)"

definition prof_writes :: "prof \<Rightarrow> u32 \<Rightarrow> Kind \<Rightarrow> u32 \<Rightarrow> u64 \<Rightarrow> prof" where
  "prof_writes s op k rd seq =
     (if k \<noteq> K_BRANCH \<and> k \<noteq> K_STORE \<and> op \<noteq> 0x0f \<and> rd \<noteq> 0
      then s\<lparr>last_write := (last_write s)(unat rd := seq), last_kind := (last_kind s)(unat rd := k)\<rparr>
      else s)"

text \<open>
  The recorder. The fields \<open>pc\<close>, \<open>snpc\<close> and \<open>dnpc\<close> of the \<open>Decode\<close> argument are passed on their own.
\<close>

definition riscv_profile_record ::
  "prof \<Rightarrow> u32 \<Rightarrow> u32 \<Rightarrow> u32 \<Rightarrow> u32 \<Rightarrow> u32 \<Rightarrow> u32 \<Rightarrow> (err, prof) result" where
  "riscv_profile_record s pc snpc dnpc x rs1_before rs2_before =
     (let k = kind_of x; op = f_op x; rd = f_rd x; rs1 = f_rs1 x; rs2 = f_rs2 x;
          use1 = (\<not> (op = 0x37 \<or> op = 0x17 \<or> op = 0x6f));
          use2 = (op = 0x33 \<or> op = 0x23 \<or> op = 0x63 \<or> op = 0x0b);
          seq = total (basic s) + 1;
          phase = unat (seq - 1) div PHASE_LEN
      in if MAX_PHASES \<le> phase then Inl Overrun
      else let s = s\<lparr>basic := (basic s)\<lparr>total := seq, kinds := bump (kinds (basic s)) k\<rparr>\<rparr>;
               s = upd_phase phase (\<lambda>p. p\<lparr>ph_inst := ph_inst p + 1\<rparr>) s;
               s = prof_miss_deps s x rd rs1 rs2 use1 use2;
               s = prof_masked s x k rs1 rs2 use1 use2;
               s = record_immediate_load_raw s pc x k rs1 rs2 use1 use2 phase;
               s = prof_pcs s pc;
               s = prof_raw1 seq k phase use1 rs1 s;
               s = prof_raw1 seq k phase use2 rs2 s;
               s = s\<lparr>basic := prof_ops (basic s) x k rs1_before rs2_before\<rparr>;
               s = prof_control s pc snpc dnpc x k phase;
               s = (if k = K_JALR then s\<lparr>basic := prof_jalr (basic s) rd rs1\<rparr> else s);
               s = prof_mem s pc x k rd rs1_before phase
           in Inr (prof_writes s op k rd seq))"

section \<open>The invariant of the recorder\<close>

definition masked_ok :: "masked_counts \<Rightarrow> bool" where
  "masked_ok m \<longleftrightarrow> (\<forall>i. masked_store_lost_hit m i = 0 \<and>
     masked_store_candidate_hit m i = masked_store_baseline_hit m i + masked_store_incremental_hit m i)"

definition loads_ok :: "load_counts \<Rightarrow> bool" where
  "loads_ok l \<longleftrightarrow> (\<forall>i. load_raw_proposed_hit l i + load_raw_lost_hit l i
     = load_raw_current_hit l i + load_raw_incremental_hit l i)"

definition branches_ok :: "branch_counts \<Rightarrow> bool" where
  "branches_ok c \<longleftrightarrow>
     branch_total c = branch_backward c + branch_forward_taken c + branch_forward_not_taken c
     \<and> branch_backward c = branch_backward_taken c + branch_backward_not_taken c
     \<and> branch_taken c = branch_backward_taken c + branch_forward_taken c
     \<and> branch_static_backward_miss c = branch_backward_not_taken c + branch_forward_taken c
     \<and> branch_static_not_taken_miss c = branch_taken c"

definition kinds_total :: "basic_counts \<Rightarrow> u64" where
  "kinds_total b = (\<Sum>k\<leftarrow>[K_ALU, K_BRANCH, K_JAL, K_JALR, K_LOAD, K_STORE, K_M, K_B, K_CRC, K_SYSTEM,
     K_OTHER]. kinds b k)"

definition dcaches_ok :: "dcache_set \<Rightarrow> bool" where
  "dcaches_ok d \<longleftrightarrow> dcache_sub (fst (rtl_dcache d)) (fst (proposed_dcache d))
     \<and> stat_ok (snd (current_dcache d)) \<and> stat_ok (snd (rtl_dcache d)) \<and> stat_ok (snd (proposed_dcache d))"

definition load_ok :: "PreviousLoad \<Rightarrow> bool" where
  "load_ok l \<longleftrightarrow> (pl_rtl_hit l \<longrightarrow> pl_proposed_hit l)"

definition prof_ok :: "prof \<Rightarrow> bool" where
  "prof_ok s \<longleftrightarrow> masked_ok (masked s) \<and> loads_ok (loads s) \<and> branches_ok (branches s)
     \<and> kinds_total (basic s) = total (basic s) \<and> dcaches_ok (dcaches s)
     \<and> load_ok (previous_load s) \<and> load_ok (distance2_load s)"

lemma phase_frame [simp]:
  "masked (upd_phase i f s) = masked s" "loads (upd_phase i f s) = loads s"
  "branches (upd_phase i f s) = branches s" "basic (upd_phase i f s) = basic s"
  "dcaches (upd_phase i f s) = dcaches s" "previous_load (upd_phase i f s) = previous_load s"
  "distance2_load (upd_phase i f s) = distance2_load s"
  by (simp_all add: upd_phase_def)

lemma prof_ok_phase [simp]: "prof_ok (upd_phase i f s) = prof_ok s"
  by (simp add: prof_ok_def)

lemma kinds_total_bump: "kinds_total (b\<lparr>total := t, kinds := bump (kinds b) k\<rparr>) = kinds_total b + 1"
  by (cases k) (simp_all add: kinds_total_def bump_def)

lemma prof_ok_count:
  "prof_ok s \<Longrightarrow>
   prof_ok (s\<lparr>basic := (basic s)\<lparr>total := total (basic s) + 1, kinds := bump (kinds (basic s)) k\<rparr>\<rparr>)"
  by (simp add: prof_ok_def kinds_total_bump)

lemma prof_ok_miss_deps: "prof_ok s \<Longrightarrow> prof_ok (prof_miss_deps s x rd rs1 rs2 use1 use2)"
  by (simp add: prof_ok_def prof_miss_deps_def Let_def masked_ok_def kinds_total_def)

lemma record_masked_ok:
  assumes "masked_ok m" "load_ok l"
  shows "masked_ok (snd (record_masked_store_update_saving l m d x k rs1 rs2 use1 use2))"
    "load_ok (fst (record_masked_store_update_saving l m d x k rs1 rs2 use1 use2))"
proof -
  obtain l' m' where r:
    "record_masked_store_update_saving l m d x k rs1 rs2 use1 use2 = (l', m')"
    by fastforce
  have "masked_ok m'" "load_ok l'"
    using r assms
    by (auto simp: record_masked_store_update_saving_def Let_def masked_ok_def load_ok_def
        bump_if_def of_b_def split: if_splits)
  then show "masked_ok (snd (record_masked_store_update_saving l m d x k rs1 rs2 use1 use2))"
    "load_ok (fst (record_masked_store_update_saving l m d x k rs1 rs2 use1 use2))"
    by (simp_all add: r)
qed

lemma prof_ok_masked: "prof_ok s \<Longrightarrow> prof_ok (prof_masked s x k rs1 rs2 use1 use2)"
  using record_masked_ok
  by (auto simp: prof_ok_def prof_masked_def Let_def split: prod.split) (metis fst_conv snd_conv)+

lemma loads_ok_count: "loads_ok l \<Longrightarrow> loads_ok (count_load_raw l x w k sm e c p)"
  by (auto simp: loads_ok_def count_load_raw_def Let_def bump_if_def of_b_def)

lemma prof_ok_load_raw:
  "prof_ok s \<Longrightarrow> prof_ok (record_immediate_load_raw s pc x k rs1 rs2 use1 use2 ph)"
  by (simp add: prof_ok_def record_immediate_load_raw_def Let_def loads_ok_count
      split: option.split prod.split)

lemma prof_ok_pcs: "prof_ok s \<Longrightarrow> prof_ok (prof_pcs s pc)"
  by (simp add: prof_ok_def prof_pcs_def Let_def)

lemma prof_ok_raw1: "prof_ok s \<Longrightarrow> prof_ok (prof_raw1 seq k ph use r s)"
  by (simp add: prof_ok_def prof_raw1_def Let_def kinds_total_def)

lemma prof_ops_frame:
  "kinds (prof_ops b x k r1 r2) = kinds b" "total (prof_ops b x k r1 r2) = total b"
  by (simp_all add: prof_ops_def Let_def)

lemma prof_ok_ops: "prof_ok s \<Longrightarrow> prof_ok (s\<lparr>basic := prof_ops (basic s) x k r1 r2\<rparr>)"
  by (simp add: prof_ok_def prof_ops_frame kinds_total_def)

lemma branches_ok_branch: "branches_ok c \<Longrightarrow> branches_ok (prof_branch c x taken)"
  by (auto simp: branches_ok_def prof_branch_def Let_def of_b_def)

lemma prof_ok_control: "prof_ok s \<Longrightarrow> prof_ok (prof_control s pc snpc dnpc x k ph)"
  using branches_ok_branch
  by (auto simp: prof_ok_def prof_control_def Let_def branches_ok_def split: prod.split)

lemma prof_ok_jalr: "prof_ok s \<Longrightarrow> prof_ok (s\<lparr>basic := prof_jalr (basic s) rd rs1\<rparr>)"
  by (simp add: prof_ok_def prof_jalr_def kinds_total_def)

lemma dcaches_ok_load:
  assumes "dcaches_ok d" "prof_dcache_load d addr w = ((c, r, p, a), d')"
  shows "dcaches_ok d'" "r \<Longrightarrow> p"
proof -
  let ?e = "dcacheable addr \<and> aligned_for_width addr w"
  let ?ec = "dcacheable addr \<and> w = W_WORD \<and> aligned_for_width addr w"
  have d': "current_dcache d' = snd (dcache_load (current_dcache d) addr w ?ec)"
    "rtl_dcache d' = snd (dcache_load (rtl_dcache d) addr w ?e)"
    "proposed_dcache d' = snd (dcache_load (proposed_dcache d) addr w ?e)"
    "r = fst (dcache_load (rtl_dcache d) addr w ?e)"
    "p = fst (dcache_load (proposed_dcache d) addr w ?e)"
    using assms(2) by (auto simp: prof_dcache_load_def Let_def split: prod.splits)
  have "dcache_sub (fst (rtl_dcache d)) (fst (proposed_dcache d))"
    using assms(1) by (simp add: dcaches_ok_def)
  note sub = dcache_sub_load [OF this, of addr w ?e]
  show "dcaches_ok d'"
    using assms(1) sub(1) by (simp add: dcaches_ok_def d' stat_ok_load)
  show "r \<Longrightarrow> p"
    using sub(2) by (simp add: d')
qed

lemma dcaches_ok_store: "dcaches_ok d \<Longrightarrow> dcaches_ok (prof_dcache_store d addr w)"
  by (simp add: dcaches_ok_def prof_dcache_store_def dcache_sub_store stat_ok_store)

lemma prof_ok_mem: "prof_ok s \<Longrightarrow> prof_ok (prof_mem s pc x k rd r1 ph)"
  using dcaches_ok_load [of "dcaches s"] dcaches_ok_store
  by (auto simp: prof_ok_def prof_mem_def Let_def load_ok_def kinds_total_def split: prod.split)

lemma prof_ok_writes: "prof_ok s \<Longrightarrow> prof_ok (prof_writes s op k rd seq)"
  by (simp add: prof_ok_def prof_writes_def)

lemma riscv_profile_record_ok:
  "riscv_profile_record s pc snpc dnpc x r1 r2 = Inr s' \<Longrightarrow> prof_ok s \<Longrightarrow> prof_ok s'"
  unfolding riscv_profile_record_def Let_def
  by (auto simp: prof_ok_count prof_ok_miss_deps prof_ok_masked prof_ok_load_raw prof_ok_pcs
      prof_ok_raw1 prof_ok_ops prof_ok_control prof_ok_jalr prof_ok_mem prof_ok_writes
      split: if_splits)

text \<open>A run of the recorder: one event per executed instruction.\<close>

record prof_event =
  pe_pc :: u32
  pe_snpc :: u32
  pe_dnpc :: u32
  pe_inst :: u32
  pe_rs1 :: u32
  pe_rs2 :: u32

fun prof_run :: "prof \<Rightarrow> prof_event list \<Rightarrow> (err, prof) result" where
  "prof_run s [] = Inr s"
| "prof_run s (e # es) =
     rbind (riscv_profile_record s (pe_pc e) (pe_snpc e) (pe_dnpc e) (pe_inst e) (pe_rs1 e) (pe_rs2 e))
       (\<lambda>s. prof_run s es)"

lemma prof_run_ok: "prof_run s es = Inr s' \<Longrightarrow> prof_ok s \<Longrightarrow> prof_ok s'"
  by (induction es arbitrary: s) (auto simp: rbind_Inr_iff dest: riscv_profile_record_ok)

lemma total_stages:
  "total (basic (prof_miss_deps s x rd rs1 rs2 use1 use2)) = total (basic s)"
  "total (basic (prof_masked s x k rs1 rs2 use1 use2)) = total (basic s)"
  "total (basic (record_immediate_load_raw s pc x k rs1 rs2 use1 use2 ph)) = total (basic s)"
  "total (basic (prof_pcs s pc)) = total (basic s)"
  "total (basic (prof_raw1 seq k ph use r s)) = total (basic s)"
  "total (basic (prof_control s pc snpc dnpc x k ph)) = total (basic s)"
  "total (basic (prof_mem s pc x k rd r1 ph)) = total (basic s)"
  "total (basic (prof_writes s op k rd seq)) = total (basic s)"
  "total (prof_jalr b rd rs1) = total b"
  by (simp_all add: prof_miss_deps_def prof_masked_def record_immediate_load_raw_def prof_pcs_def
      prof_raw1_def prof_control_def prof_mem_def prof_writes_def prof_jalr_def Let_def
      split: prod.split option.split)

lemma record_total:
  "riscv_profile_record s pc snpc dnpc x r1 r2 = Inr s' \<Longrightarrow> total (basic s') = total (basic s) + 1"
  by (auto simp: riscv_profile_record_def Let_def total_stages prof_ops_frame split: if_splits)

lemma record_ok_iff:
  "(\<exists>s'. riscv_profile_record s pc snpc dnpc x r1 r2 = Inr s')
     \<longleftrightarrow> unat (total (basic s)) < MAX_PHASES * PHASE_LEN"
  by (auto simp: riscv_profile_record_def Let_def not_le less_mult_imp_div_less
      div_less_iff_less_mult PHASE_LEN_def MAX_PHASES_def split: if_splits)

lemma record_overrun:
  "MAX_PHASES * PHASE_LEN \<le> unat (total (basic s)) \<Longrightarrow>
   riscv_profile_record s pc snpc dnpc x r1 r2 = Inl Overrun"
  by (simp add: riscv_profile_record_def Let_def PHASE_LEN_def MAX_PHASES_def
      less_eq_div_iff_mult_less_eq)

lemma prof_run_total:
  "unat (total (basic s)) + length es \<le> MAX_PHASES * PHASE_LEN \<Longrightarrow>
   \<exists>s'. prof_run s es = Inr s' \<and> unat (total (basic s')) = unat (total (basic s)) + length es"
proof (induction es arbitrary: s)
  case Nil
  then show ?case by simp
next
  case (Cons e es)
  have "unat (total (basic s)) < MAX_PHASES * PHASE_LEN"
    using Cons.prems by simp
  then obtain t where t: "riscv_profile_record s (pe_pc e) (pe_snpc e) (pe_dnpc e) (pe_inst e)
      (pe_rs1 e) (pe_rs2 e) = Inr t"
    using record_ok_iff by blast
  have "unat (total (basic t)) = Suc (unat (total (basic s)))"
    using record_total [OF t] Cons.prems
    by (simp add: MAX_PHASES_def PHASE_LEN_def unat_word_ariths)
  then show ?case
    using Cons.IH [of t] Cons.prems t by auto
qed

section \<open>The initial state\<close>

definition clear_phase :: Phase where
  "clear_phase = \<lparr>ph_inst = 0, ph_control = 0, ph_taken = 0, ph_load = 0, ph_store = 0, ph_raw = 0,
     ph_current_bypass = 0, ph_proposed_bypass = 0, ph_incremental_bypass = 0, ph_lost_bypass = 0,
     ph_proposed_bypass_by_width = (\<lambda>_. 0), ph_late_load_branch_eligible = 0,
     ph_late_load_branch_hit = 0, ph_rtl_btb32_miss = 0, ph_rtl_btb32_skip_not_taken_miss = 0\<rparr>"

definition clear_pair :: LoadPairStat where
  "clear_pair = \<lparr>lp_producer_pc = 0, lp_consumer_pc = 0, lp_count = 0, lp_eligible = 0,
     lp_current_hit = 0, lp_proposed_hit = 0, lp_incremental_hit = 0, lp_lost_hit = 0,
     lp_assoc_hit = (\<lambda>_. 0), lp_source = (\<lambda>_. 0), lp_width = W_BYTE, lp_consumer = K_ALU,
     lp_used = False\<rparr>"

definition clear_load :: PreviousLoad where
  "clear_load = \<lparr>pl_pc = 0, pl_rd = 0, pl_width = W_BYTE, pl_current_hit = False, pl_rtl_hit = False,
     pl_proposed_hit = False, pl_assoc_hit = (\<lambda>_. False), pl_d1_state_diff = False, pl_valid = False\<rparr>"

definition clear_basic :: basic_counts where
  "clear_basic = \<lparr>total = 0, kinds = (\<lambda>_. 0), mops = (\<lambda>_. 0), bops = (\<lambda>_. 0), crcops = (\<lambda>_. 0),
     raw_dist = (\<lambda>_. 0), xaccel_ops = (\<lambda>_. 0), xaccel_units = (\<lambda>_. 0), xaccel_cycles = (\<lambda>_. 0),
     xdfacnt_ops = (\<lambda>_. 0), pack_rs2_zero = 0, pack_rs1_upper_zero = 0, pack_matches_xor = 0,
     miss_consumer_successor_deps = 0, m_divide_by_zero = 0, m_signed_overflow = 0,
     prod_cons = (\<lambda>_. 0), widths = (\<lambda>_. 0), regions = (\<lambda>_. 0), aliases = (\<lambda>_. 0),
     jalr_rd = (\<lambda>_. 0), jalr_rs1 = (\<lambda>_. 0)\<rparr>"

definition clear_loads :: load_counts where
  "clear_loads = \<lparr>load_raw = (\<lambda>_. 0), load_raw_source = (\<lambda>_. 0), load_raw_eligible = (\<lambda>_. 0),
     load_raw_current_hit = (\<lambda>_. 0), load_raw_proposed_hit = (\<lambda>_. 0),
     load_raw_incremental_hit = (\<lambda>_. 0), load_raw_lost_hit = (\<lambda>_. 0), load_m_raw = (\<lambda>_. 0),
     load_m_raw_eligible = (\<lambda>_. 0), load_m_raw_current_hit = (\<lambda>_. 0),
     load_m_raw_proposed_hit = (\<lambda>_. 0), load_branch_raw = (\<lambda>_. 0), load_branch_eligible = (\<lambda>_. 0),
     load_branch_current_hit = (\<lambda>_. 0), load_branch_proposed_hit = (\<lambda>_. 0)\<rparr>"

definition clear_masked :: masked_counts where
  "clear_masked = \<lparr>masked_store_baseline_hit = (\<lambda>_. 0), masked_store_candidate_hit = (\<lambda>_. 0),
     masked_store_incremental_hit = (\<lambda>_. 0), masked_store_lost_hit = (\<lambda>_. 0),
     masked_store_baseline_miss_successor_deps = 0, masked_store_candidate_miss_successor_deps = 0\<rparr>"

definition clear_branches :: branch_counts where
  "clear_branches = \<lparr>branch_total = 0, branch_taken = 0, branch_backward = 0, branch_backward_taken = 0,
     branch_backward_not_taken = 0, branch_forward_taken = 0, branch_forward_not_taken = 0,
     branch_static_backward_miss = 0, branch_static_not_taken_miss = 0,
     branch_btb32_miss_backward_taken = 0, rtl_btb32_miss = 0, rtl_btb32_skip_not_taken_miss = 0\<rparr>"

definition clear_dcache :: dcache where
  "clear_dcache = (\<lambda>_. \<lparr>dc_tag = 0, dc_valid = False\<rparr>)"

text \<open>The static variables before the first instruction, with an output path set.\<close>

definition prof_init :: prof where
  "prof_init = \<lparr>out_path = True, basic = clear_basic, loads = clear_loads, masked = clear_masked,
     branches = clear_branches,
     btbs = \<lparr>btb16 = (empty_btb, 0), btb32 = (empty_btb, 0), btb64 = (empty_btb, 0),
       btb128 = (empty_btb, 0), btb16j = (empty_btb, 0), btb32j = (empty_btb, 0),
       btb32_stored_jalr_not_predicted = (empty_btb, 0), rtl_btb32 = empty_btb,
       rtl_btb32_skip_not_taken = empty_btb\<rparr>,
     dcaches = \<lparr>current_dcache = (clear_dcache, clear_stat), rtl_dcache = (clear_dcache, clear_stat),
       proposed_dcache = (clear_dcache, clear_stat), dcache_2way = clear_assoc 256 2,
       dcache_4way = clear_assoc 128 4, dcache_8way = clear_assoc 64 8\<rparr>,
     phases = (\<lambda>_. clear_phase), pcs = (\<lambda>_. \<lparr>ps_pc = 0, ps_n = 0, ps_taken = 0\<rparr>),
     load_pairs = (\<lambda>_. clear_pair), pair_table_full = 0, previous_load = clear_load,
     distance2_load = clear_load, last_write = (\<lambda>_. 0), last_kind = (\<lambda>_. K_ALU),
     previous_miss_consumer_rd = 0, masked_baseline_miss_consumer_rd = 0,
     masked_candidate_miss_consumer_rd = 0\<rparr>"

lemma prof_ok_init: "prof_ok prof_init"
  by (simp add: prof_ok_def prof_init_def masked_ok_def clear_masked_def loads_ok_def clear_loads_def
      branches_ok_def clear_branches_def kinds_total_def clear_basic_def dcaches_ok_def dcache_sub_def
      clear_dcache_def stat_ok_def clear_stat_def load_ok_def clear_load_def)

lemma total_init [simp]: "total (basic prof_init) = 0"
  by (simp add: prof_init_def clear_basic_def)

section \<open>Properties of a profiling run\<close>

lemma run_from_init:
  assumes "length es \<le> MAX_PHASES * PHASE_LEN"
  shows "\<exists>s'. prof_run prof_init es = Inr s' \<and> prof_ok s' \<and> total (basic s') = of_nat (length es)"
proof -
  obtain s' where s': "prof_run prof_init es = Inr s'" "unat (total (basic s')) = length es"
    using prof_run_total [of prof_init es] assms by auto
  then have "total (basic s') = of_nat (length es)"
    by (simp flip: s'(2))
  then show ?thesis
    using s' prof_run_ok [OF _ prof_ok_init] by blast
qed

text \<open>
  C6. The profile adds up. Recording any instruction sequence of at most 128 phases from the cleared
  state succeeds, and the counters then agree with each other: the categories sum to the
  instruction count, every branch is counted once by direction and outcome, the static predictor
  misses are exactly the branches those predictors get wrong, and in every data cache hits and
  misses sum to accesses.
\<close>

theorem profile_adds_up:
  assumes "length es \<le> MAX_PHASES * PHASE_LEN"
  shows "\<exists>s'. prof_run prof_init es = Inr s'
    \<and> total (basic s') = of_nat (length es) \<and> kinds_total (basic s') = total (basic s')
    \<and> branch_total (branches s') = branch_backward_taken (branches s')
        + branch_backward_not_taken (branches s') + branch_forward_taken (branches s')
        + branch_forward_not_taken (branches s')
    \<and> branch_static_backward_miss (branches s') = branch_backward_not_taken (branches s')
        + branch_forward_taken (branches s')
    \<and> branch_static_not_taken_miss (branches s') = branch_taken (branches s')
    \<and> (\<forall>st w. st = current_dcache (dcaches s') \<or> st = rtl_dcache (dcaches s')
         \<or> st = proposed_dcache (dcaches s') \<longrightarrow>
         load_access (snd st) w = load_hit (snd st) w + load_miss (snd st) w)"
  using run_from_init [OF assms]
  by (auto simp: prof_ok_def branches_ok_def dcaches_ok_def stat_ok_def)

definition sample_events :: "prof_event list" where
  "sample_events =
     [\<lparr>pe_pc = 0x80000000, pe_snpc = 0x80000004, pe_dnpc = 0x80000004, pe_inst = 0x0005a503,
       pe_rs1 = 0x80100000, pe_rs2 = 0\<rparr>,
      \<lparr>pe_pc = 0x80000004, pe_snpc = 0x80000008, pe_dnpc = 0x80000000, pe_inst = 0xfe051ee3,
       pe_rs1 = 1, pe_rs2 = 0\<rparr>]"

theorem profile_adds_up_witness:
  "\<exists>s'. prof_run prof_init sample_events = Inr s' \<and> kinds_total (basic s') = 2"
  using profile_adds_up [of sample_events] by (auto simp: sample_events_def MAX_PHASES_def PHASE_LEN_def)

text \<open>
  C35. Keeping partially stored lines never costs a hit: in every profiling run the lost-hit counters
  of the masked-store comparison stay 0, and the candidate's hits are the baseline's hits plus the
  incremental ones, at both distances and for every width.
\<close>

theorem masked_update_never_loses:
  assumes "prof_run prof_init es = Inr s'"
  shows "masked_store_lost_hit (masked s') i = 0
    \<and> masked_store_candidate_hit (masked s') i
      = masked_store_baseline_hit (masked s') i + masked_store_incremental_hit (masked s') i"
  using prof_run_ok [OF assms prof_ok_init] by (cases i) (simp add: prof_ok_def masked_ok_def)

theorem masked_update_never_loses_witness:
  "\<exists>s'. prof_run prof_init sample_events = Inr s' \<and> masked_store_lost_hit (masked s') (0, W_BYTE) = 0"
proof -
  obtain s' where "prof_run prof_init sample_events = Inr s'"
    using run_from_init [of sample_events] by (auto simp: sample_events_def MAX_PHASES_def PHASE_LEN_def)
  then show ?thesis
    using masked_update_never_loses [of sample_events s' "(0, W_BYTE)"] by blast
qed

lemma prof_run_append: "prof_run s (xs @ ys) = rbind (prof_run s xs) (\<lambda>s. prof_run s ys)"
  by (induction xs arbitrary: s) (simp_all add: rbind_assoc)

text \<open>
  C36. A run of more than 128 phases of sixteen million instructions writes past the end of
  \<open>phases\<close>: the recorder never checks the phase index.
\<close>

theorem profile_phase_overrun:
  assumes "MAX_PHASES * PHASE_LEN < length es"
  shows "prof_run prof_init es = Inl Overrun"
proof -
  let ?n = "MAX_PHASES * PHASE_LEN"
  obtain s' where s': "prof_run prof_init (take ?n es) = Inr s'" "unat (total (basic s')) = ?n"
    using prof_run_total [of prof_init "take ?n es"] assms by auto
  obtain e es' where "drop ?n es = e # es'"
    using assms by (cases "drop ?n es") auto
  then have "prof_run prof_init es = rbind (prof_run prof_init (take ?n es)) (\<lambda>s. prof_run s (e # es'))"
    by (metis append_take_drop_id prof_run_append)
  then show ?thesis
    using s' by (simp add: record_overrun)
qed

theorem profile_phase_overrun_witness:
  "prof_run prof_init (replicate 2048000001 (hd sample_events)) = Inl Overrun"
  by (rule profile_phase_overrun) (simp add: MAX_PHASES_def PHASE_LEN_def)

section \<open>The table of instruction addresses\<close>

lemma pc_slot_nat: "pc_slot pc = unat pc div 4 * 2654435761 mod 2 ^ 20"
proof -
  have "pc_slot pc = unat (take_bit 20 (drop_bit 2 pc * 2654435761))"
    by (simp add: pc_slot_def PC_SLOTS_def take_bit_eq_mask mask_eq_exp_minus_1)
  also have "\<dots> = unat (drop_bit 2 pc * 2654435761) mod 2 ^ 20"
    using unat_field [of 20 0 "drop_bit 2 pc * 2654435761"] by simp
  also have "\<dots> = unat pc div 4 * 2654435761 mod 2 ^ 32 mod 2 ^ 20"
    by (simp add: unat_word_ariths unat_drop_bit)
  finally show ?thesis
    by (simp add: mod_mod_cancel)
qed

lemma same_residue_near:
  assumes "(x :: nat) mod m = y mod m" "x \<le> y" "y - x < m"
  shows "x = y"
proof -
  have "m dvd y - x"
    using assms(1,2) mod_eq_dvd_iff_nat [of x y m] by simp
  then have "y - x = 0"
    using assms(3) nat_dvd_not_less by blast
  then show ?thesis
    using assms(2) by simp
qed

lemma same_window:
  assumes "(x :: nat) mod m = y mod m" "b \<le> x" "x < b + m" "b \<le> y" "y < b + m"
  shows "x = y"
  using same_residue_near [of x m y] same_residue_near [of y m x] assms by linarith

lemma hash_inverse:
  assumes "(x :: nat) * 2654435761 mod 2 ^ 20 = y * 2654435761 mod 2 ^ 20"
  shows "x mod 2 ^ 20 = y mod 2 ^ 20"
proof -
  have inv: "z * 2654435761 mod 2 ^ 20 * 733009 mod 2 ^ 20 = z mod 2 ^ 20" for z :: nat
  proof -
    have "z * 2654435761 mod 2 ^ 20 * 733009 mod 2 ^ 20 = z * (2654435761 * 733009 mod 2 ^ 20) mod 2 ^ 20"
      by (simp only: mod_mult_left_eq mod_mult_right_eq mult.assoc)
    then show ?thesis by simp
  qed
  show ?thesis
    using assms inv [of x] inv [of y] by simp
qed

text \<open>
  C37. The comment on the address table holds: two word-aligned instruction addresses of one window of
  4 MiB that fall into the same slot are the same address.
\<close>

theorem pc_slot_collision_free:
  assumes "pc_slot pc = pc_slot pc'" "unat pc mod 4 = 0" "unat pc' mod 4 = 0"
    "base \<le> unat pc" "unat pc < base + 2 ^ 22" "base \<le> unat pc'" "unat pc' < base + 2 ^ 22"
  shows "pc = pc'"
proof -
  have "unat pc div 4 mod 2 ^ 20 = unat pc' div 4 mod 2 ^ 20"
    by (rule hash_inverse [OF assms(1) [unfolded pc_slot_nat]])
  then have "unat pc div 4 * 4 mod (2 ^ 20 * 4) = unat pc' div 4 * 4 mod (2 ^ 20 * 4)"
    by (metis mult_mod_left)
  then have "unat pc mod 2 ^ 22 = unat pc' mod 2 ^ 22"
    using assms(2,3) by (simp add: minus_mod_eq_div_mult [symmetric])
  then have "unat pc = unat pc'"
    using assms(4-7) same_window by blast
  then show ?thesis
    by (simp add: word_unat_eq_iff)
qed

theorem pc_slot_collision_free_witness:
  "pc_slot 0x80001000 \<noteq> pc_slot 0x803ffffc"
  using pc_slot_collision_free [of "0x80001000" "0x803ffffc" "0x80000000"] by force

end
