(* ===== verification/Pair_Table.thy ===== *)
theory Pair_Table
  imports Profile
begin

text \<open>
  The hash table of load/consumer pairs (\<open>find_load_pair\<close> of \<open>nemu/src/isa/riscv32/profile.c\<close>) refines a
  table of counters: open addressing with linear probing never loses, duplicates or confuses a
  pair while the number of distinct pairs fits the table.
\<close>

section \<open>Counter tables\<close>

text \<open>What a client expects of a bounded table of counters, and what follows for a sequence of events.\<close>

fun add_all :: "('t \<Rightarrow> 'k \<Rightarrow> 'a \<Rightarrow> 't option) \<Rightarrow> 't \<Rightarrow> ('k \<times> 'a) list \<Rightarrow> 't option" where
  "add_all add t [] = Some t"
| "add_all add t ((k, a) # es) = (case add t k a of None \<Rightarrow> None | Some t' \<Rightarrow> add_all add t' es)"

locale counter_table =
  fixes invar :: "'t \<Rightarrow> bool"
    and keys :: "'t \<Rightarrow> 'k set"
    and cnt :: "'t \<Rightarrow> 'k \<Rightarrow> u64"
    and add :: "'t \<Rightarrow> 'k \<Rightarrow> 'a \<Rightarrow> 't option"
    and capacity :: nat
  assumes finite_keys: "invar t \<Longrightarrow> finite (keys t)"
    and add_ok: "invar t \<Longrightarrow> k \<in> keys t \<or> card (keys t) < capacity \<Longrightarrow>
      \<exists>t'. add t k a = Some t' \<and> invar t' \<and> keys t' = insert k (keys t)
         \<and> cnt t' = (cnt t)(k := cnt t k + 1)"
begin

lemma add_all_ok:
  assumes "invar t" "card (keys t \<union> fst ` set es) \<le> capacity"
  shows "\<exists>t'. add_all add t es = Some t' \<and> invar t' \<and> keys t' = keys t \<union> fst ` set es
     \<and> (\<forall>k. cnt t' k = cnt t k + of_nat (count_list (map fst es) k))"
  using assms
proof (induction es arbitrary: t)
  case Nil
  then show ?case by simp
next
  case (Cons e es)
  obtain k a where e: "e = (k, a)" by (cases e)
  have room: "k \<in> keys t \<or> card (keys t) < capacity"
  proof (rule disjCI)
    assume "\<not> card (keys t) < capacity"
    moreover have "card (insert k (keys t)) \<le> card (keys t \<union> fst ` set (e # es))"
      using finite_keys [OF Cons.prems(1)] e by (intro card_mono) auto
    ultimately show "k \<in> keys t"
      using Cons.prems(2) finite_keys [OF Cons.prems(1)] by (auto simp: card_insert_if split: if_splits)
  qed
  obtain t1 where t1: "add t k a = Some t1" "invar t1" "keys t1 = insert k (keys t)"
      "cnt t1 = (cnt t)(k := cnt t k + 1)"
    using add_ok [OF Cons.prems(1) room] by blast
  have "keys t1 \<union> fst ` set es = keys t \<union> fst ` set (e # es)"
    using t1(3) e by auto
  then show ?case
    using Cons.IH [OF t1(2)] Cons.prems(2) t1 e by (auto simp: add.commute add.left_commute)
qed

end

section \<open>The pair table\<close>

definition N_SLOTS :: nat where "N_SLOTS = 65536"

definition pair_add ::
  "(nat \<Rightarrow> LoadPairStat) \<Rightarrow> pair_key \<Rightarrow> nat \<times> bool \<times> bool \<times> bool \<times> (nat \<Rightarrow> bool)
   \<Rightarrow> (nat \<Rightarrow> LoadPairStat) option" where
  "pair_add t k a = (case a of (smask, eligible, current_hit, proposed_hit, assoc_hit) \<Rightarrow>
     case find_load_pair t k of
       None \<Rightarrow> None
     | Some (i, t') \<Rightarrow>
         Some (t'(i := count_pair (t' i) smask eligible current_hit proposed_hit assoc_hit)))"

definition pair_keys :: "(nat \<Rightarrow> LoadPairStat) \<Rightarrow> pair_key set" where
  "pair_keys t = {pair_key (t i) | i. i < N_SLOTS \<and> lp_used (t i)}"

text \<open>A used slot is on the probe path of its key, behind used slots of other keys only.\<close>

definition probed :: "(nat \<Rightarrow> LoadPairStat) \<Rightarrow> pair_key \<Rightarrow> nat \<Rightarrow> bool" where
  "probed t k p \<longleftrightarrow> (\<forall>q < p. lp_used (t (pair_slot k q)) \<and> pair_key (t (pair_slot k q)) \<noteq> k)"

definition pairs_ok :: "(nat \<Rightarrow> LoadPairStat) \<Rightarrow> bool" where
  "pairs_ok t \<longleftrightarrow> (\<forall>i < N_SLOTS. if lp_used (t i)
     then \<exists>p < N_SLOTS. pair_slot (pair_key (t i)) p = i \<and> probed t (pair_key (t i)) p
     else lp_count (t i) = 0)"

definition pair_cnt :: "(nat \<Rightarrow> LoadPairStat) \<Rightarrow> pair_key \<Rightarrow> u64" where
  "pair_cnt t k = (case find (\<lambda>i. lp_used (t i) \<and> pair_key (t i) = k) [0..<N_SLOTS] of
     None \<Rightarrow> 0 | Some i \<Rightarrow> lp_count (t i))"

lemma pair_slot_nat: "pair_slot k p = (unat (pair_hash k) + p) mod N_SLOTS"
proof -
  have "pair_slot k p = unat (take_bit 16 (pair_hash k + of_nat p))"
    by (simp add: pair_slot_def PAIR_SLOTS_def take_bit_eq_mask mask_eq_exp_minus_1)
  also have "\<dots> = unat (pair_hash k + of_nat p) mod 2 ^ 16"
    using unat_field [of 16 0 "pair_hash k + of_nat p"] by simp
  finally show ?thesis
    by (simp add: unat_word_ariths unat_of_nat take_bit_eq_mod mod_mod_cancel mod_add_right_eq N_SLOTS_def)
qed

lemma pair_slot_less [simp]: "pair_slot k p < N_SLOTS"
  by (simp add: pair_slot_nat N_SLOTS_def)

lemma pair_slot_inj:
  assumes "pair_slot k p = pair_slot k q" "p < N_SLOTS" "q < N_SLOTS"
  shows "p = q"
  using same_window [of "unat (pair_hash k) + p" N_SLOTS "unat (pair_hash k) + q" "unat (pair_hash k)"]
    assms by (simp add: pair_slot_nat)

lemma pair_slot_surj: "i < N_SLOTS \<Longrightarrow> \<exists>p < N_SLOTS. pair_slot k p = i"
proof -
  assume i: "i < N_SLOTS"
  have "inj_on (pair_slot k) {..<N_SLOTS}"
    by (auto intro!: inj_onI dest: pair_slot_inj)
  then have "pair_slot k ` {..<N_SLOTS} = {..<N_SLOTS}"
    by (intro endo_inj_surj) auto
  then show ?thesis
    using i by (metis imageE lessThan_iff)
qed

lemma pairs_okD:
  "pairs_ok t \<Longrightarrow> i < N_SLOTS \<Longrightarrow> lp_used (t i) \<Longrightarrow>
   \<exists>p < N_SLOTS. pair_slot (pair_key (t i)) p = i \<and> probed t (pair_key (t i)) p"
  by (auto simp: pairs_ok_def)

lemma pairs_ok_unique:
  assumes "pairs_ok t" "i < N_SLOTS" "j < N_SLOTS" "lp_used (t i)" "lp_used (t j)"
    "pair_key (t i) = pair_key (t j)"
  shows "i = j"
proof -
  let ?k = "pair_key (t i)"
  obtain p where p: "p < N_SLOTS" "pair_slot ?k p = i" "probed t ?k p"
    using pairs_okD [OF assms(1,2,4)] by blast
  obtain q where q: "q < N_SLOTS" "pair_slot ?k q = j" "probed t ?k q"
    using pairs_okD [OF assms(1,3,5)] assms(6) by auto
  have "\<not> p < q" "\<not> q < p"
    using p q assms(6) by (auto simp: probed_def)
  then show ?thesis
    using p q by simp
qed

lemma find_slot_iff:
  assumes "pairs_ok t"
  shows "find (\<lambda>i. lp_used (t i) \<and> pair_key (t i) = k) [0..<N_SLOTS] = Some i
    \<longleftrightarrow> i < N_SLOTS \<and> lp_used (t i) \<and> pair_key (t i) = k"
  using pairs_ok_unique [OF assms] by (subst find_unique) auto

lemma pair_cnt_used:
  "pairs_ok t \<Longrightarrow> i < N_SLOTS \<Longrightarrow> lp_used (t i) \<Longrightarrow> pair_cnt t (pair_key (t i)) = lp_count (t i)"
  using find_slot_iff [of t "pair_key (t i)" i] by (simp add: pair_cnt_def)

lemma pair_cnt_absent: "k \<notin> pair_keys t \<Longrightarrow> pair_cnt t k = 0"
  by (auto simp: pair_cnt_def pair_keys_def find_None_iff split: option.split simp: find_Some_iff)

definition claim :: "pair_key \<Rightarrow> LoadPairStat \<Rightarrow> LoadPairStat" where
  "claim k e = (case k of (producer_pc, consumer_pc, width, consumer) \<Rightarrow>
     e\<lparr>lp_used := True, lp_producer_pc := producer_pc, lp_consumer_pc := consumer_pc,
       lp_width := width, lp_consumer := consumer\<rparr>)"

lemma claim_sel [simp]: "pair_key (claim k e) = k" "lp_used (claim k e)" "lp_count (claim k e) = lp_count e"
  by (simp_all add: claim_def pair_key_def split: prod.split)

lemma count_pair_sel [simp]:
  "pair_key (count_pair e m el c p a) = pair_key e" "lp_used (count_pair e m el c p a) = lp_used e"
  "lp_count (count_pair e m el c p a) = lp_count e + 1"
  by (simp_all add: count_pair_def pair_key_def)

lemma loop_result:
  assumes "probed t k p" "p + n = N_SLOTS"
  shows "case find_load_pair_loop t k p n of
      None \<Rightarrow> probed t k N_SLOTS
    | Some (i, t') \<Rightarrow> \<exists>q < N_SLOTS. i = pair_slot k q \<and> probed t k q \<and>
        (if lp_used (t i) then pair_key (t i) = k \<and> t' = t else t' = t(i := claim k (t i)))"
  using assms
proof (induction n arbitrary: p)
  case 0
  then show ?case by simp
next
  case (Suc n)
  let ?i = "pair_slot k p"
  show ?case
  proof (cases "lp_used (t ?i) \<and> pair_key (t ?i) \<noteq> k")
    case True
    then have "probed t k (Suc p)"
      using Suc.prems(1) by (auto simp: probed_def less_Suc_eq)
    then show ?thesis
      using Suc.IH [of "Suc p"] Suc.prems(2) True by (simp add: Let_def)
  next
    case False
    then show ?thesis
      using Suc.prems
      by (cases k) (auto simp: Let_def claim_def intro!: exI [of _ p])
  qed
qed

lemma full_table:
  assumes "pairs_ok t" "probed t k N_SLOTS"
  shows "card (pair_keys t) = N_SLOTS" "k \<notin> pair_keys t"
proof -
  have used: "lp_used (t i) \<and> pair_key (t i) \<noteq> k" if "i < N_SLOTS" for i
    using pair_slot_surj [OF that, of k] assms(2) by (auto simp: probed_def)
  have "pair_keys t = (\<lambda>i. pair_key (t i)) ` {..<N_SLOTS}"
    using used by (auto simp: pair_keys_def)
  moreover have "inj_on (\<lambda>i. pair_key (t i)) {..<N_SLOTS}"
    using used pairs_ok_unique [OF assms(1)] by (auto intro!: inj_onI)
  ultimately show "card (pair_keys t) = N_SLOTS"
    by (simp add: card_image)
  show "k \<notin> pair_keys t"
    using used by (auto simp: pair_keys_def)
qed

lemma probed_upd:
  assumes "probed t k p" "\<not> lp_used (t i) \<or> lp_used e \<and> pair_key e = pair_key (t i)"
  shows "probed (t(i := e)) k p"
  using assms by (auto simp: probed_def)

lemma pairs_ok_upd:
  assumes "pairs_ok t" "i < N_SLOTS" "lp_used e"
    and "if lp_used (t i) then pair_key e = pair_key (t i)
         else \<exists>q < N_SLOTS. i = pair_slot (pair_key e) q \<and> probed t (pair_key e) q"
  shows "pairs_ok (t(i := e))"
proof -
  have pr: "probed (t(i := e)) k p" if "probed t k p" for k p
    using that assms(3,4) by (intro probed_upd) (auto split: if_splits)
  have "if lp_used ((t(i := e)) j)
        then \<exists>p < N_SLOTS. pair_slot (pair_key ((t(i := e)) j)) p = j
               \<and> probed (t(i := e)) (pair_key ((t(i := e)) j)) p
        else lp_count ((t(i := e)) j) = 0" if j: "j < N_SLOTS" for j
  proof (cases "j = i")
    case True
    have "\<exists>p < N_SLOTS. i = pair_slot (pair_key e) p \<and> probed t (pair_key e) p"
      using assms(4) pairs_okD [OF assms(1,2)] by (auto split: if_splits)
    then have "\<exists>p < N_SLOTS. pair_slot (pair_key e) p = i \<and> probed (t(i := e)) (pair_key e) p"
      using pr by metis
    then show ?thesis
      using True assms(3) by simp
  next
    case False
    then show ?thesis
      using assms(1) j pr by (auto simp: pairs_ok_def) (metis pr)
  qed
  then show ?thesis
    unfolding pairs_ok_def by blast
qed

lemma pair_keys_upd:
  assumes "i < N_SLOTS" "lp_used e" "lp_used (t i) \<Longrightarrow> pair_key e = pair_key (t i)"
  shows "pair_keys (t(i := e)) = insert (pair_key e) (pair_keys t)"
  using assms by (auto simp: pair_keys_def) (metis)+

lemma pair_cnt_upd:
  assumes "pairs_ok t" "pairs_ok (t(i := e))" "i < N_SLOTS" "lp_used e"
    "lp_used (t i) \<Longrightarrow> pair_key e = pair_key (t i)" "\<not> lp_used (t i) \<Longrightarrow> pair_key e \<notin> pair_keys t"
    "lp_count e = lp_count (t i) + 1"
  shows "pair_cnt (t(i := e)) = (pair_cnt t)(pair_key e := pair_cnt t (pair_key e) + 1)"
proof
  fix k
  show "pair_cnt (t(i := e)) k = ((pair_cnt t)(pair_key e := pair_cnt t (pair_key e) + 1)) k"
  proof (cases "k = pair_key e")
    case True
    have old: "pair_cnt t (pair_key e) = lp_count (t i)"
    proof (cases "lp_used (t i)")
      case True
      then show ?thesis
        using pair_cnt_used [OF assms(1,3)] assms(5) by simp
    next
      case False
      then show ?thesis
        using assms(1,3,6) by (simp add: pair_cnt_absent pairs_ok_def)
    qed
    have "pair_cnt (t(i := e)) (pair_key e) = lp_count e"
      using pair_cnt_used [OF assms(2,3)] assms(4) by simp
    then show ?thesis
      using True old assms(7) by simp
  next
    case False
    have same: "(lp_used ((t(i := e)) j) \<and> pair_key ((t(i := e)) j) = k)
        = (lp_used (t j) \<and> pair_key (t j) = k)" for j
      using False assms(4,5) by auto
    have "lp_count ((t(i := e)) j) = lp_count (t j)" if "lp_used (t j) \<and> pair_key (t j) = k" for j
      using that False assms(5) by auto
    note cnt = this
    have "find (\<lambda>j. lp_used ((t(i := e)) j) \<and> pair_key ((t(i := e)) j) = k) [0..<N_SLOTS]
        = find (\<lambda>j. lp_used (t j) \<and> pair_key (t j) = k) [0..<N_SLOTS]"
      by (simp only: same)
    moreover have "lp_count ((t(i := e)) j) = lp_count (t j)"
      if "find (\<lambda>j. lp_used (t j) \<and> pair_key (t j) = k) [0..<N_SLOTS] = Some j" for j
      using that cnt [of j] find_slot_iff [OF assms(1), of k j] by blast
    ultimately have "pair_cnt (t(i := e)) k = pair_cnt t k"
      unfolding pair_cnt_def by (simp del: fun_upd_apply split: option.split)
    then show ?thesis
      using False by simp
  qed
qed

lemma absent_if_free:
  assumes "pairs_ok t" "\<not> lp_used (t (pair_slot k q))" "q < N_SLOTS" "probed t k q"
  shows "k \<notin> pair_keys t"
proof
  assume "k \<in> pair_keys t"
  then obtain j where j: "j < N_SLOTS" "lp_used (t j)" "pair_key (t j) = k"
    by (auto simp: pair_keys_def)
  obtain p where p: "p < N_SLOTS" "pair_slot k p = j" "probed t k p"
    using pairs_okD [OF assms(1) j(1,2)] j(3) by blast
  have "\<not> p < q" "\<not> q < p"
    using p j assms(2,4) by (auto simp: probed_def)
  then show False
    using p j assms(2) by simp
qed

lemma pair_add_ok:
  assumes "pairs_ok t" "k \<in> pair_keys t \<or> card (pair_keys t) < N_SLOTS"
  shows "\<exists>t'. pair_add t k a = Some t' \<and> pairs_ok t' \<and> pair_keys t' = insert k (pair_keys t)
     \<and> pair_cnt t' = (pair_cnt t)(k := pair_cnt t k + 1)"
proof -
  obtain m el c p h where a: "a = (m, el, c, p, h)" by (cases a)
  have "probed t k 0" by (simp add: probed_def)
  from loop_result [OF this, of N_SLOTS] have res: "case find_load_pair t k of
      None \<Rightarrow> probed t k N_SLOTS
    | Some (i, t') \<Rightarrow> \<exists>q < N_SLOTS. i = pair_slot k q \<and> probed t k q \<and>
        (if lp_used (t i) then pair_key (t i) = k \<and> t' = t else t' = t(i := claim k (t i)))"
    by (simp add: find_load_pair_def PAIR_SLOTS_def N_SLOTS_def)
  have "find_load_pair t k \<noteq> None"
    using res assms(2) full_table [OF assms(1), of k] by (auto split: option.splits)
  then obtain i t' q where f: "find_load_pair t k = Some (i, t')" "q < N_SLOTS" "i = pair_slot k q"
      "probed t k q"
      "if lp_used (t i) then pair_key (t i) = k \<and> t' = t else t' = t(i := claim k (t i))"
    using res by auto
  define e where "e = count_pair (t' i) m el c p h"
  have e: "lp_used e" "pair_key e = k" "lp_count e = lp_count (t i) + 1" "t'(i := e) = t(i := e)"
    using f(5) by (auto simp: e_def split: if_splits)
  have i: "i < N_SLOTS"
    using f(3) by simp
  have new: "k \<notin> pair_keys t" if "\<not> lp_used (t i)"
    using that f(2-4) absent_if_free [OF assms(1)] by blast
  have ok: "pairs_ok (t(i := e))"
    using f e i by (intro pairs_ok_upd [OF assms(1)]) (auto split: if_splits)
  have "pair_keys (t(i := e)) = insert k (pair_keys t)"
    using pair_keys_upd [OF i e(1)] e(2) f(5) by (auto split: if_splits)
  moreover have "pair_cnt (t(i := e)) = (pair_cnt t)(k := pair_cnt t k + 1)"
    using pair_cnt_upd [OF assms(1) ok i e(1)] e(2,3) f(5) new by (auto split: if_splits)
  ultimately show ?thesis
    using f(1) e(4) ok by (simp add: pair_add_def a e_def)
qed

interpretation pair_table: counter_table pairs_ok pair_keys pair_cnt pair_add N_SLOTS
proof
  fix t k a
  assume t: "pairs_ok t"
  have "pair_keys t = (\<lambda>i. pair_key (t i)) ` {i. i < N_SLOTS \<and> lp_used (t i)}"
    by (auto simp: pair_keys_def)
  then show "finite (pair_keys t)" by simp
  show "\<exists>t'. pair_add t k a = Some t' \<and> pairs_ok t' \<and> pair_keys t' = insert k (pair_keys t)
         \<and> pair_cnt t' = (pair_cnt t)(k := pair_cnt t k + 1)"
    if "k \<in> pair_keys t \<or> card (pair_keys t) < N_SLOTS"
    using pair_add_ok [OF t that] .
qed

lemma pairs_ok_clear: "pairs_ok (\<lambda>_. clear_pair)" "pair_keys (\<lambda>_. clear_pair) = {}"
  "pair_cnt (\<lambda>_. clear_pair) k = 0"
  by (simp_all add: pairs_ok_def pair_keys_def pair_cnt_def clear_pair_def find_None_iff
      split: option.split)

text \<open>
  C38. The pair table counts exactly: recording any sequence of load/consumer pairs with at most
  65536 distinct pairs in the cleared table never finds it full, and afterwards the counter that
  the table holds for a pair is the number of times the pair was recorded.
\<close>

theorem pair_table_exact:
  assumes "card (fst ` set es) \<le> N_SLOTS"
  shows "\<exists>t. add_all pair_add (\<lambda>_. clear_pair) es = Some t
     \<and> (\<forall>k. pair_cnt t k = of_nat (count_list (map fst es) k))"
  using pair_table.add_all_ok [OF pairs_ok_clear(1), of es] assms
  by (auto simp: pairs_ok_clear)

theorem pair_table_exact_witness:
  "\<exists>t. add_all pair_add (\<lambda>_. clear_pair)
     [((4, 8, W_WORD, K_ALU), (1, True, True, True, \<lambda>_. False)),
      ((8, 12, W_BYTE, K_BRANCH), (2, True, False, True, \<lambda>_. True)),
      ((4, 8, W_WORD, K_ALU), (1, True, False, True, \<lambda>_. False))] = Some t
   \<and> pair_cnt t (4, 8, W_WORD, K_ALU) = 2"
proof -
  let ?es = "[((4, 8, W_WORD, K_ALU), (1, True, True, True, \<lambda>_. False)),
      ((8, 12, W_BYTE, K_BRANCH), (2, True, False, True, \<lambda>_. True)),
      ((4, 8, W_WORD, K_ALU), (1, True, False, True, \<lambda>_. False))]
      :: (pair_key \<times> nat \<times> bool \<times> bool \<times> bool \<times> (nat \<Rightarrow> bool)) list"
  have "card (fst ` set ?es) \<le> N_SLOTS"
    by (simp add: N_SLOTS_def card_insert_if)
  from pair_table_exact [OF this] obtain t where
    "add_all pair_add (\<lambda>_. clear_pair) ?es = Some t"
    "\<And>k. pair_cnt t k = of_nat (count_list (map fst ?es) k)"
    by blast
  then show ?thesis
    by (intro exI [of _ t]) simp
qed

end
