(* ===== verification/Xaccel_Ops.thy ===== *)
theory Xaccel_Ops
  imports Prelude
begin

text \<open>
  The functions behind the accelerator instructions of NEMU (\<open>nemu/src/isa/riscv32/inst.c\<close>): the
  multi-byte step of the number scanner, the CRC update, the clipped matrix sum and the 16-bit
  multiplications. Every loop is bounded by its own counter.
\<close>

section \<open>The number scanner\<close>

definition is_digit :: "u8 \<Rightarrow> bool" where
  "is_digit c = (c - 0x30 \<le> 9)"

text \<open>
  The \<open>switch\<close> of \<open>numeric_dfa_word_step\<close>: the next state, the mask and the stop flag of its default case.
  The states are 0 start, 1 invalid, 2 sign, 3 exponent letter, 4 integer, 5 fraction, 6 exponent
  sign, 7 exponent digits.
\<close>

definition dfa_switch :: "u32 \<Rightarrow> u8 \<Rightarrow> u32 \<Rightarrow> u32 \<times> u32 \<times> bool" where
  "dfa_switch state c m =
     (let digit = is_digit c in
      if state = 0
      then if digit then (4, m OR 0x01, False)
           else if c = 0x2b \<or> c = 0x2d then (2, m OR 0x01, False)
           else if c = 0x2e then (5, m OR 0x01, False)
           else (1, m OR 0x02 OR 0x01, False)
      else if state = 2
      then (if digit then 4 else if c = 0x2e then 5 else 1, m OR 0x04, False)
      else if state = 4
      then if c = 0x2e then (5, m OR 0x10, False)
           else if \<not> digit then (1, m OR 0x10, False)
           else (4, m, False)
      else if state = 5
      then if c = 0x45 \<or> c = 0x65 then (3, m OR 0x20, False)
           else if \<not> digit then (1, m OR 0x20, False)
           else (5, m, False)
      else if state = 3
      then (if c = 0x2b \<or> c = 0x2d then 6 else 1, m OR 0x08, False)
      else if state = 6
      then (if digit then 7 else 1, m OR 0x40, False)
      else if state = 7
      then if \<not> digit then (1, m OR 0x02, False) else (7, m, False)
      else (state, m, True))"

text \<open>The loop, on the bytes it still may look at: state, consumed, mask and stop.\<close>

fun dfa_bytes :: "u8 list \<Rightarrow> u32 \<Rightarrow> u32 \<Rightarrow> u32 \<Rightarrow> u32 \<times> u32 \<times> u32 \<times> bool" where
  "dfa_bytes [] state consumed m = (state, consumed, m, False)"
| "dfa_bytes (c # cs) state consumed m =
     (if c = 0 then (state, consumed, m, True)
      else if c = 0x2c then (state, consumed + 1, m, True)
      else let (state', m', stop) = dfa_switch state c m;
               stop = (stop \<or> state' = 1)
           in if stop then (state', consumed + 1, m', True)
              else dfa_bytes cs state' (consumed + 1) m')"

definition symbol_bytes :: "u32 \<Rightarrow> nat \<Rightarrow> u8 list" where
  "symbol_bytes symbols width = map (\<lambda>i. ucast (drop_bit (8 * i) symbols)) [0..<width]"

definition of_flag :: "bool \<Rightarrow> u32" where
  "of_flag b = (if b then 1 else 0)"

definition numeric_dfa_word_step :: "u32 \<Rightarrow> u32 \<Rightarrow> nat \<Rightarrow> bool \<Rightarrow> u32" where
  "numeric_dfa_word_step state symbols width format2 =
     (case dfa_bytes (symbol_bytes symbols width) state 0 0 of (state, consumed, m, stop) \<Rightarrow>
        if format2
        then state OR push_bit 3 consumed OR push_bit 5 (of_flag stop) OR push_bit 6 m
        else state OR push_bit 3 consumed OR push_bit 6 (of_flag stop) OR push_bit 7 m)"

section \<open>CRC\<close>

fun crc_bits :: "nat \<Rightarrow> u32 \<Rightarrow> u32 \<Rightarrow> u32" where
  "crc_bits 0 val crc = crc"
| "crc_bits (Suc n) val crc =
     (let x16 = (val XOR crc) AND 1;
          val = drop_bit 1 val;
          crc = (if x16 \<noteq> 0 then crc XOR 0x4002 else crc);
          crc = drop_bit 1 crc OR push_bit 15 x16
      in crc_bits n val crc)"

fun crc_bytes :: "nat \<Rightarrow> u32 \<Rightarrow> u32 \<Rightarrow> u32" where
  "crc_bytes 0 data crc = crc"
| "crc_bytes (Suc n) data crc = crc_bytes n (drop_bit 8 data) (crc_bits 8 (data AND 0xff) crc)"

definition crc_update :: "u32 \<Rightarrow> u32 \<Rightarrow> nat \<Rightarrow> u32" where
  "crc_update data crc bytes = crc_bytes bytes data (crc AND 0xffff) AND 0xffff"

section \<open>Multiplications\<close>

definition sx16 :: "u32 \<Rightarrow> u32" where
  "sx16 val = scast (ucast val :: u16)"

definition xmac16_op :: "u32 \<Rightarrow> u32 \<Rightarrow> u32 \<Rightarrow> u32" where
  "xmac16_op acc a b = acc + sx16 a * sx16 b"

definition xdot16_op :: "u32 \<Rightarrow> u32 \<Rightarrow> u32" where
  "xdot16_op a b = (let lo = sx16 a * sx16 b; hi = sx16 (drop_bit 16 a) * sx16 (drop_bit 16 b) in lo + hi)"

definition xbmul_op :: "u32 \<Rightarrow> u32" where
  "xbmul_op val = (drop_bit 2 val AND 0xf) * (drop_bit 5 val AND 0x7f)"

section \<open>The clipped matrix sum\<close>

text \<open>
  One element: running sum, previous element and result; \<open>cur > prev\<close> and \<open>tmp > clip\<close> compare signed
  values, the result is an \<open>int16_t\<close>.
\<close>

definition msum_step :: "u32 \<Rightarrow> u32 \<times> u32 \<times> u16 \<Rightarrow> u32 \<Rightarrow> u32 \<times> u32 \<times> u16" where
  "msum_step clip acc cur = (case acc of (tmp, prev, ret) \<Rightarrow>
     let tmp = tmp + cur in
     if sint tmp > sint clip then (0, cur, ret + 10)
     else (tmp, cur, ret + (if sint cur > sint prev then 1 else 0)))"

text \<open>The loop reads its elements through \<open>rd\<close>, which threads the state of the memory.\<close>

fun msum_loop ::
  "('s \<Rightarrow> u32 \<Rightarrow> (err, u32 \<times> 's) result) \<Rightarrow> u32 \<Rightarrow> u32 \<Rightarrow> nat \<Rightarrow> nat \<Rightarrow> 's \<Rightarrow> u32 \<times> u32 \<times> u16
   \<Rightarrow> (err, (u32 \<times> u32 \<times> u16) \<times> 's) result" where
  "msum_loop rd data clip i 0 s acc = Inr (acc, s)"
| "msum_loop rd data clip i (Suc n) s acc =
     rbind (rd s (data + of_nat i * 4)) (\<lambda>(cur, s).
       msum_loop rd data clip (Suc i) n s (msum_step clip acc cur))"

definition matrix_clipped_sum ::
  "('s \<Rightarrow> u32 \<Rightarrow> (err, u32 \<times> 's) result) \<Rightarrow> u32 \<Rightarrow> u32 \<Rightarrow> 's \<Rightarrow> (err, (u32 \<times> u64) \<times> 's) result" where
  "matrix_clipped_sum rd data config s =
     (let n = drop_bit 16 config;
          clip = sx16 (config AND 0xffff);
          elements = unat n * unat n
      in rbind (msum_loop rd data clip 0 elements s (0, 0, 0)) (\<lambda>((tmp, prev, ret), s).
           Inr ((scast ret, of_nat elements), s)))"

end
