(* ===== verification/Coremark.thy ===== *)
theory Coremark
  imports Prelude
begin

text \<open>
  The reference routines of the CoreMark port (\<open>jyd-tests/coremark-official/src\<close>) that the accelerator
  replaces: the number scanner of \<open>core_state.c\<close>, the CRC of \<open>core_util.c\<close>, the matrix kernels of
  \<open>core_matrix.c\<close> and the list reversal of \<open>core_list_join.c\<close>. Byte memory is a function from the
  address; a matrix is a function from the flat index \<open>i * N + j\<close>; the \<open>next\<close> fields of the list nodes
  are a function from the address of the node. The loops that end at a NUL byte or a null pointer
  are partial functions, so that not returning is \<open>None\<close>.
\<close>

section \<open>The number scanner\<close>

definition ee_isdigit :: "u8 \<Rightarrow> bool" where
  "ee_isdigit c = (c \<ge> 0x30 \<and> c \<le> 0x39)"

type_synonym counts = "nat \<Rightarrow> u32"

definition inc :: "nat \<Rightarrow> counts \<Rightarrow> counts" where
  "inc i t = t(i := t i + 1)"

text \<open>
  The \<open>switch\<close> of \<open>core_state_transition\<close>. The states carry the numbers of the enumeration \<open>CORE_STATE\<close>:
  0 \<open>CORE_START\<close>, 1 \<open>CORE_INVALID\<close>, 2 \<open>CORE_S1\<close>, 3 \<open>CORE_S2\<close>, 4 \<open>CORE_INT\<close>, 5 \<open>CORE_FLOAT\<close>, 6 \<open>CORE_EXPONENT\<close>,
  7 \<open>CORE_SCIENTIFIC\<close>.
\<close>

definition core_switch :: "u32 \<Rightarrow> u8 \<Rightarrow> counts \<Rightarrow> u32 \<times> counts" where
  "core_switch state c t =
     (if state = 0
      then if ee_isdigit c then (4, inc 0 t)
           else if c = 0x2b \<or> c = 0x2d then (2, inc 0 t)
           else if c = 0x2e then (5, inc 0 t)
           else (1, inc 0 (inc 1 t))
      else if state = 2
      then if ee_isdigit c then (4, inc 2 t) else if c = 0x2e then (5, inc 2 t) else (1, inc 2 t)
      else if state = 4
      then if c = 0x2e then (5, inc 4 t) else if \<not> ee_isdigit c then (1, inc 4 t) else (state, t)
      else if state = 5
      then if c = 0x45 \<or> c = 0x65 then (3, inc 5 t)
           else if \<not> ee_isdigit c then (1, inc 5 t) else (state, t)
      else if state = 3
      then if c = 0x2b \<or> c = 0x2d then (6, inc 3 t) else (1, inc 3 t)
      else if state = 6
      then if ee_isdigit c then (7, inc 6 t) else (1, inc 6 t)
      else if state = 7
      then if \<not> ee_isdigit c then (1, inc 1 t) else (state, t)
      else (state, t))"

partial_function (option) core_state_loop ::
  "(u32 \<Rightarrow> u8) \<Rightarrow> u32 \<Rightarrow> u32 \<Rightarrow> counts \<Rightarrow> (u32 \<times> u32 \<times> counts) option" where
  "core_state_loop mem str state t =
     (if mem str = 0 \<or> state = 1 then Some (state, str, t)
      else if mem str = 0x2c then Some (state, str + 1, t)
      else core_state_loop mem (str + 1) (fst (core_switch state (mem str) t))
             (snd (core_switch state (mem str) t)))"

text \<open>The final state, the pointer behind the token and the transition counts.\<close>

definition core_state_transition ::
  "(u32 \<Rightarrow> u8) \<Rightarrow> u32 \<Rightarrow> counts \<Rightarrow> (u32 \<times> u32 \<times> counts) option" where
  "core_state_transition mem instr t = core_state_loop mem instr 0 t"

section \<open>CRC\<close>

fun crcu8_loop :: "nat \<Rightarrow> u8 \<Rightarrow> u16 \<Rightarrow> u16" where
  "crcu8_loop 0 data crc = crc"
| "crcu8_loop (Suc n) data crc =
     (let x16 = (data AND 1) XOR (ucast crc AND 1);
          data = drop_bit 1 data;
          carry = x16 = 1;
          crc = (if x16 = 1 then crc XOR 0x4002 else crc);
          crc = drop_bit 1 crc;
          crc = (if carry then crc OR 0x8000 else crc AND 0x7fff)
      in crcu8_loop n data crc)"

definition crcu8 :: "u8 \<Rightarrow> u16 \<Rightarrow> u16" where
  "crcu8 data crc = crcu8_loop 8 data crc"

definition crcu16 :: "u16 \<Rightarrow> u16 \<Rightarrow> u16" where
  "crcu16 newval crc = crcu8 (ucast (drop_bit 8 newval)) (crcu8 (ucast newval) crc)"

definition crc16 :: "u16 \<Rightarrow> u16 \<Rightarrow> u16" where
  "crc16 newval crc = crcu16 newval crc"

definition crcu32 :: "u32 \<Rightarrow> u16 \<Rightarrow> u16" where
  "crcu32 newval crc = crc16 (ucast (drop_bit 16 newval)) (crc16 (ucast newval) crc)"

section \<open>Matrix kernels\<close>

type_synonym matdat = "nat \<Rightarrow> u16"
type_synonym matres = "nat \<Rightarrow> u32"

definition bit_extract :: "u32 \<Rightarrow> nat \<Rightarrow> nat \<Rightarrow> u32" where
  "bit_extract x from to' = signed_drop_bit from x AND NOT (push_bit to' 0xffffffff)"

definition mat_prod :: "u16 \<Rightarrow> u16 \<Rightarrow> u32" where
  "mat_prod a b = scast a * scast b"

definition matrix_add_const :: "nat \<Rightarrow> matdat \<Rightarrow> u16 \<Rightarrow> matdat" where
  "matrix_add_const N A val =
     foldl (\<lambda>A i. foldl (\<lambda>A j. A(i * N + j := A (i * N + j) + val)) A [0..<N]) A [0..<N]"

definition matrix_mul_const :: "nat \<Rightarrow> matres \<Rightarrow> matdat \<Rightarrow> u16 \<Rightarrow> matres" where
  "matrix_mul_const N C A val =
     foldl (\<lambda>C i. foldl (\<lambda>C j. C(i * N + j := mat_prod (A (i * N + j)) val)) C [0..<N]) C [0..<N]"

definition matrix_mul_vect :: "nat \<Rightarrow> matres \<Rightarrow> matdat \<Rightarrow> matdat \<Rightarrow> matres" where
  "matrix_mul_vect N C A B =
     foldl (\<lambda>C i. foldl (\<lambda>C j. C(i := C i + mat_prod (A (i * N + j)) (B j))) (C(i := 0)) [0..<N])
       C [0..<N]"

definition matrix_mul_matrix :: "nat \<Rightarrow> matres \<Rightarrow> matdat \<Rightarrow> matdat \<Rightarrow> matres" where
  "matrix_mul_matrix N C A B =
     foldl (\<lambda>C i. foldl (\<lambda>C j.
         foldl (\<lambda>C k. C(i * N + j := C (i * N + j) + mat_prod (A (i * N + k)) (B (k * N + j))))
           (C(i * N + j := 0)) [0..<N])
       C [0..<N]) C [0..<N]"

definition matrix_mul_matrix_bitextract :: "nat \<Rightarrow> matres \<Rightarrow> matdat \<Rightarrow> matdat \<Rightarrow> matres" where
  "matrix_mul_matrix_bitextract N C A B =
     foldl (\<lambda>C i. foldl (\<lambda>C j.
         foldl (\<lambda>C k. let tmp = mat_prod (A (i * N + k)) (B (k * N + j))
                 in C(i * N + j := C (i * N + j) + bit_extract tmp 2 4 * bit_extract tmp 5 7))
           (C(i * N + j := 0)) [0..<N])
       C [0..<N]) C [0..<N]"

text \<open>\<open>matrix_sum\<close>: the comparisons are signed, the result is an \<open>ee_s16\<close>.\<close>

definition matrix_sum_step :: "u16 \<Rightarrow> u32 \<times> u32 \<times> u16 \<Rightarrow> u32 \<Rightarrow> u32 \<times> u32 \<times> u16" where
  "matrix_sum_step clipval acc cur = (case acc of (tmp, prev, ret) \<Rightarrow>
     let tmp = tmp + cur in
     if sint tmp > sint clipval then (0, cur, ret + 10)
     else (tmp, cur, ret + (if sint cur > sint prev then 1 else 0)))"

definition matrix_sum :: "nat \<Rightarrow> matres \<Rightarrow> u16 \<Rightarrow> u16" where
  "matrix_sum N C clipval =
     snd (snd (foldl (\<lambda>acc i. foldl (\<lambda>acc j. matrix_sum_step clipval acc (C (i * N + j))) acc [0..<N])
       (0, 0, 0) [0..<N]))"

definition matrix_big :: "u16 \<Rightarrow> u16" where
  "matrix_big x = 0xf000 OR x"

text \<open>The benchmark step: the CRC of the four sums, and the two matrices it leaves behind.\<close>

definition matrix_test :: "nat \<Rightarrow> matres \<Rightarrow> matdat \<Rightarrow> matdat \<Rightarrow> u16 \<Rightarrow> u16 \<times> matres \<times> matdat" where
  "matrix_test N C A B val =
     (let clipval = matrix_big val;
          A = matrix_add_const N A val;
          C = matrix_mul_const N C A val;
          crc = crc16 (matrix_sum N C clipval) 0;
          C = matrix_mul_vect N C A B;
          crc = crc16 (matrix_sum N C clipval) crc;
          C = matrix_mul_matrix N C A B;
          crc = crc16 (matrix_sum N C clipval) crc;
          C = matrix_mul_matrix_bitextract N C A B;
          crc = crc16 (matrix_sum N C clipval) crc
      in (crc, C, matrix_add_const N A (- val)))"

section \<open>List reversal\<close>

partial_function (option) list_reverse_loop ::
  "(u32 \<Rightarrow> u32) \<Rightarrow> u32 \<Rightarrow> u32 \<Rightarrow> (u32 \<times> (u32 \<Rightarrow> u32)) option" where
  "list_reverse_loop nxt list next =
     (if list = 0 then Some (next, nxt)
      else list_reverse_loop (nxt(list := next)) (nxt list) list)"

definition core_list_reverse :: "(u32 \<Rightarrow> u32) \<Rightarrow> u32 \<Rightarrow> (u32 \<times> (u32 \<Rightarrow> u32)) option" where
  "core_list_reverse nxt list = list_reverse_loop nxt list 0"

end
