(* ===== verification/Xaccel_Kernels.thy ===== *)
theory Xaccel_Kernels
  imports Xaccel_Ops Coremark Nemu_Mem
begin

text \<open>
  The CRC and matrix wrappers of \<open>jyd-tests/coremark-official/accel/xaccel_wrappers.c\<close> on the accelerator
  instructions of NEMU, and their equivalence with the CoreMark routines they replace.
\<close>

section \<open>CRC\<close>

fun xaccel_crc32_loop :: "nat \<Rightarrow> u32 \<Rightarrow> u16 \<Rightarrow> u16" where
  "xaccel_crc32_loop 0 data crc = crc"
| "xaccel_crc32_loop (Suc n) data crc =
     xaccel_crc32_loop n (drop_bit 8 data) (ucast (crc_update data (ucast crc) 1))"

definition xaccel_crc32_u8 :: "u32 \<Rightarrow> u16 \<Rightarrow> u16" where
  "xaccel_crc32_u8 data crc = xaccel_crc32_loop 4 data crc"

lemma byte_mask: "(0xff :: u32) = mask 8"
  by (simp add: mask_eq_exp_minus_1)

lemma ucast_crc_step:
  fixes c q t :: u16
  shows "drop_bit 1 (ucast c XOR ucast q) OR ucast t = (ucast (drop_bit 1 (c XOR q) OR t) :: u32)"
  by (rule bit_word_eqI) (auto simp: bit_simps dest: bit_imp_le_length)

lemma crc_bits_crcu8: "crc_bits n (ucast data) (ucast crc) = ucast (crcu8_loop n data crc)"
proof (induction n arbitrary: data crc)
  case 0
  then show ?case by simp
next
  case (Suc n)
  let ?x = "(data AND 1) XOR (ucast crc AND 1)"
  have x: "((ucast data :: u32) XOR ucast crc) AND 1 = ucast ?x"
    by (rule bit_word_eqI) (auto simp: bit_simps)
  have v: "drop_bit 1 (ucast data :: u32) = ucast (drop_bit 1 data)"
    by (rule bit_word_eqI) (auto simp: bit_simps dest: bit_imp_le_length)
  have x01: "?x = 0 \<or> ?x = 1"
    by (cases "even data"; cases "even (ucast crc :: u8)") (simp_all add: and_one_eq mod_2_eq_odd)
  have m15: "(0x7fff :: u16) = mask 15"
    by (simp add: mask_eq_exp_minus_1)
  from x01 consider "?x = 0" | "?x = 1" by blast
  then show ?case
  proof cases
    case 1
    have "drop_bit 1 (ucast crc :: u32) = ucast (drop_bit 1 crc AND 0x7fff)"
      unfolding m15 by (rule bit_word_eqI) (auto simp: bit_simps dest: bit_imp_le_length)
    then show ?thesis
      using Suc.IH by (simp add: Let_def x v 1 del: One_nat_def)
  next
    case 2
    have "drop_bit 1 (ucast crc XOR 0x4002 :: u32) OR push_bit 15 1
        = ucast (drop_bit 1 (crc XOR 0x4002) OR 0x8000)"
      using ucast_crc_step [of crc "0x4002" "0x8000"] by (simp add: push_bit_of_1)
    then show ?thesis
      using Suc.IH by (simp add: Let_def x v 2 del: One_nat_def)
  qed
qed

lemma crcu8_low: "crc_bits 8 (data AND 0xff) (ucast crc) = ucast (crcu8 (ucast data) crc)"
proof -
  have "data AND 0xff = ucast (ucast data :: u8)"
    unfolding byte_mask by (rule bit_word_eqI) (auto simp: bit_simps)
  then show ?thesis
    by (simp only: crcu8_def crc_bits_crcu8)
qed

lemma half_mask: "ucast (crc :: u16) AND (0xffff :: u32) = ucast crc"
proof -
  have "(0xffff :: u32) = mask 16"
    by (simp add: mask_eq_exp_minus_1)
  then show ?thesis
    by (simp add: bit_eq_iff bit_simps) (auto dest: bit_imp_le_length)
qed

lemma crc_bytes_Suc:
  "crc_bytes (Suc n) data (ucast crc) = crc_bytes n (drop_bit 8 data) (ucast (crcu8 (ucast data) crc))"
  by (simp add: crcu8_low)

lemma crcu32_bytes:
  "crcu32 data crc = crcu8 (ucast (drop_bit 24 data)) (crcu8 (ucast (drop_bit 16 data))
     (crcu8 (ucast (drop_bit 8 data)) (crcu8 (ucast data) crc)))"
proof -
  have "ucast (drop_bit 8 (ucast data :: u16)) = (ucast (drop_bit 8 data) :: u8)"
      "ucast (drop_bit 8 (ucast (drop_bit 16 data) :: u16)) = (ucast (drop_bit 24 data) :: u8)"
      "ucast (ucast data :: u16) = (ucast data :: u8)"
      "ucast (ucast (drop_bit 16 data) :: u16) = (ucast (drop_bit 16 data) :: u8)"
    by (rule bit_word_eqI; auto simp: bit_simps)+
  then show ?thesis
    by (simp add: crcu32_def crc16_def crcu16_def)
qed

lemma crc_update_ucast:
  "crc_update data (ucast (crc :: u16)) 1 = ucast (crcu8 (ucast data) crc)"
  "crc_update data (ucast crc) 2 = ucast (crcu16 (ucast data) crc)"
  "crc_update data (ucast crc) 4 = ucast (crcu32 data crc)"
proof -
  have d: "ucast (drop_bit 8 (ucast data :: u16)) = (ucast (drop_bit 8 data) :: u8)"
      "ucast (ucast data :: u16) = (ucast data :: u8)"
    by (rule bit_word_eqI; auto simp: bit_simps)+
  have "crc_bytes 1 data (ucast crc) = ucast (crcu8 (ucast data) crc)"
    using crc_bytes_Suc [of 0 data crc] by simp
  then show "crc_update data (ucast crc) 1 = ucast (crcu8 (ucast data) crc)"
    by (simp add: crc_update_def half_mask del: crc_bytes.simps(2))
  have "crc_bytes (Suc (Suc 0)) data (ucast crc) = ucast (crcu16 (ucast data) crc)"
    unfolding crc_bytes_Suc crc_bytes.simps(1) by (simp add: crcu16_def d)
  then show "crc_update data (ucast crc) 2 = ucast (crcu16 (ucast data) crc)"
    by (simp add: crc_update_def half_mask numeral_2_eq_2 del: crc_bytes.simps(2))
  have "crc_bytes (Suc (Suc (Suc (Suc 0)))) data (ucast crc) = ucast (crcu32 data crc)"
    unfolding crc_bytes_Suc crc_bytes.simps(1) crcu32_bytes by simp
  then show "crc_update data (ucast crc) 4 = ucast (crcu32 data crc)"
    by (simp add: crc_update_def half_mask numeral_eq_Suc del: crc_bytes.simps(2))
qed

lemma ucast_ucast_crc [simp]: "ucast (ucast (x :: u16) :: u32) = x"
  by (rule bit_word_eqI) (auto simp: bit_simps)

text \<open>
  C29. The three CRC instructions compute \<open>crcu8\<close>, \<open>crcu16\<close> and \<open>crcu32\<close> of CoreMark on the low bits of
  their first operand, and the wrapper that folds a word with four CRCU8 instructions computes \<open>crcu32\<close>.
\<close>
theorem crc_instructions:
  "crc_update data (ucast crc) 1 = ucast (crcu8 (ucast data) crc)
   \<and> crc_update data (ucast crc) 2 = ucast (crcu16 (ucast data) crc)
   \<and> crc_update data (ucast crc) 4 = ucast (crcu32 data crc)
   \<and> xaccel_crc32_u8 data crc = crcu32 data crc"
proof -
  have w: "xaccel_crc32_loop (Suc n) d c = xaccel_crc32_loop n (drop_bit 8 d) (crcu8 (ucast d) c)" for n d c
    by (simp add: crc_update_ucast del: One_nat_def)
  have "xaccel_crc32_loop (Suc (Suc (Suc (Suc 0)))) data crc = crcu32 data crc"
    unfolding w xaccel_crc32_loop.simps(1) using crcu32_bytes [of data crc] by simp
  then have "xaccel_crc32_u8 data crc = crcu32 data crc"
    by (simp add: xaccel_crc32_u8_def numeral_eq_Suc)
  then show ?thesis
    using crc_update_ucast [of data crc] by blast
qed

section \<open>Matrix products\<close>

text \<open>
  Rows and columns are numbered by naturals: \<open>n * n\<close> elements of two or four bytes fit the address space,
  so that the 32-bit index computations of the wrappers do not wrap.
\<close>

definition xbmul_matrix :: "nat \<Rightarrow> matres \<Rightarrow> matdat \<Rightarrow> matdat \<Rightarrow> matres" where
  "xbmul_matrix n c a b =
     foldl (\<lambda>c i. foldl (\<lambda>c j.
         c(i * n + j := foldl (\<lambda>acc k. acc + xbmul_op (scast (a (i * n + k)) * scast (b (k * n + j)))) 0 [0..<n]))
       c [0..<n]) c [0..<n]"

definition xmac_vect :: "nat \<Rightarrow> matres \<Rightarrow> matdat \<Rightarrow> matdat \<Rightarrow> matres" where
  "xmac_vect n c a b =
     foldl (\<lambda>c i. c(i := foldl (\<lambda>acc j. xmac16_op acc (scast (a (i * n + j))) (scast (b j))) 0 [0..<n]))
       c [0..<n]"

definition xmac_matrix :: "nat \<Rightarrow> matres \<Rightarrow> matdat \<Rightarrow> matdat \<Rightarrow> matres" where
  "xmac_matrix n c a b =
     foldl (\<lambda>c i. foldl (\<lambda>c j.
         c(i * n + j := foldl (\<lambda>acc k. xmac16_op acc (scast (a (i * n + k))) (scast (b (k * n + j)))) 0 [0..<n]))
       c [0..<n]) c [0..<n]"

definition pack16 :: "u16 \<Rightarrow> u16 \<Rightarrow> u32" where
  "pack16 lo hi = ucast lo OR push_bit 16 (ucast hi)"

text \<open>The pair loop of the XDOT16 wrappers with the odd element behind it; \<open>f\<close> and \<open>g\<close> are the two operands.\<close>

function xdot_loop :: "(nat \<Rightarrow> u16) \<Rightarrow> (nat \<Rightarrow> u16) \<Rightarrow> nat \<Rightarrow> nat \<Rightarrow> u32 \<Rightarrow> u32" where
  "xdot_loop f g n j acc =
     (if j + 1 < n
      then xdot_loop f g n (j + 2) (acc + xdot16_op (pack16 (f j) (f (j + 1))) (pack16 (g j) (g (j + 1))))
      else if j < n then acc + scast (f j) * scast (g j) else acc)"
  by pat_completeness auto
termination by (relation "measure (\<lambda>(f, g, n, j, acc). n - j)") auto

declare xdot_loop.simps [simp del]

definition xdot_vect :: "nat \<Rightarrow> matres \<Rightarrow> matdat \<Rightarrow> matdat \<Rightarrow> matres" where
  "xdot_vect n c a b =
     foldl (\<lambda>c i. c(i := xdot_loop (\<lambda>j. a (i * n + j)) b n 0 0)) c [0..<n]"

definition xdot_matrix :: "nat \<Rightarrow> matres \<Rightarrow> matdat \<Rightarrow> matdat \<Rightarrow> matres" where
  "xdot_matrix n c a b =
     foldl (\<lambda>c i. foldl (\<lambda>c j.
         c(i * n + j := xdot_loop (\<lambda>k. a (i * n + k)) (\<lambda>k. b (k * n + j)) n 0 0))
       c [0..<n]) c [0..<n]"

lemma cell_fold:
  "foldl (\<lambda>C k. C(p := C p + f k)) (C(p := v)) ks = C(p := foldl (\<lambda>acc k. acc + f k) v ks)"
  for f :: "'a \<Rightarrow> u32"
  by (induction ks arbitrary: v) simp_all

lemma sx16_scast [simp]: "sx16 (scast (a :: u16)) = scast a"
proof -
  have "ucast (scast a :: u32) = a"
    by (rule bit_word_eqI) (auto simp: bit_simps)
  then show ?thesis by (simp add: sx16_def)
qed

lemma sx16_pack16 [simp]: "sx16 (pack16 lo hi) = scast lo" "sx16 (drop_bit 16 (pack16 lo hi)) = scast hi"
proof -
  have "ucast (pack16 lo hi) = lo" "ucast (drop_bit 16 (pack16 lo hi)) = hi"
    by (rule bit_word_eqI; auto simp: pack16_def bit_simps dest: bit_imp_le_length)+
  then show "sx16 (pack16 lo hi) = scast lo" "sx16 (drop_bit 16 (pack16 lo hi)) = scast hi"
    by (simp_all add: sx16_def)
qed

lemma xdot_loop_sum:
  "j \<le> n \<Longrightarrow> xdot_loop f g n j acc = foldl (\<lambda>acc k. acc + mat_prod (f k) (g k)) acc [j..<n]"
proof (induction f g n j acc rule: xdot_loop.induct)
  case (1 f g n j acc)
  show ?case
  proof (cases "j + 1 < n")
    case True
    then have "[j..<n] = j # (j + 1) # [j + 2..<n]"
      by (simp add: upt_conv_Cons)
    with True 1 show ?thesis
      by (subst xdot_loop.simps) (simp add: xdot16_op_def Let_def mat_prod_def add.assoc)
  next
    case False
    then have "[j..<n] = (if j < n then [j] else [])"
      using upt_conv_Cons [of j n] by auto
    with False show ?thesis
      by (subst xdot_loop.simps) (simp add: mat_prod_def)
  qed
qed

lemma xbmul_bit_extract: "xbmul_op x = bit_extract x 2 4 * bit_extract x 5 7"
proof -
  have m: "NOT (push_bit 4 0xffffffff) = (mask 4 :: u32)" "NOT (push_bit 7 0xffffffff) = (mask 7 :: u32)"
      "(0xf :: u32) = mask 4" "(0x7f :: u32) = mask 7"
    by (simp_all add: mask_eq_exp_minus_1)
  have "drop_bit 2 x AND 0xf = bit_extract x 2 4" "drop_bit 5 x AND 0x7f = bit_extract x 5 7"
    unfolding bit_extract_def m by (rule bit_word_eqI; auto simp: bit_simps)+
  then show ?thesis
    by (simp add: xbmul_op_def)
qed

text \<open>
  C30. The matrix wrappers on XMAC16, XDOT16 and XBMUL leave the same result matrix as the CoreMark kernels,
  for every size, every pair of operands and every earlier content of the result.
\<close>
theorem matrix_wrappers:
  "xmac_vect n c a b = matrix_mul_vect n c a b
   \<and> xdot_vect n c a b = matrix_mul_vect n c a b
   \<and> xmac_matrix n c a b = matrix_mul_matrix n c a b
   \<and> xdot_matrix n c a b = matrix_mul_matrix n c a b
   \<and> xbmul_matrix n c a b = matrix_mul_matrix_bitextract n c a b"
  by (simp add: xmac_vect_def xdot_vect_def xmac_matrix_def xdot_matrix_def xbmul_matrix_def
      matrix_mul_vect_def matrix_mul_matrix_def matrix_mul_matrix_bitextract_def xmac16_op_def
      cell_fold xdot_loop_sum xbmul_bit_extract mat_prod_def Let_def)

text \<open>Row-major loops over an \<open>n * n\<close> matrix are one loop over its elements.\<close>

lemma grid_fold:
  "foldl (\<lambda>s i. foldl (\<lambda>s j. f s (i * N + j)) s [0..<N]) s [0..<M] = foldl f s [0..<M * N]"
proof (induction M arbitrary: s)
  case 0
  then show ?case by simp
next
  case (Suc M)
  have "[0..<Suc M * N] = [0..<M * N] @ map (\<lambda>j. M * N + j) [0..<N]"
    using upt_add_eq_append [of 0 "M * N" N] map_add_upt [of "M * N" N] by (simp add: add.commute)
  then show ?case
    using Suc.IH by (simp add: foldl_map)
qed

lemma cells_fold:
  "foldl (\<lambda>C p. C(p := g (C p) p)) C [0..<m] = (\<lambda>p. if p < m then g (C p) p else C p)"
  by (induction m) (auto simp: fun_eq_iff)

lemma grid_update:
  "foldl (\<lambda>C i. foldl (\<lambda>C j. C(i * N + j := g i j)) C [0..<N]) C [0..<N]
   = (\<lambda>p. if p < N * N then g (p div N) (p mod N) else C p)"
proof -
  have "foldl (\<lambda>C i. foldl (\<lambda>C j. C(i * N + j := g i j)) C [0..<N]) C [0..<N]
      = foldl (\<lambda>C i. foldl (\<lambda>C j. C(i * N + j := g ((i * N + j) div N) ((i * N + j) mod N))) C [0..<N]) C [0..<N]"
    by (intro foldl_cong refl) auto
  also have "\<dots> = foldl (\<lambda>C p. C(p := g (p div N) (p mod N))) C [0..<N * N]"
    by (rule grid_fold)
  finally show ?thesis
    using cells_fold [of "\<lambda>_ p. g (p div N) (p mod N)"] by simp
qed

lemma matrix_test_operand: "snd (snd (matrix_test N C A B v)) = A"
proof -
  have "matrix_add_const N A v = (\<lambda>p. if p < N * N then A p + v else A p)" for A v
    unfolding matrix_add_const_def grid_fold [of "\<lambda>A p. A(p := A p + v)"]
    using cells_fold [of "\<lambda>x _. x + v"] by simp
  then show ?thesis
    by (auto simp: matrix_test_def Let_def fun_eq_iff)
qed

lemma foldl_sum_upt: "foldl (\<lambda>acc k. acc + f k) (0 :: u32) [0..<n] = (\<Sum>k<n. f k)"
  by (induction n) simp_all

text \<open>
  C31. The CoreMark kernels compute what their names say, over 32-bit words: element \<open>p\<close> of the result is
  the inner product of its row of \<open>A\<close> and its column of \<open>B\<close>, and nothing behind the \<open>N * N\<close> elements is
  written. Adding a constant and then its negation, which frames \<open>matrix_test\<close>, gives back the operand.
\<close>
theorem matrix_kernels:
  "matrix_mul_matrix N C A B = (\<lambda>p. if p < N * N
      then \<Sum>k<N. mat_prod (A (p div N * N + k)) (B (k * N + p mod N)) else C p)
   \<and> matrix_mul_vect N C A B = (\<lambda>i. if i < N then \<Sum>j<N. mat_prod (A (i * N + j)) (B j) else C i)
   \<and> snd (snd (matrix_test N C A B v)) = A"
proof (intro conjI)
  show "matrix_mul_matrix N C A B = (\<lambda>p. if p < N * N
      then \<Sum>k<N. mat_prod (A (p div N * N + k)) (B (k * N + p mod N)) else C p)"
    by (simp add: matrix_mul_matrix_def cell_fold foldl_sum_upt
        grid_update [of N "\<lambda>i j. \<Sum>k<N. mat_prod (A (i * N + k)) (B (k * N + j))"])
  show "matrix_mul_vect N C A B = (\<lambda>i. if i < N then \<Sum>j<N. mat_prod (A (i * N + j)) (B j) else C i)"
    using cells_fold [of "\<lambda>_ i. \<Sum>j<N. mat_prod (A (i * N + j)) (B j)"]
    by (simp add: matrix_mul_vect_def cell_fold foldl_sum_upt)
  show "snd (snd (matrix_test N C A B v)) = A"
    by (rule matrix_test_operand)
qed

section \<open>The clipped sum\<close>

definition xaccel_xmsum ::
  "('s \<Rightarrow> u32 \<Rightarrow> (err, u32 \<times> 's) result) \<Rightarrow> u32 \<Rightarrow> u32 \<Rightarrow> u16 \<Rightarrow> 's \<Rightarrow> (err, u16 \<times> 's) result" where
  "xaccel_xmsum rd n c clipval s =
     rbind (matrix_clipped_sum rd c (push_bit 16 n OR ucast clipval) s) (\<lambda>((res, elements), s).
       Inr (ucast res, s))"

lemma msum_config:
  assumes "n < 2 ^ 16"
  shows "unat (drop_bit 16 (push_bit 16 (of_nat n) OR ucast (clip :: u16) :: u32)) = n"
    and "sx16 ((push_bit 16 (of_nat n) OR ucast clip :: u32) AND 0xffff) = scast clip"
proof -
  have lt: "n < 2 ^ LENGTH(32)"
    using assms by (simp add: order.strict_trans [OF assms])
  have "drop_bit 16 (push_bit 16 (of_nat n) OR ucast clip :: u32) = take_bit 16 (of_nat n)"
    by (rule bit_word_eqI) (auto simp: bit_simps dest: bit_imp_le_length)
  also have "\<dots> = of_nat n"
    using assms by (simp add: take_bit_of_nat take_bit_nat_eq_self)
  finally show "unat (drop_bit 16 (push_bit 16 (of_nat n) OR ucast clip :: u32)) = n"
    using lt by (simp add: unat_of_nat)
  have "(0xffff :: u32) = mask 16"
    by (simp add: mask_eq_exp_minus_1)
  then have "(push_bit 16 (of_nat n) OR ucast clip :: u32) AND 0xffff = ucast clip"
    by (simp add: bit_eq_iff bit_simps) (auto simp: bit_simps dest: bit_imp_le_length)
  then show "sx16 ((push_bit 16 (of_nat n) OR ucast clip :: u32) AND 0xffff) = scast clip"
    by (simp add: sx16_def)
qed

lemma msum_step_core: "msum_step (scast clip) = matrix_sum_step clip"
  by (intro ext) (simp add: msum_step_def matrix_sum_step_def sint_up_scast is_up)

context word_mem
begin

lemma msum_loop_fold:
  assumes "invar s" "\<And>k. i \<le> k \<Longrightarrow> k < i + n \<Longrightarrow> good (data + of_nat k * 4)"
  shows "msum_loop rd data clip i n s acc
       = Inr (foldl (\<lambda>acc k. msum_step clip acc (val s (data + of_nat k * 4))) acc [i..<i + n], s)"
  using assms(2)
proof (induction n arbitrary: i acc)
  case 0
  then show ?case by simp
next
  case (Suc n)
  have "rd s (data + of_nat i * 4) = Inr (val s (data + of_nat i * 4), s)"
    using Suc.prems assms(1) by (intro rd_val) auto
  moreover have "[i..<i + Suc n] = i # [Suc i..<Suc i + n]"
    by (simp add: upt_conv_Cons)
  ultimately show ?case
    using Suc.IH [of "Suc i"] Suc.prems by simp
qed

lemma xmsum_matrix_sum:
  assumes "invar s" "n < 2 ^ 16" "\<And>k. k < n * n \<Longrightarrow> good (c + of_nat k * 4)"
  shows "xaccel_xmsum rd (of_nat n) c clip s
       = Inr (matrix_sum n (\<lambda>k. val s (c + of_nat k * 4)) clip, s)"
proof -
  let ?f = "\<lambda>acc k. matrix_sum_step clip acc (val s (c + of_nat k * 4))"
  have "msum_loop rd c (scast clip) 0 (n * n) s (0, 0, 0) = Inr (foldl ?f (0, 0, 0) [0..<n * n], s)"
    using msum_loop_fold [of s 0 "n * n" c "scast clip"] assms by (simp add: msum_step_core)
  moreover have "ucast (scast (x :: u16) :: u32) = x" for x
    by (rule bit_word_eqI) (auto simp: bit_simps)
  moreover have "matrix_sum n (\<lambda>k. val s (c + of_nat k * 4)) clip = snd (snd (foldl ?f (0, 0, 0) [0..<n * n]))"
    unfolding matrix_sum_def grid_fold [of ?f] ..
  ultimately show ?thesis
    using msum_config [OF assms(2), of clip]
    by (simp add: xaccel_xmsum_def matrix_clipped_sum_def Let_def case_prod_beta)
qed

end

text \<open>
  C32. XMSUM with the configuration word its wrapper builds returns \<open>matrix_sum\<close> of the matrix in memory,
  leaves the memory as it is and cannot fail, for every matrix of fewer than 65536 rows in physical memory.
\<close>
theorem xmsum_correct:
  assumes "no_mtrace s" "n < 2 ^ 16" "\<forall>k < n * n. good_word cfg (c + of_nat k * 4)"
  shows "xaccel_xmsum (\<lambda>s a. vaddr_read cfg s a 4) (of_nat n) c clip s
       = Inr (matrix_sum n (\<lambda>k. pmem_word cfg s (c + of_nat k * 4)) clip, s)"
  using assms by (intro pmem.xmsum_matrix_sum) auto

lemma xmsum_correct_witness:
  "xaccel_xmsum (\<lambda>s a. vaddr_read kconfig_default s a 4) (of_nat 2) 0x80000100 5 (empty_mem ())
   = Inr (matrix_sum 2 (\<lambda>k. pmem_word kconfig_default (empty_mem ()) (0x80000100 + of_nat k * 4)) 5, empty_mem ())"
proof (rule xmsum_correct)
  show "\<forall>k < 2 * 2. good_word kconfig_default (0x80000100 + of_nat k * 4)"
    by (simp add: numeral_eq_Suc All_less_Suc) (simp add: good_word_def region_defs)
qed (simp_all add: no_mtrace_def)

end
