(* ===== verification/Xaccel_Scan.thy ===== *)
theory Xaccel_Scan
  imports Xaccel_Ops Coremark
begin

text \<open>
  The accelerated number scanners of \<open>jyd-tests/coremark-official/accel/xaccel_wrappers.c\<close> on the
  scanner instructions of NEMU, and their equivalence with \<open>core_state_transition\<close> of CoreMark: the same
  final state, the same pointer behind the token and the same transition counts, for every string.
\<close>

section \<open>The wrappers\<close>

text \<open>The aligned word that a scanner instruction loads, and the steps \<open>XDFA2\<close> and \<open>XDFA4\<close>.\<close>

definition mem_word :: "(u32 \<Rightarrow> u8) \<Rightarrow> u32 \<Rightarrow> u32" where
  "mem_word mem a = of_bytes (map (\<lambda>i. mem (a + of_nat i)) [0..<4])"

definition xdfa_symbols :: "(u32 \<Rightarrow> u8) \<Rightarrow> u32 \<Rightarrow> u32" where
  "xdfa_symbols mem str = drop_bit (8 * unat (str AND 3)) (mem_word mem (str AND NOT 3))"

definition xdfa2_step :: "(u32 \<Rightarrow> u8) \<Rightarrow> u32 \<Rightarrow> u32 \<Rightarrow> u32" where
  "xdfa2_step mem state str =
     numeric_dfa_word_step state (xdfa_symbols mem str) (if str AND 3 = 3 then 1 else 2) True"

definition xdfa4_step :: "(u32 \<Rightarrow> u8) \<Rightarrow> u32 \<Rightarrow> u32 \<Rightarrow> u32" where
  "xdfa4_step mem state str =
     numeric_dfa_word_step state (xdfa_symbols mem str) (4 - unat (str AND 3)) False"

definition commit :: "u32 \<Rightarrow> counts \<Rightarrow> counts" where
  "commit m t = (\<lambda>i. if i < 8 \<and> bit m i then t i + 1 else t i)"

text \<open>\<open>__xaccel_xdfacnt_transition\<close>: the scanner in software, counting with the \<open>inc\<close> instruction.\<close>

definition xdfacnt_switch :: "u32 \<Rightarrow> u8 \<Rightarrow> counts \<Rightarrow> u32 \<times> counts" where
  "xdfacnt_switch state c t =
     (if state = 0
      then if is_digit c then (4, inc 0 t)
           else if c = 0x2b \<or> c = 0x2d then (2, inc 0 t)
           else if c = 0x2e then (5, inc 0 t)
           else (1, inc 0 (inc 1 t))
      else if state = 2
      then (if is_digit c then 4 else if c = 0x2e then 5 else 1, inc 2 t)
      else if state = 4
      then if c = 0x2e then (5, inc 4 t) else if \<not> is_digit c then (1, inc 4 t) else (state, t)
      else if state = 5
      then if c = 0x45 \<or> c = 0x65 then (3, inc 5 t) else if \<not> is_digit c then (1, inc 5 t) else (state, t)
      else if state = 3
      then (if c = 0x2b \<or> c = 0x2d then 6 else 1, inc 3 t)
      else if state = 6
      then (if is_digit c then 7 else 1, inc 6 t)
      else if state = 7
      then if \<not> is_digit c then (1, inc 1 t) else (state, t)
      else (state, t))"

partial_function (option) xdfacnt_loop ::
  "(u32 \<Rightarrow> u8) \<Rightarrow> u32 \<Rightarrow> u32 \<Rightarrow> counts \<Rightarrow> (u32 \<times> u32 \<times> counts) option" where
  "xdfacnt_loop mem str state t =
     (if mem str = 0 \<or> state = 1 then Some (state, str, t)
      else if mem str = 0x2c then Some (state, str + 1, t)
      else xdfacnt_loop mem (str + 1) (fst (xdfacnt_switch state (mem str) t))
             (snd (xdfacnt_switch state (mem str) t)))"

definition xdfacnt_transition :: "(u32 \<Rightarrow> u8) \<Rightarrow> u32 \<Rightarrow> counts \<Rightarrow> (u32 \<times> u32 \<times> counts) option" where
  "xdfacnt_transition mem instr t = xdfacnt_loop mem instr 0 t"

partial_function (option) xdfa2_loop ::
  "(u32 \<Rightarrow> u8) \<Rightarrow> u32 \<Rightarrow> u32 \<Rightarrow> u32 \<Rightarrow> (u32 \<times> u32 \<times> u32) option" where
  "xdfa2_loop mem str state m =
     (let result = xdfa2_step mem state str;
          state = result AND 7;
          str = str + (drop_bit 3 result AND 3);
          m = m OR (drop_bit 6 result AND 0xff)
      in if bit result 5 then Some (state, str, m) else xdfa2_loop mem str state m)"

definition xdfa2_transition :: "(u32 \<Rightarrow> u8) \<Rightarrow> u32 \<Rightarrow> counts \<Rightarrow> (u32 \<times> u32 \<times> counts) option" where
  "xdfa2_transition mem instr t =
     map_option (\<lambda>(state, str, m). (state, str, commit m t)) (xdfa2_loop mem instr 0 0)"

partial_function (option) xdfa4_loop ::
  "(u32 \<Rightarrow> u8) \<Rightarrow> u32 \<Rightarrow> u32 \<Rightarrow> u32 \<Rightarrow> (u32 \<times> u32 \<times> u32) option" where
  "xdfa4_loop mem str state m =
     (let result = xdfa4_step mem state str;
          state = result AND 7;
          str = str + (drop_bit 3 result AND 7);
          m = m OR (drop_bit 7 result AND 0xff)
      in if bit result 6 then Some (state, str, m) else xdfa4_loop mem str state m)"

definition xdfa4_transition :: "(u32 \<Rightarrow> u8) \<Rightarrow> u32 \<Rightarrow> counts \<Rightarrow> (u32 \<times> u32 \<times> counts) option" where
  "xdfa4_transition mem instr t =
     map_option (\<lambda>(state, str, m). (state, str, commit m t)) (xdfa4_loop mem instr 0 0)"

text \<open>
  \<open>XDFA4H\<close> keeps the mask of the token and both count arrays in the hardware: the pending mask, the
  transition counts and the final counts.
\<close>

type_synonym dfa_hw = "u32 \<times> counts \<times> counts"

definition xdfa4h_effect :: "u32 \<Rightarrow> dfa_hw \<Rightarrow> dfa_hw" where
  "xdfa4h_effect result hw = (case hw of (pending, tr, fin) \<Rightarrow>
     let pending = pending OR drop_bit 7 result
     in if bit result 6 then (0, commit pending tr, inc (unat (result AND 7)) fin)
        else (pending, tr, fin))"

partial_function (option) xdfa4h_loop ::
  "(u32 \<Rightarrow> u8) \<Rightarrow> u32 \<Rightarrow> u32 \<Rightarrow> dfa_hw \<Rightarrow> (u32 \<times> dfa_hw) option" where
  "xdfa4h_loop mem str state hw =
     (let result = xdfa4_step mem state str;
          hw = xdfa4h_effect result hw;
          state = result AND 7;
          str = str + (drop_bit 3 result AND 7)
      in if bit result 6 then Some (str, hw) else xdfa4h_loop mem str state hw)"

definition xdfa4h_transition :: "(u32 \<Rightarrow> u8) \<Rightarrow> u32 \<Rightarrow> dfa_hw \<Rightarrow> (u32 \<times> dfa_hw) option" where
  "xdfa4h_transition mem instr hw = xdfa4h_loop mem instr 0 hw"

section \<open>One symbol\<close>

lemma sub_48_le_9:
  assumes "0 \<le> (x :: int)" "x < 256"
  shows "(x - 48) mod 256 \<le> 9 \<longleftrightarrow> 48 \<le> x \<and> x \<le> 57"
proof (cases "48 \<le> x")
  case True
  then show ?thesis
    using assms by (simp add: mod_pos_pos_trivial)
next
  case False
  have "(x - 48) mod 256 = (x - 48 + 256) mod 256"
    by (rule mod_add_self2 [symmetric])
  also have "\<dots> = x + 208"
    using assms False by (subst mod_pos_pos_trivial) simp_all
  finally show ?thesis
    using assms False by simp
qed

lemma is_digit_iff: "is_digit c = ee_isdigit c"
proof -
  have "0 \<le> uint c" "uint c < 256"
    using uint_bounded [of c] by simp_all
  then show ?thesis
    using sub_48_le_9 by (simp add: is_digit_def ee_isdigit_def word_le_def uint_word_ariths)
qed

lemma xdfacnt_switch_core: "xdfacnt_switch = core_switch"
  by (intro ext) (auto simp: xdfacnt_switch_def core_switch_def is_digit_iff)

text \<open>The counts that one symbol adds, as a mask, and the states it can no longer count.\<close>

definition dfa_delta :: "u32 \<Rightarrow> u8 \<Rightarrow> u32" where
  "dfa_delta state c = fst (snd (dfa_switch state c 0))"

definition left_states :: "u32 \<Rightarrow> u32" where
  "left_states state =
     (if state = 0 then 0x00 else if state = 2 then 0x01 else if state = 4 then 0x05
      else if state = 5 then 0x15 else if state = 3 then 0x35 else if state = 6 then 0x3d
      else if state = 7 then 0x7d else 0xff)"

definition within :: "u32 \<Rightarrow> u32 \<Rightarrow> bool" where
  "within m state \<longleftrightarrow> m AND NOT (left_states state) = 0"

definition scan_state :: "u32 \<Rightarrow> bool" where
  "scan_state state \<longleftrightarrow> state \<in> {0, 2, 3, 4, 5, 6, 7}"

lemma scan_state_cases:
  assumes "scan_state state"
  obtains "state = 0" | "state = 2" | "state = 3" | "state = 4" | "state = 5" | "state = 6" | "state = 7"
  using assms unfolding scan_state_def by blast

lemma dfa_switch_split:
  assumes "scan_state state"
  shows "dfa_switch state c m = (fst (core_switch state c t), m OR dfa_delta state c, False)"
  using assms
  by (cases state rule: scan_state_cases)
     (simp_all add: dfa_switch_def core_switch_def dfa_delta_def is_digit_iff Let_def or.assoc)

lemma commit_0 [simp]: "commit 0 t = t"
  by (simp add: commit_def)

lemma commit_exp: "k < 8 \<Longrightarrow> commit (2 ^ k) t = inc k t"
  by (auto simp: commit_def inc_def bit_simps)

lemma commit_or:
  assumes "m AND d = 0"
  shows "commit (m OR d) t = commit d (commit m t)"
proof
  fix i
  have "\<not> (bit m i \<and> bit d i)"
    using assms bit_and_iff [of m d i] by simp
  then show "commit (m OR d) t i = commit d (commit m t) i"
    by (auto simp: commit_def bit_or_iff)
qed

lemma commit_numerals:
  "commit 1 t = inc 0 t" "commit 4 t = inc 2 t" "commit 8 t = inc 3 t" "commit 0x10 t = inc 4 t"
  "commit 0x20 t = inc 5 t" "commit 0x40 t = inc 6 t" "commit 2 t = inc 1 t" "commit 3 t = inc 0 (inc 1 t)"
  using commit_exp [of 0 t] commit_exp [of 2 t] commit_exp [of 3 t] commit_exp [of 4 t]
    commit_exp [of 5 t] commit_exp [of 6 t] commit_exp [of 1 t] commit_or [of 2 1 t]
    commit_exp [of 0 "inc 1 t"]
  by simp_all

lemma core_switch_commit:
  assumes "scan_state state"
  shows "snd (core_switch state c t) = commit (dfa_delta state c) t"
  using assms
  by (cases state rule: scan_state_cases)
     (simp_all add: core_switch_def dfa_switch_def dfa_delta_def is_digit_iff Let_def commit_numerals)

lemma core_switch_state:
  assumes "scan_state state" "fst (core_switch state c t) \<noteq> 1"
  shows "scan_state (fst (core_switch state c t))"
  using assms
  by (cases state rule: scan_state_cases)
     (simp_all add: core_switch_def scan_state_def split: if_splits)

lemma delta_fresh:
  assumes "scan_state state"
  shows "dfa_delta state c AND left_states state = 0"
  using assms
  by (cases state rule: scan_state_cases)
     (simp_all add: dfa_switch_def dfa_delta_def left_states_def is_digit_iff Let_def)

lemma left_states_grow:
  assumes "scan_state state"
  shows "left_states state AND NOT (left_states (fst (core_switch state c t))) = 0"
    "dfa_delta state c AND NOT (left_states (fst (core_switch state c t))) = 0"
  using assms
  by (cases state rule: scan_state_cases;
      simp add: core_switch_def dfa_switch_def dfa_delta_def left_states_def is_digit_iff Let_def)+

lemma and_zero_iff: "(a :: u32) AND b = 0 \<longleftrightarrow> (\<forall>i < 32. \<not> (bit a i \<and> bit b i))"
  by (auto simp: bit_eq_iff bit_simps)

lemma within_delta: "within m state \<Longrightarrow> scan_state state \<Longrightarrow> m AND dfa_delta state c = 0"
  using delta_fresh [of state c]
  by (auto simp: within_def and_zero_iff bit_simps)

lemma within_step:
  assumes "within m state" "scan_state state"
  shows "within (m OR dfa_delta state c) (fst (core_switch state c t))"
  using assms left_states_grow [OF assms(2), of c t]
  by (auto simp: within_def and_zero_iff bit_simps)

section \<open>A run of symbols\<close>

lemma core_loop_unfold:
  "core_state_loop mem str state t =
     (if mem str = 0 \<or> state = 1 then Some (state, str, t)
      else if mem str = 0x2c then Some (state, str + 1, t)
      else core_state_loop mem (str + 1) (fst (core_switch state (mem str) t))
             (snd (core_switch state (mem str) t)))"
  by (rule core_state_loop.simps)

definition bytes_at :: "(u32 \<Rightarrow> u8) \<Rightarrow> u32 \<Rightarrow> nat \<Rightarrow> u8 list" where
  "bytes_at mem str n = map (\<lambda>i. mem (str + of_nat i)) [0..<n]"

lemma bytes_at_Suc: "bytes_at mem str (Suc n) = mem str # bytes_at mem (str + 1) n"
  by (simp add: bytes_at_def upt_conv_Cons map_Suc_upt [symmetric] comp_def add.assoc del: upt_Suc)

lemma core_loop_bytes:
  assumes "dfa_bytes (bytes_at mem str n) state k m = (state', k', m', stop)"
    "scan_state state" "within m state"
  shows "core_state_loop mem str state (commit m t) =
      (if stop then Some (state', str + (k' - k), commit m' t)
       else core_state_loop mem (str + (k' - k)) state' (commit m' t))
    \<and> (\<not> stop \<longrightarrow> scan_state state' \<and> within m' state' \<and> k' = k + of_nat n)"
  using assms
proof (induction n arbitrary: str state k m)
  case 0
  then show ?case by (auto simp: bytes_at_def)
next
  case (Suc n)
  let ?c = "mem str" and ?s = "fst (core_switch state (mem str) (commit m t))"
  let ?m = "m OR dfa_delta state (mem str)"
  have ns: "state \<noteq> 1"
    using Suc.prems(2) by (auto simp: scan_state_def)
  have cm: "snd (core_switch state ?c (commit m t)) = commit ?m t"
    using Suc.prems(2,3) by (simp add: core_switch_commit commit_or within_delta)
  note sw = dfa_switch_split [OF Suc.prems(2), of ?c m "commit m t"]
  consider "?c = 0" | "?c = 0x2c" | "?c \<noteq> 0" "?c \<noteq> 0x2c" "?s = 1" | "?c \<noteq> 0" "?c \<noteq> 0x2c" "?s \<noteq> 1"
    by blast
  then show ?case
  proof cases
    case 1
    then show ?thesis
      using Suc.prems(1) by (auto simp: bytes_at_Suc core_loop_unfold [of mem str])
  next
    case 2
    then show ?thesis
      using Suc.prems(1) ns by (auto simp: bytes_at_Suc core_loop_unfold [of mem str])
  next
    case 3
    then have "state' = 1" "k' = k + 1" "m' = ?m" "stop"
      using Suc.prems(1) by (auto simp: bytes_at_Suc sw)
    then show ?thesis
      using 3 ns cm
      by (simp add: core_loop_unfold [of mem str] core_loop_unfold [of mem "str + 1" 1])
  next
    case 4
    have d: "dfa_bytes (bytes_at mem (str + 1) n) ?s (k + 1) ?m = (state', k', m', stop)"
      using Suc.prems(1) 4 by (simp add: bytes_at_Suc sw)
    have "core_state_loop mem str state (commit m t) = core_state_loop mem (str + 1) ?s (commit ?m t)"
      using 4 ns cm by (simp add: core_loop_unfold [of mem str])
    moreover have "str + 1 + (k' - (k + 1)) = str + (k' - k)"
      by simp
    ultimately show ?thesis
      using Suc.IH [OF d core_switch_state [OF Suc.prems(2) 4(3)] within_step [OF Suc.prems(3,2)]]
      by (simp add: add.assoc add.left_commute)
  qed
qed

section \<open>What the instruction loads\<close>

lemma mem_word_byte:
  assumes "i < 4"
  shows "(ucast (drop_bit (8 * i) (mem_word mem a)) :: u8) = mem (a + of_nat i)"
  unfolding mem_word_def
  using assms of_bytes_nth [of i "map (\<lambda>i. mem (a + of_nat i)) [0..<4]", where 'a = 32] by simp

lemma align_add_offset:
  "(str AND NOT 3) + of_nat (unat (str AND 3) + i) = str + of_nat i" for str :: u32
proof -
  have "(str AND NOT 3) + (str AND 3) = str"
    by (subst disjunctive_add) (auto simp: bits_simps intro!: bit_word_eqI)
  then show ?thesis
    by (simp add: ac_simps)
qed

lemma offset_less_4: "unat (str AND 3) < 4" for str :: u32
  using unat_and_mask_less [of 2 str] by (simp add: mask_eq_exp_minus_1)

lemma symbol_bytes_at:
  assumes "n \<le> 4 - unat (str AND 3)"
  shows "symbol_bytes (xdfa_symbols mem str) n = bytes_at mem str n"
proof -
  have "(ucast (drop_bit (8 * i) (xdfa_symbols mem str)) :: u8) = mem (str + of_nat i)" if "i < n" for i
  proof -
    have "8 * i + 8 * unat (str AND 3) = 8 * (unat (str AND 3) + i)" "unat (str AND 3) + i < 4"
      using that assms by auto
    then show ?thesis
      using mem_word_byte [of "unat (str AND 3) + i" mem "str AND NOT 3"]
      unfolding xdfa_symbols_def drop_bit_drop_bit align_add_offset by (simp only:)
  qed
  then show ?thesis
    by (simp add: symbol_bytes_def bytes_at_def)
qed

section \<open>Packing\<close>

lemma small_states: "scan_state state \<or> state = 1 \<Longrightarrow> take_bit 3 state = state"
  by (auto simp: scan_state_def)

lemma small_delta: "scan_state state \<Longrightarrow> take_bit 8 (dfa_delta state c) = dfa_delta state c"
  by (cases state rule: scan_state_cases)
     (simp_all add: dfa_switch_def dfa_delta_def is_digit_iff Let_def)

lemma dfa_bytes_bounds:
  assumes "dfa_bytes cs state k m = (state', k', m', stop)" "scan_state state" "take_bit 8 m = m"
  shows "take_bit 3 state' = state' \<and> take_bit 8 m' = m' \<and> (\<exists>d \<le> length cs. k' = k + of_nat d)"
  using assms
proof (induction cs arbitrary: state k m)
  case Nil
  then show ?case by (auto simp: small_states)
next
  case (Cons c cs)
  let ?s = "fst (core_switch state c (\<lambda>_. 0))" and ?m = "m OR dfa_delta state c"
  have m: "take_bit 8 ?m = ?m"
    using Cons.prems(2,3) by (simp add: small_delta)
  have s: "?s = 1 \<or> scan_state ?s"
    using core_switch_state [OF Cons.prems(2)] by blast
  note sw = dfa_switch_split [OF Cons.prems(2), of c m "\<lambda>_. 0"]
  show ?case
  proof (cases "c = 0 \<or> c = 0x2c \<or> ?s = 1")
    case True
    then show ?thesis
      using Cons.prems s m small_states
      by (auto simp: sw intro: exI [of _ 0] exI [of _ 1] split: if_splits)
  next
    case False
    then have "dfa_bytes cs ?s (k + 1) ?m = (state', k', m', stop)"
      using Cons.prems(1) by (simp add: sw)
    from Cons.IH [OF this _ m] s False obtain d where
      "take_bit 3 state' = state'" "take_bit 8 m' = m'" "d \<le> length cs" "k' = k + 1 + of_nat d"
      by blast
    then show ?thesis
      by (auto intro!: exI [of _ "Suc d"])
  qed
qed

lemma take_bit_bits: "take_bit n w = w \<Longrightarrow> bit w i \<Longrightarrow> i < n" for w :: u32
  by (metis bit_take_bit_iff)

lemma and_masks:
  "x AND 3 = take_bit 2 x" "x AND 7 = take_bit 3 x" "x AND 0xff = take_bit 8 x" for x :: u32
  by (simp_all add: take_bit_eq_mask mask_eq_exp_minus_1)

lemma bit_of_flag [simp]: "bit (of_flag f) i \<longleftrightarrow> f \<and> i = 0"
  by (simp add: of_flag_def bit_1_iff)

lemma unpack4:
  fixes s k m :: u32
  assumes "take_bit 3 s = s" "take_bit 3 k = k" "take_bit 8 m = m"
    "r = s OR push_bit 3 k OR push_bit 6 (of_flag f) OR push_bit 7 m"
  shows "r AND 7 = s" "drop_bit 3 r AND 7 = k" "bit r 6 = f" "drop_bit 7 r = m" "drop_bit 7 r AND 0xff = m"
proof -
  note b = take_bit_bits [OF assms(1)] take_bit_bits [OF assms(2)] take_bit_bits [OF assms(3)]
  have bits: "bit r i \<longleftrightarrow> i < 32 \<and> (bit s i \<or> 3 \<le> i \<and> bit k (i - 3) \<or> i = 6 \<and> f \<or> 7 \<le> i \<and> bit m (i - 7))" for i
    unfolding assms(4) using bit_imp_le_length [of s i] by (auto simp: bit_simps)
  show "r AND 7 = s" "drop_bit 3 r AND 7 = k"
    unfolding and_masks by (rule bit_word_eqI; use b in \<open>fastforce simp: bit_simps bits\<close>)+
  show "bit r 6 = f"
    using b by (force simp: bits)
  show "drop_bit 7 r = m" "drop_bit 7 r AND 0xff = m"
    unfolding and_masks by (rule bit_word_eqI; use b in \<open>fastforce simp: bit_simps bits\<close>)+
qed

lemma unpack2:
  fixes s k m :: u32
  assumes "take_bit 3 s = s" "take_bit 2 k = k" "take_bit 8 m = m"
    "r = s OR push_bit 3 k OR push_bit 5 (of_flag f) OR push_bit 6 m"
  shows "r AND 7 = s" "drop_bit 3 r AND 3 = k" "bit r 5 = f" "drop_bit 6 r AND 0xff = m"
proof -
  note b = take_bit_bits [OF assms(1)] take_bit_bits [OF assms(2)] take_bit_bits [OF assms(3)]
  have bits: "bit r i \<longleftrightarrow> i < 32 \<and> (bit s i \<or> 3 \<le> i \<and> bit k (i - 3) \<or> i = 5 \<and> f \<or> 6 \<le> i \<and> bit m (i - 6))" for i
    unfolding assms(4) using bit_imp_le_length [of s i] by (auto simp: bit_simps)
  show "r AND 7 = s" "drop_bit 3 r AND 3 = k"
    unfolding and_masks by (rule bit_word_eqI; use b in \<open>fastforce simp: bit_simps bits\<close>)+
  show "bit r 5 = f"
    using b by (force simp: bits)
  show "drop_bit 6 r AND 0xff = m"
    unfolding and_masks by (rule bit_word_eqI; use b in \<open>fastforce simp: bit_simps bits\<close>)
qed

section \<open>The scanners agree\<close>

lemma dfa_bytes_mask:
  assumes "dfa_bytes cs state k d = (state', k', d', stop)" "scan_state state"
  shows "dfa_bytes cs state k (m OR d) = (state', k', m OR d', stop)"
  using assms
proof (induction cs arbitrary: state k d)
  case Nil
  then show ?case by simp
next
  case (Cons c cs)
  let ?s = "fst (core_switch state c (\<lambda>_. 0))"
  have sw: "dfa_switch state c d = (?s, d OR dfa_delta state c, False)"
      "dfa_switch state c (m OR d) = (?s, m OR (d OR dfa_delta state c), False)"
    using dfa_switch_split [OF Cons.prems(2), of c _ "\<lambda>_. 0"] by (simp_all add: or.assoc)
  have "?s = 1 \<or> scan_state ?s"
    using core_switch_state [OF Cons.prems(2)] by blast
  then show ?case
    using Cons.prems(1) Cons.IH [of ?s "k + 1" "d OR dfa_delta state c"]
    by (auto simp: sw split: if_splits)
qed

lemma dfa_bytes_go_on:
  assumes "dfa_bytes cs state k d = (state', k', d', False)"
  shows "0 \<notin> set cs"
  using assms
  by (induction cs arbitrary: state k d) (auto split: if_splits prod.splits)

lemma scan_step:
  assumes "dfa_bytes (bytes_at mem str n) state 0 0 = (state', k', d', stop)" "1 \<le> n"
    "scan_state state" "within m state" "mem (str + of_nat N) = 0"
  shows "core_state_loop mem str state (commit m t) =
      (if stop then Some (state', str + k', commit (m OR d') t)
       else core_state_loop mem (str + k') state' (commit (m OR d') t))"
    and "\<not> stop \<Longrightarrow> scan_state state' \<and> within (m OR d') state'
           \<and> (\<exists>N' < N. mem (str + k' + of_nat N') = 0)"
proof -
  have "dfa_bytes (bytes_at mem str n) state 0 m = (state', k', m OR d', stop)"
    using dfa_bytes_mask [OF assms(1,3), of m] by simp
  note run = core_loop_bytes [OF this assms(3,4), of t]
  then show "core_state_loop mem str state (commit m t) =
      (if stop then Some (state', str + k', commit (m OR d') t)
       else core_state_loop mem (str + k') state' (commit (m OR d') t))"
    by simp
  assume ns: "\<not> stop"
  then have "0 \<notin> set (bytes_at mem str n)"
    using dfa_bytes_go_on assms(1) by auto
  then have "\<not> N < n"
    using assms(5) by (auto simp: bytes_at_def)
  moreover have "k' = of_nat n"
    using run ns by simp
  ultimately have "N - n < N" "mem (str + k' + of_nat (N - n)) = 0"
    using assms(2,5) by (simp_all add: of_nat_diff add.assoc)
  then show "scan_state state' \<and> within (m OR d') state' \<and> (\<exists>N' < N. mem (str + k' + of_nat N') = 0)"
    using run ns by blast
qed

lemma small_count: "d \<le> n \<Longrightarrow> n < 2 ^ b \<Longrightarrow> b < 32 \<Longrightarrow> take_bit b (of_nat d :: u32) = of_nat d"
  by (simp add: take_bit_of_nat take_bit_nat_eq_self)

lemma xdfa4_step_fields:
  assumes "scan_state state"
  obtains state' k' d' stop where
    "dfa_bytes (bytes_at mem str (4 - unat (str AND 3))) state 0 0 = (state', k', d', stop)"
    "xdfa4_step mem state str AND 7 = state'" "drop_bit 3 (xdfa4_step mem state str) AND 7 = k'"
    "bit (xdfa4_step mem state str) 6 = stop" "drop_bit 7 (xdfa4_step mem state str) = d'"
    "drop_bit 7 (xdfa4_step mem state str) AND 0xff = d'"
proof -
  let ?n = "4 - unat (str AND 3)"
  obtain state' k' d' stop where d: "dfa_bytes (bytes_at mem str ?n) state 0 0 = (state', k', d', stop)"
    by (cases "dfa_bytes (bytes_at mem str ?n) state 0 0")
  from dfa_bytes_bounds [OF d assms] obtain e where
    b: "take_bit 3 state' = state'" "take_bit 8 d' = d'" "e \<le> length (bytes_at mem str ?n)" "k' = of_nat e"
    by auto
  have k: "take_bit 3 k' = k'"
    using b(3,4) small_count [of e 4 3] by (simp add: bytes_at_def)
  have "xdfa4_step mem state str
      = state' OR push_bit 3 k' OR push_bit 6 (of_flag stop) OR push_bit 7 d'"
    using d by (simp add: xdfa4_step_def numeric_dfa_word_step_def symbol_bytes_at)
  from that [OF d] unpack4 [OF b(1) k b(2) this] show ?thesis
    by blast
qed

lemma xdfa2_step_fields:
  assumes "scan_state state"
  obtains state' k' d' stop where
    "dfa_bytes (bytes_at mem str (if str AND 3 = 3 then 1 else 2)) state 0 0 = (state', k', d', stop)"
    "xdfa2_step mem state str AND 7 = state'" "drop_bit 3 (xdfa2_step mem state str) AND 3 = k'"
    "bit (xdfa2_step mem state str) 5 = stop" "drop_bit 6 (xdfa2_step mem state str) AND 0xff = d'"
proof -
  let ?n = "if str AND 3 = 3 then 1 else 2 :: nat"
  obtain state' k' d' stop where d: "dfa_bytes (bytes_at mem str ?n) state 0 0 = (state', k', d', stop)"
    by (cases "dfa_bytes (bytes_at mem str ?n) state 0 0")
  from dfa_bytes_bounds [OF d assms] obtain e where
    b: "take_bit 3 state' = state'" "take_bit 8 d' = d'" "e \<le> length (bytes_at mem str ?n)" "k' = of_nat e"
    by auto
  have k: "take_bit 2 k' = k'"
    using b(3,4) small_count [of e 2 2] by (simp add: bytes_at_def split: if_splits)
  have "unat (str AND 3) \<noteq> 3" if "str AND 3 \<noteq> 3"
    using that word_unat_eq_iff [of "str AND 3" 3] by simp
  then have "?n \<le> 4 - unat (str AND 3)"
    using offset_less_4 [of str] by (auto simp: not_less_eq)
  then have "xdfa2_step mem state str
      = state' OR push_bit 3 k' OR push_bit 5 (of_flag stop) OR push_bit 6 d'"
    using d symbol_bytes_at [of ?n str mem] by (simp add: xdfa2_step_def numeric_dfa_word_step_def)
  from that [OF d] unpack2 [OF b(1) k b(2) this] show ?thesis
    by blast
qed

lemma scan_entry [simp]: "scan_state 0" "within 0 0" "commit 0 t = t"
  by (simp_all add: scan_state_def within_def commit_def)

lemma xdfa4_loop_core:
  assumes "scan_state state" "within m state" "mem (str + of_nat N) = 0"
  shows "\<exists>state' str' m'. xdfa4_loop mem str state m = Some (state', str', m')
    \<and> core_state_loop mem str state (commit m t) = Some (state', str', commit m' t)"
  using assms
proof (induction N arbitrary: str state m rule: less_induct)
  case (less N)
  obtain state' k' d' stop where
    d: "dfa_bytes (bytes_at mem str (4 - unat (str AND 3))) state 0 0 = (state', k', d', stop)"
    and f [simp]: "xdfa4_step mem state str AND 7 = state'" "drop_bit 3 (xdfa4_step mem state str) AND 7 = k'"
      "bit (xdfa4_step mem state str) 6 = stop" "drop_bit 7 (xdfa4_step mem state str) AND 0xff = d'"
    using xdfa4_step_fields [OF less.prems(1)] by metis
  note go = scan_step [OF d _ less.prems]
  have "1 \<le> 4 - unat (str AND 3)"
    using offset_less_4 [of str] by simp
  note go = go [OF this]
  show ?case
  proof (cases stop)
    case True
    then show ?thesis
      using go(1) [of t] by (subst xdfa4_loop.simps) (simp add: Let_def)
  next
    case False
    from go(2) [OF this] less.IH [of _ state' "m OR d'" "str + k'"] show ?thesis
      using False go(1) [of t] by (subst xdfa4_loop.simps) (auto simp: Let_def)
  qed
qed

lemma xdfa2_loop_core:
  assumes "scan_state state" "within m state" "mem (str + of_nat N) = 0"
  shows "\<exists>state' str' m'. xdfa2_loop mem str state m = Some (state', str', m')
    \<and> core_state_loop mem str state (commit m t) = Some (state', str', commit m' t)"
  using assms
proof (induction N arbitrary: str state m rule: less_induct)
  case (less N)
  obtain state' k' d' stop where
    d: "dfa_bytes (bytes_at mem str (if str AND 3 = 3 then 1 else 2)) state 0 0 = (state', k', d', stop)"
    and f [simp]: "xdfa2_step mem state str AND 7 = state'" "drop_bit 3 (xdfa2_step mem state str) AND 3 = k'"
      "bit (xdfa2_step mem state str) 5 = stop" "drop_bit 6 (xdfa2_step mem state str) AND 0xff = d'"
    using xdfa2_step_fields [OF less.prems(1)] by metis
  note go = scan_step [OF d _ less.prems]
  have "1 \<le> (if str AND 3 = 3 then 1 else 2 :: nat)"
    by simp
  note go = go [OF this]
  show ?case
  proof (cases stop)
    case True
    then show ?thesis
      using go(1) [of t] by (subst xdfa2_loop.simps) (simp add: Let_def)
  next
    case False
    from go(2) [OF this] less.IH [of _ state' "m OR d'" "str + k'"] show ?thesis
      using False go(1) [of t] by (subst xdfa2_loop.simps) (auto simp: Let_def)
  qed
qed

lemma xdfa4h_loop_xdfa4:
  assumes "scan_state state" "within m state" "mem (str + of_nat N) = 0"
    "xdfa4_loop mem str state m = Some (state', str', m')"
  shows "xdfa4h_loop mem str state (m, tr, fin) = Some (str', 0, commit m' tr, inc (unat state') fin)"
  using assms
proof (induction N arbitrary: str state m rule: less_induct)
  case (less N)
  obtain s' k' d' stop where
    d: "dfa_bytes (bytes_at mem str (4 - unat (str AND 3))) state 0 0 = (s', k', d', stop)"
    and f [simp]: "xdfa4_step mem state str AND 7 = s'" "drop_bit 3 (xdfa4_step mem state str) AND 7 = k'"
      "bit (xdfa4_step mem state str) 6 = stop" "drop_bit 7 (xdfa4_step mem state str) = d'"
      "d' AND 0xff = d'"
    using xdfa4_step_fields [OF less.prems(1)] by metis
  have "1 \<le> 4 - unat (str AND 3)"
    using offset_less_4 [of str] by simp
  note go = scan_step(2) [OF d this less.prems(1-3)]
  show ?case
  proof (cases stop)
    case True
    then show ?thesis
      using less.prems(4) by (subst xdfa4h_loop.simps, subst (asm) xdfa4_loop.simps)
        (auto simp: Let_def xdfa4h_effect_def)
  next
    case False
    then have "xdfa4_loop mem (str + k') s' (m OR d') = Some (state', str', m')"
      using less.prems(4) by (subst (asm) xdfa4_loop.simps) (simp add: Let_def)
    with go [OF False] less.IH [of _ s' "m OR d'" "str + k'"] show ?thesis
      using False by (subst xdfa4h_loop.simps) (auto simp: Let_def xdfa4h_effect_def)
  qed
qed

lemma xdfacnt_loop_core:
  assumes "mem (str + of_nat N) = 0"
  shows "xdfacnt_loop mem str state t = core_state_loop mem str state t"
  using assms
proof (induction N arbitrary: str state t)
  case 0
  then show ?case
    by (subst xdfacnt_loop.simps, subst core_state_loop.simps) simp
next
  case (Suc N)
  then have "mem (str + 1 + of_nat N) = 0"
    by (simp add: add.assoc)
  then show ?case
    by (subst xdfacnt_loop.simps, subst core_state_loop.simps) (simp add: Suc.IH xdfacnt_switch_core)
qed

text \<open>
  C3. On a NUL-terminated string the CoreMark scanner returns, and all four accelerated scanners of the
  wrappers return with it: the same final state, the same pointer behind the token and the same
  transition counts. The XDFA4H variant, which starts with no pending transitions, leaves none pending
  and adds one to the final count of that state.
\<close>
theorem scanners_agree:
  assumes "mem (p + of_nat N) = 0"
  shows "\<exists>state p' t'. core_state_transition mem p t = Some (state, p', t')
    \<and> xdfacnt_transition mem p t = Some (state, p', t')
    \<and> xdfa2_transition mem p t = Some (state, p', t')
    \<and> xdfa4_transition mem p t = Some (state, p', t')
    \<and> xdfa4h_transition mem p (0, t, fin) = Some (p', 0, t', inc (unat state) fin)"
proof -
  obtain state p' m where x4: "xdfa4_loop mem p 0 0 = Some (state, p', m)"
    and core: "core_state_loop mem p 0 t = Some (state, p', commit m t)"
    using xdfa4_loop_core [of 0 0 mem p N t] assms by auto
  have "\<exists>m'. xdfa2_loop mem p 0 0 = Some (state, p', m') \<and> commit m' t = commit m t"
    using xdfa2_loop_core [of 0 0 mem p N t] assms core by auto
  moreover have "xdfa4h_loop mem p 0 (0, t, fin) = Some (p', 0, commit m t, inc (unat state) fin)"
    using xdfa4h_loop_xdfa4 [OF _ _ _ x4, of N t fin] assms by simp
  ultimately show ?thesis
    using x4 core xdfacnt_loop_core [of mem p N 0 t] assms
    by (auto simp: core_state_transition_def xdfacnt_transition_def xdfa2_transition_def
        xdfa4_transition_def xdfa4h_transition_def)
qed

definition mem_string :: "u8 list \<Rightarrow> u32 \<Rightarrow> u8" where
  "mem_string cs a = (if unat a < length cs then cs ! unat a else 0)"

lemma scanners_agree_witness:
  "mem_string [0x31, 0x2e, 0x35, 0x2c, 0x32] (1 + of_nat 4) = 0
   \<and> (\<exists>state p' t'. core_state_transition (mem_string [0x31, 0x2e, 0x35, 0x2c, 0x32]) 1 (\<lambda>_. 0)
         = Some (state, p', t')
       \<and> xdfa4_transition (mem_string [0x31, 0x2e, 0x35, 0x2c, 0x32]) 1 (\<lambda>_. 0) = Some (state, p', t'))"
  using scanners_agree [of "mem_string [0x31, 0x2e, 0x35, 0x2c, 0x32]" 1 4 "\<lambda>_. 0" "\<lambda>_. 0"]
  by (auto simp: mem_string_def)

end
