(* ===== verification/Xaccel_List.thy ===== *)
theory Xaccel_List
  imports Xaccel_Ops Coremark Nemu_Mem
begin

text \<open>
  Reversing a linked list in memory: \<open>core_list_reverse\<close> of CoreMark, the two XLISTREV instructions of
  NEMU and the wrapper \<open>__xaccel_xlistrev\<close> that replaces the routine. The instructions work on any
  word memory; the interpretation of \<open>word_mem\<close> carries the result to the physical memory of NEMU.
\<close>

section \<open>The instructions\<close>

text \<open>XLISTREV_INIT gives the new \<open>R(rd)\<close>; the register \<open>list_reverse_previous\<close> becomes \<open>current\<close>.\<close>

definition xlistrev_init ::
  "('s \<Rightarrow> u32 \<Rightarrow> (err, u32 \<times> 's) result) \<Rightarrow> ('s \<Rightarrow> u32 \<Rightarrow> u32 \<Rightarrow> (err, 's) result)
   \<Rightarrow> u32 \<Rightarrow> 's \<Rightarrow> (err, u32 \<times> 's) result" where
  "xlistrev_init rd wr current s =
     rbind (rd s current) (\<lambda>(next, s). rbind (wr s current 0) (\<lambda>s. Inr (next, s)))"

text \<open>
  XLISTREV_LOOP gives the new \<open>R(rd)\<close>, whether the instruction is executed again (\<open>dnpc = pc\<close>), and the
  new \<open>list_reverse_previous\<close>.
\<close>

definition xlistrev_step ::
  "('s \<Rightarrow> u32 \<Rightarrow> (err, u32 \<times> 's) result) \<Rightarrow> ('s \<Rightarrow> u32 \<Rightarrow> u32 \<Rightarrow> (err, 's) result)
   \<Rightarrow> u32 \<Rightarrow> u32 \<Rightarrow> 's \<Rightarrow> (err, u32 \<times> bool \<times> u32 \<times> 's) result" where
  "xlistrev_step rd wr previous current s =
     (if current = 0 then Inr (previous, False, previous, s)
      else rbind (rd s current) (\<lambda>(next, s). rbind (wr s current previous) (\<lambda>s.
        Inr (if next \<noteq> 0 then (next, True, current, s) else (current, False, current, s)))))"

partial_function (option) xlistrev_loop ::
  "('s \<Rightarrow> u32 \<Rightarrow> (err, u32 \<times> 's) result) \<Rightarrow> ('s \<Rightarrow> u32 \<Rightarrow> u32 \<Rightarrow> (err, 's) result)
   \<Rightarrow> u32 \<Rightarrow> u32 \<Rightarrow> 's \<Rightarrow> (err, u32 \<times> 's) result option" where
  "xlistrev_loop rd wr previous current s =
     (case xlistrev_step rd wr previous current s of
        Inl e \<Rightarrow> Some (Inl e)
      | Inr (r, again, previous, s) \<Rightarrow> if again then xlistrev_loop rd wr previous r s else Some (Inr (r, s)))"

definition xaccel_xlistrev ::
  "('s \<Rightarrow> u32 \<Rightarrow> (err, u32 \<times> 's) result) \<Rightarrow> ('s \<Rightarrow> u32 \<Rightarrow> u32 \<Rightarrow> (err, 's) result)
   \<Rightarrow> u32 \<Rightarrow> 's \<Rightarrow> (err, u32 \<times> 's) result option" where
  "xaccel_xlistrev rd wr list s =
     (if list = 0 then Some (Inr (0, s))
      else case xlistrev_init rd wr list s of
             Inl e \<Rightarrow> Some (Inl e)
           | Inr (next, s) \<Rightarrow> xlistrev_loop rd wr list next s)"

section \<open>Linked lists\<close>

fun chain :: "(u32 \<Rightarrow> u32) \<Rightarrow> u32 \<Rightarrow> u32 list \<Rightarrow> bool" where
  "chain nxt p [] \<longleftrightarrow> p = 0"
| "chain nxt p (a # as) \<longleftrightarrow> p = a \<and> a \<noteq> 0 \<and> chain nxt (nxt a) as"

lemma chain_not_0: "chain nxt p as \<Longrightarrow> 0 \<notin> set as"
  by (induction as arbitrary: p) auto

lemma chain_upd [simp]: "a \<notin> set as \<Longrightarrow> chain (nxt(a := x)) p as \<longleftrightarrow> chain nxt p as"
  by (induction as arbitrary: p) auto

lemma chain_unique: "chain nxt p as \<Longrightarrow> chain nxt p bs \<Longrightarrow> as = bs"
proof (induction as arbitrary: p bs)
  case Nil
  then show ?case by (cases bs) auto
next
  case (Cons a as)
  then show ?case by (cases bs) auto
qed

lemma chain_append: "chain nxt p (as @ a # bs) \<Longrightarrow> chain nxt a (a # bs)"
  by (induction as arbitrary: p) auto

lemma chain_distinct: "chain nxt p as \<Longrightarrow> distinct as"
proof (induction as arbitrary: p)
  case Nil
  then show ?case by simp
next
  case (Cons a as)
  have "a \<notin> set as"
  proof
    assume "a \<in> set as"
    then obtain xs ys where as: "as = xs @ a # ys"
      using split_list by metis
    then have "chain nxt a (a # ys)"
      using Cons.prems chain_append [of nxt "nxt a" xs a ys] by simp
    then have "as = ys"
      using Cons.prems chain_unique [of nxt "nxt a" as ys] by simp
    with as show False
      by simp
  qed
  with Cons show ?case by auto
qed

lemma list_reverse_loop_unfold:
  "list_reverse_loop nxt 0 p = Some (p, nxt)"
  "a \<noteq> 0 \<Longrightarrow> list_reverse_loop nxt a p = list_reverse_loop (nxt(a := p)) (nxt a) a"
  by (subst list_reverse_loop.simps; simp)+

lemma list_reverse_loop_chain:
  assumes "chain nxt p as" "chain nxt q bs" "set as \<inter> set bs = {}"
  shows "\<exists>p' nxt'. list_reverse_loop nxt p q = Some (p', nxt') \<and> chain nxt' p' (rev as @ bs)
    \<and> (\<forall>a. a \<notin> set as \<longrightarrow> nxt' a = nxt a)"
  using assms
proof (induction as arbitrary: nxt p q bs)
  case Nil
  then show ?case by (simp add: list_reverse_loop_unfold)
next
  case (Cons a as)
  have "a \<notin> set as"
    using chain_distinct [OF Cons.prems(1)] by simp
  then have "chain (nxt(a := q)) (nxt a) as" "chain (nxt(a := q)) a (a # bs)"
      "set as \<inter> set (a # bs) = {}"
    using Cons.prems by auto
  from Cons.IH [OF this] obtain p' nxt' where
    "list_reverse_loop (nxt(a := q)) (nxt a) a = Some (p', nxt')" "chain nxt' p' (rev as @ a # bs)"
    "\<forall>b. b \<notin> set as \<longrightarrow> nxt' b = (nxt(a := q)) b"
    by blast
  then show ?case
    using Cons.prems(1) by (auto simp: list_reverse_loop_unfold simp del: fun_upd_apply) simp
qed

text \<open>
  C33. \<open>core_list_reverse\<close> ends on every finite list and returns the list of the same nodes in reverse
  order; the next pointers of all other nodes are unchanged.
\<close>
theorem core_list_reverse_correct:
  assumes "chain nxt p as"
  shows "\<exists>p' nxt'. core_list_reverse nxt p = Some (p', nxt') \<and> chain nxt' p' (rev as)
    \<and> (\<forall>a. a \<notin> set as \<longrightarrow> nxt' a = nxt a)"
  using list_reverse_loop_chain [OF assms, of 0 "[]"] by (simp add: core_list_reverse_def)

lemma core_list_reverse_correct_witness:
  "chain ((\<lambda>_. 0)(8 := 24, 24 := 16)) 8 [8, 24, 16]
   \<and> (\<exists>p' nxt'. core_list_reverse ((\<lambda>_. 0)(8 := 24, 24 := 16)) 8 = Some (p', nxt')
       \<and> chain nxt' p' [16, 24, 8])"
proof -
  have "chain ((\<lambda>_. 0)(8 := 24, 24 := 16)) 8 [8, 24, 16]"
    by simp
  with core_list_reverse_correct [OF this] show ?thesis
    by auto
qed

section \<open>The accelerated reversal\<close>

context word_mem
begin

lemma xlistrev_loop_core:
  assumes "invar s" "chain nxt p as" "\<forall>a \<in> set as. good a" "\<forall>b. good b \<longrightarrow> val s b = nxt b"
  shows "\<exists>p' nxt' s'. list_reverse_loop nxt p q = Some (p', nxt')
    \<and> xlistrev_loop rd wr q p s = Some (Inr (p', s')) \<and> invar s' \<and> (\<forall>b. good b \<longrightarrow> val s' b = nxt' b)"
  using assms
proof (induction as arbitrary: nxt p q s)
  case Nil
  then show ?case
    by (subst xlistrev_loop.simps) (simp add: list_reverse_loop_unfold xlistrev_step_def)
next
  case (Cons a as)
  then have a: "p = a" "a \<noteq> 0" "good a" "a \<notin> set as" "chain nxt (nxt a) as"
    using chain_distinct [OF Cons.prems(2)] by simp_all
  obtain s1 where s1: "wr s a q = Inr s1" "invar s1" "\<forall>b. good b \<longrightarrow> val s1 b = (nxt(a := q)) b"
    using wr_val [OF Cons.prems(1) a(3), of q] Cons.prems(4) by auto
  have step: "xlistrev_step rd wr q p s
      = Inr (if nxt a \<noteq> 0 then (nxt a, True, a, s1) else (a, False, a, s1))"
    using a s1(1) rd_val [OF Cons.prems(1) a(3)] Cons.prems(4) by (simp add: xlistrev_step_def)
  show ?case
  proof (cases "nxt a = 0")
    case True
    then show ?thesis
      using step a(1,2) s1(2,3) by (subst xlistrev_loop.simps) (simp add: list_reverse_loop_unfold)
  next
    case False
    have "chain (nxt(a := q)) (nxt a) as"
      using a(4,5) by simp
    from Cons.IH [OF s1(2) this _ s1(3), of a] show ?thesis
      using step a(1,2) False Cons.prems(3)
      by (subst xlistrev_loop.simps) (simp add: list_reverse_loop_unfold del: fun_upd_apply)
  qed
qed

lemma xlistrev_core:
  assumes "invar s" "chain (val s) p as" "\<forall>a \<in> set as. good a"
  shows "\<exists>p' nxt' s'. core_list_reverse (val s) p = Some (p', nxt')
    \<and> xaccel_xlistrev rd wr p s = Some (Inr (p', s')) \<and> invar s' \<and> (\<forall>b. good b \<longrightarrow> val s' b = nxt' b)"
proof (cases as)
  case Nil
  then show ?thesis
    using assms by (simp add: core_list_reverse_def xaccel_xlistrev_def list_reverse_loop_unfold)
next
  case (Cons a bs)
  then have a: "p = a" "a \<noteq> 0" "good a" "a \<notin> set bs" "chain (val s) (val s a) bs"
    using assms chain_distinct [OF assms(2)] by simp_all
  obtain s1 where s1: "wr s a 0 = Inr s1" "invar s1" "\<forall>b. good b \<longrightarrow> val s1 b = ((val s)(a := 0)) b"
    using wr_val [OF assms(1) a(3), of 0] by auto
  have "chain ((val s)(a := 0)) (val s a) bs" "\<forall>a \<in> set bs. good a"
    using a(4,5) assms(3) Cons by simp_all
  from xlistrev_loop_core [OF s1(2) this s1(3), of a] show ?thesis
    using a(1,2) rd_val [OF assms(1) a(3)] s1(1)
    by (simp add: core_list_reverse_def xaccel_xlistrev_def xlistrev_init_def list_reverse_loop_unfold
        del: fun_upd_apply)
qed

end

text \<open>
  C34. The XLISTREV wrapper reverses a linked list of aligned words in the physical memory of NEMU exactly as
  \<open>core_list_reverse\<close> reverses it in C: it ends, returns the same head and leaves every word of the
  memory with the value that routine gives it.
\<close>
theorem xlistrev_correct:
  assumes "no_mtrace s" "chain (pmem_word c s) p as" "\<forall>a \<in> set as. good_word c a"
  shows "\<exists>p' nxt' s'. core_list_reverse (pmem_word c s) p = Some (p', nxt')
    \<and> xaccel_xlistrev (\<lambda>s a. vaddr_read c s a 4) (\<lambda>s a v. vaddr_write c s a 4 v) p s = Some (Inr (p', s'))
    \<and> no_mtrace s' \<and> (\<forall>b. good_word c b \<longrightarrow> pmem_word c s' b = nxt' b)"
  using assms by (rule pmem.xlistrev_core)

lemma xlistrev_correct_witness:
  "\<exists>p' s'. xaccel_xlistrev (\<lambda>s a. vaddr_read kconfig_default s a 4)
       (\<lambda>s a v. vaddr_write kconfig_default s a 4 v) 0x80000100 (empty_mem ()) = Some (Inr (p', s'))"
proof -
  have "pmem_word kconfig_default (empty_mem ()) a = 0" for a
    by (simp add: pmem_word_def load_bytes_def upt_rec numeral_eq_Suc)
  then have "chain (pmem_word kconfig_default (empty_mem ())) 0x80000100 [0x80000100]"
    by simp
  moreover have "good_word kconfig_default 0x80000100"
    by (simp add: good_word_def region_defs)
  ultimately show ?thesis
    using xlistrev_correct [of "empty_mem ()" kconfig_default "0x80000100" "[0x80000100]"]
    by (auto simp: no_mtrace_def)
qed

end
