(* ===== verification/Riscv_Inst.thy ===== *)
theory Riscv_Inst
  imports Nemu_Mem Profile Xaccel_Ops Xaccel_Scan Xaccel_List
begin

text \<open>
  The instruction step of NEMU: \<open>nemu/src/isa/riscv32/inst.c\<close> with the CSR file, the system
  instructions, the accelerator instructions and the hooks of the traces and the profiler,
  \<open>nemu/src/isa/riscv32/init.c\<close>, \<open>system/intr.c\<close>, \<open>engine/interpreter/hostcall.c\<close> and the
  state changes of \<open>monitor/sdb/sdb.c\<close>. The machine has the 32 registers of the configuration without
  \<open>CONFIG_RVE\<close>.

  Two parts of the step are generated by the build and are parameters here: the encodings of
  \<open>encoding.out.h\<close> (a record of numbers) and \<open>execute_instruction\<close>, which executes the
  base instructions on the whole machine and answers 0 for an instruction it knows.
\<close>

section \<open>State\<close>

datatype NState = NEMU_RUNNING | NEMU_STOP | NEMU_END | NEMU_ABORT | NEMU_QUIT

record 'd mach =
  gpr :: "nat \<Rightarrow> u32"
  cpu_pc :: u32
  fpr :: "nat \<Rightarrow> nat \<Rightarrow> u64"
  fcsr :: u32
  g_csr_MCAUSE :: u32
  g_csr_MEPC :: u32
  g_csr_MTVAL :: u32
  g_csr_MVENDORID :: u32
  g_csr_MARCHID :: u32
  g_csr_MSTATUS :: u32
  g_csr_MSCRATCH :: u32
  g_csr_MTVEC :: u32
  list_reverse_previous :: u32
  numeric_dfa_transition_counts :: "nat \<Rightarrow> u32"
  numeric_dfa_final_counts :: "nat \<Rightarrow> u32"
  numeric_dfa_pending_mask :: u32
  g_nbranches :: u64
  g_itrace_pack :: "itrace_pack option"
  g_btrace_pack :: "btrace_pack option"
  mem :: "'d mem_state"
  profiler :: prof
  nemu_state :: NState
  halt_pc :: u32
  halt_ret :: u32
  sdb_inited :: bool
  g_nr_guest_inst :: u64

record encodings =
  MATCH_CSRRW :: "u32 \<times> u32"
  MATCH_CSRRS :: "u32 \<times> u32"
  MATCH_CSRRC :: "u32 \<times> u32"
  MATCH_CSRRWI :: "u32 \<times> u32"
  MATCH_CSRRSI :: "u32 \<times> u32"
  MATCH_CSRRCI :: "u32 \<times> u32"
  MATCH_EBREAK :: "u32 \<times> u32"
  MATCH_ECALL :: "u32 \<times> u32"
  MATCH_MRET :: "u32 \<times> u32"
  MATCH_JALR :: "u32 \<times> u32"
  MATCH_JAL :: "u32 \<times> u32"
  INSN_FIELD_RD :: u32
  INSN_FIELD_RS1 :: u32
  INSN_FIELD_RS2 :: u32
  CSR_FFLAGS :: u32
  CSR_FRM :: u32
  CSR_FCSR :: u32
  CSR_MCAUSE :: u32
  CSR_MEPC :: u32
  CSR_MTVAL :: u32
  CSR_MSTATUS :: u32
  CSR_MTVEC :: u32
  CSR_MVENDORID :: u32
  CSR_MARCHID :: u32
  CSR_MSCRATCH :: u32
  CAUSE_ILLEGAL_INSTRUCTION :: u32
  CAUSE_MACHINE_ECALL :: u32

text \<open>
  A pair holds the mask and the match word of an instruction. \<open>execute_instruction\<close> takes the
  instruction and the machine with the pc of the instruction, and gives its answer, the next pc and the
  machine it leaves.
\<close>

type_synonym 'd exec_fun = "u32 \<Rightarrow> u32 \<Rightarrow> 'd mach \<Rightarrow> (err, int \<times> u32 \<times> 'd mach) result"

definition is_inst :: "u32 \<Rightarrow> u32 \<times> u32 \<Rightarrow> bool" where
  "is_inst inst e \<longleftrightarrow> inst AND fst e = snd e"

definition set_R :: "nat \<Rightarrow> u32 \<Rightarrow> 'd mach \<Rightarrow> 'd mach" where
  "set_R i v m = m\<lparr>gpr := (gpr m)(i := v)\<rparr>"

section \<open>Traps and CSRs\<close>

text \<open>\<open>set_nemu_state\<close> does nothing before the debugger is initialised.\<close>

definition set_nemu_state :: "config \<Rightarrow> NState \<Rightarrow> u32 \<Rightarrow> u32 \<Rightarrow> 'd mach \<Rightarrow> 'd mach" where
  "set_nemu_state c st pc ret m =
     (if \<not> sdb_inited m then m
      else let m = (if CONFIG_DIFFTEST c then m\<lparr>mem := (mem m)\<lparr>skip_difftest_ref := True\<rparr>\<rparr> else m)
           in m\<lparr>nemu_state := st, halt_pc := pc, halt_ret := ret\<rparr>)"

definition inst_fetch :: "config \<Rightarrow> u32 \<Rightarrow> nat \<Rightarrow> 'd mach \<Rightarrow> (err, u32 \<times> u32 \<times> 'd mach) result" where
  "inst_fetch c pc len m =
     rbind (vaddr_ifetch c (mem m) pc len) (\<lambda>(inst, s). Inr (inst, pc + of_nat len, m\<lparr>mem := s\<rparr>))"

definition invalid_inst :: "config \<Rightarrow> u32 \<Rightarrow> 'd mach \<Rightarrow> (err, 'd mach) result" where
  "invalid_inst c thispc m =
     rbind (inst_fetch c thispc 4 m) (\<lambda>(_, pc, m).
     rbind (inst_fetch c pc 4 m) (\<lambda>(_, _, m). Inr (set_nemu_state c NEMU_ABORT thispc (- 1) m)))"

definition isa_raise_intr :: "u32 \<Rightarrow> u32 \<Rightarrow> 'd mach \<Rightarrow> u32" where
  "isa_raise_intr NO epc m = g_csr_MTVEC m"

definition riscv_fp_enabled :: "'d mach \<Rightarrow> bool" where
  "riscv_fp_enabled m \<longleftrightarrow> BITS (g_csr_MSTATUS m) 14 13 \<noteq> 0"

definition riscv_fp_mark_dirty :: "'d mach \<Rightarrow> 'd mach" where
  "riscv_fp_mark_dirty m =
     m\<lparr>g_csr_MSTATUS := (g_csr_MSTATUS m AND NOT (push_bit 13 3)) OR push_bit 13 3\<rparr>"

definition riscv_raise_illegal_instruction :: "encodings \<Rightarrow> u32 \<Rightarrow> u32 \<Rightarrow> 'd mach \<Rightarrow> u32 \<times> 'd mach" where
  "riscv_raise_illegal_instruction E inst pc m =
     (let m = m\<lparr>g_csr_MEPC := pc, g_csr_MCAUSE := CAUSE_ILLEGAL_INSTRUCTION E, g_csr_MTVAL := inst\<rparr>
      in (isa_raise_intr (CAUSE_ILLEGAL_INSTRUCTION E) pc m, m))"

definition handle_csr_rw :: "encodings \<Rightarrow> u32 \<Rightarrow> u32 \<Rightarrow> bool \<Rightarrow> 'd mach \<Rightarrow> (err, u32 \<times> 'd mach) result" where
  "handle_csr_rw E csr src1 is_write m =
     (if csr = CSR_FFLAGS E
      then Inr (fcsr m AND 0x1f, if is_write
             then riscv_fp_mark_dirty (m\<lparr>fcsr := (fcsr m AND NOT 0x1f) OR (src1 AND 0x1f)\<rparr>) else m)
      else if csr = CSR_FRM E
      then Inr (drop_bit 5 (fcsr m) AND 0x7, if is_write
             then riscv_fp_mark_dirty (m\<lparr>fcsr := (fcsr m AND NOT 0xe0) OR push_bit 5 (src1 AND 0x7)\<rparr>) else m)
      else if csr = CSR_FCSR E
      then Inr (fcsr m, if is_write then riscv_fp_mark_dirty (m\<lparr>fcsr := src1 AND 0xff\<rparr>) else m)
      else if csr = CSR_MCAUSE E then Inr (g_csr_MCAUSE m, if is_write then m\<lparr>g_csr_MCAUSE := src1\<rparr> else m)
      else if csr = CSR_MEPC E then Inr (g_csr_MEPC m, if is_write then m\<lparr>g_csr_MEPC := src1\<rparr> else m)
      else if csr = CSR_MTVAL E then Inr (g_csr_MTVAL m, if is_write then m\<lparr>g_csr_MTVAL := src1\<rparr> else m)
      else if csr = CSR_MSTATUS E then Inr (g_csr_MSTATUS m, if is_write then m\<lparr>g_csr_MSTATUS := src1\<rparr> else m)
      else if csr = CSR_MTVEC E then Inr (g_csr_MTVEC m, if is_write then m\<lparr>g_csr_MTVEC := src1\<rparr> else m)
      else if csr = CSR_MVENDORID E
      then Inr (g_csr_MVENDORID m, if is_write then m\<lparr>g_csr_MVENDORID := src1\<rparr> else m)
      else if csr = CSR_MARCHID E then Inr (g_csr_MARCHID m, if is_write then m\<lparr>g_csr_MARCHID := src1\<rparr> else m)
      else if csr = CSR_MSCRATCH E
      then Inr (g_csr_MSCRATCH m, if is_write then m\<lparr>g_csr_MSCRATCH := src1\<rparr> else m)
      else Inl Panic)"

definition csr_read :: "encodings \<Rightarrow> u32 \<Rightarrow> 'd mach \<Rightarrow> (err, u32) result" where
  "csr_read E csr m = rbind (handle_csr_rw E csr 0 False m) (\<lambda>(old, _). Inr old)"

definition csr_write :: "encodings \<Rightarrow> u32 \<Rightarrow> u32 \<Rightarrow> 'd mach \<Rightarrow> (err, 'd mach) result" where
  "csr_write E csr src1 m = rbind (handle_csr_rw E csr src1 True m) (\<lambda>(_, m). Inr m)"

section \<open>The instruction blocks\<close>

text \<open>
  A block of \<open>decode_exec\<close> is the pair of its encoding and its body; a body may change \<open>dnpc\<close>. The
  fields of an instruction word index the registers.
\<close>

type_synonym 'd body = "u32 \<Rightarrow> 'd mach \<Rightarrow> (err, u32 \<times> 'd mach) result"
type_synonym 'd block = "(u32 \<times> u32) \<times> 'd body"

definition keep_pc :: "('d mach \<Rightarrow> (err, 'd mach) result) \<Rightarrow> 'd body" where
  "keep_pc f = (\<lambda>dnpc m. rbind (f m) (\<lambda>m. Inr (dnpc, m)))"

definition op_csrrw :: "encodings \<Rightarrow> u32 \<Rightarrow> nat \<Rightarrow> u32 \<Rightarrow> 'd mach \<Rightarrow> (err, 'd mach) result" where
  "op_csrrw E csr_addr rd src1 m =
     rbind (if rd \<noteq> 0 then rbind (csr_read E csr_addr m) (\<lambda>v. Inr (set_R rd v m)) else Inr m)
       (csr_write E csr_addr src1)"

text \<open>The set and clear instructions read \<open>R(rs1)\<close> after the CSR and before \<open>R(rd)\<close> is written.\<close>

definition op_csrrs :: "encodings \<Rightarrow> u32 \<Rightarrow> nat \<Rightarrow> u32 \<Rightarrow> 'd mach \<Rightarrow> (err, 'd mach) result" where
  "op_csrrs E csr_addr rd src1 m =
     rbind (csr_read E csr_addr m) (\<lambda>old. csr_write E csr_addr (old OR src1) (set_R rd old m))"

definition op_csrrc :: "encodings \<Rightarrow> u32 \<Rightarrow> nat \<Rightarrow> u32 \<Rightarrow> 'd mach \<Rightarrow> (err, 'd mach) result" where
  "op_csrrc E csr_addr rd src1 m =
     rbind (csr_read E csr_addr m) (\<lambda>old. csr_write E csr_addr (old AND NOT src1) (set_R rd old m))"

definition op_ecall :: "encodings \<Rightarrow> u32 \<Rightarrow> 'd body" where
  "op_ecall E pc dnpc m =
     rbind (csr_write E (CSR_MEPC E) pc m) (\<lambda>m.
     rbind (csr_write E (CSR_MCAUSE E) (CAUSE_MACHINE_ECALL E) m) (\<lambda>m.
       Inr (isa_raise_intr 0x11451419 pc m, m)))"

definition op_mret :: "encodings \<Rightarrow> 'd body" where
  "op_mret E dnpc m = rbind (csr_read E (CSR_MEPC E) m) (\<lambda>v. Inr (v, m))"

definition rec_xaccel :: "nat \<Rightarrow> u64 \<Rightarrow> u64 \<Rightarrow> 'd mach \<Rightarrow> 'd mach" where
  "rec_xaccel op units cycles m = m\<lparr>profiler := riscv_profile_record_xaccel (profiler m) op units cycles\<rparr>"

definition rec_xdfacnt :: "nat \<Rightarrow> 'd mach \<Rightarrow> 'd mach" where
  "rec_xdfacnt op m = m\<lparr>profiler := riscv_profile_record_xdfacnt (profiler m) op\<rparr>"

definition op_crc :: "nat \<Rightarrow> nat \<Rightarrow> nat \<Rightarrow> nat \<Rightarrow> 'd mach \<Rightarrow> (err, 'd mach) result" where
  "op_crc bytes rd rs1 rs2 m = Inr (set_R rd (crc_update (gpr m rs1) (gpr m rs2) bytes) m)"

definition op_xmac16 :: "nat \<Rightarrow> nat \<Rightarrow> nat \<Rightarrow> 'd mach \<Rightarrow> (err, 'd mach) result" where
  "op_xmac16 rd rs1 rs2 m =
     Inr (rec_xaccel 0 1 3 (set_R rd (xmac16_op (gpr m rd) (gpr m rs1) (gpr m rs2)) m))"

definition op_xdot16 :: "nat \<Rightarrow> nat \<Rightarrow> nat \<Rightarrow> 'd mach \<Rightarrow> (err, 'd mach) result" where
  "op_xdot16 rd rs1 rs2 m =
     Inr (rec_xaccel 1 2 4 (set_R rd (xdot16_op (gpr m rs1) (gpr m rs2)) m))"

definition op_xbmul :: "nat \<Rightarrow> nat \<Rightarrow> 'd mach \<Rightarrow> (err, 'd mach) result" where
  "op_xbmul rd rs1 m = Inr (rec_xaccel 2 1 1 (set_R rd (xbmul_op (gpr m rs1)) m))"

definition mem_rd :: "config \<Rightarrow> 'd mem_state \<Rightarrow> u32 \<Rightarrow> (err, u32 \<times> 'd mem_state) result" where
  "mem_rd c s a = vaddr_read c s a 4"

definition mem_wr :: "config \<Rightarrow> 'd mem_state \<Rightarrow> u32 \<Rightarrow> u32 \<Rightarrow> (err, 'd mem_state) result" where
  "mem_wr c s a v = vaddr_write c s a 4 v"

definition op_xlistrev_init :: "config \<Rightarrow> nat \<Rightarrow> nat \<Rightarrow> 'd mach \<Rightarrow> (err, 'd mach) result" where
  "op_xlistrev_init c rd rs1 m =
     (let current = gpr m rs1 in
      rbind (xlistrev_init (mem_rd c) (mem_wr c) current (mem m)) (\<lambda>(v, s).
        Inr (rec_xaccel 3 1 4 ((set_R rd v m)\<lparr>mem := s, list_reverse_previous := current\<rparr>))))"

definition op_xlistrev_loop :: "config \<Rightarrow> u32 \<Rightarrow> nat \<Rightarrow> nat \<Rightarrow> 'd body" where
  "op_xlistrev_loop c pc rd rs1 dnpc m =
     rbind (xlistrev_step (mem_rd c) (mem_wr c) (list_reverse_previous m) (gpr m rs1) (mem m))
       (\<lambda>(v, again, previous, s).
         Inr (if again then pc else dnpc,
              rec_xaccel 3 1 4 ((set_R rd v m)\<lparr>mem := s, list_reverse_previous := previous\<rparr>)))"

definition op_xmsum :: "config \<Rightarrow> nat \<Rightarrow> nat \<Rightarrow> nat \<Rightarrow> 'd mach \<Rightarrow> (err, 'd mach) result" where
  "op_xmsum c rd rs1 rs2 m =
     rbind (matrix_clipped_sum (mem_rd c) (gpr m rs1) (gpr m rs2) (mem m)) (\<lambda>((v, elements), s).
       Inr (rec_xaccel 5 elements (8 + 2 * elements) ((set_R rd v m)\<lparr>mem := s\<rparr>)))"

definition op_xdfacnt_init :: "'d mach \<Rightarrow> (err, 'd mach) result" where
  "op_xdfacnt_init m = Inr (rec_xdfacnt 0 (m\<lparr>numeric_dfa_transition_counts := (\<lambda>_. 0),
     numeric_dfa_final_counts := (\<lambda>_. 0), numeric_dfa_pending_mask := 0\<rparr>))"

definition op_xdfacnt_inc :: "nat \<Rightarrow> 'd mach \<Rightarrow> (err, 'd mach) result" where
  "op_xdfacnt_inc rs1 m =
     (let state = gpr m rs1 in
      Inr (rec_xdfacnt 1 (if state < 8
        then m\<lparr>numeric_dfa_transition_counts := inc (unat state) (numeric_dfa_transition_counts m)\<rparr> else m)))"

definition op_xdfacnt_read :: "nat \<Rightarrow> nat \<Rightarrow> 'd mach \<Rightarrow> (err, 'd mach) result" where
  "op_xdfacnt_read rd rs1 m =
     (let state = gpr m rs1 in
      Inr (rec_xdfacnt 2 (set_R rd (if state < 8 then numeric_dfa_transition_counts m (unat state) else 0) m)))"

definition op_xdfacnt_commit :: "nat \<Rightarrow> 'd mach \<Rightarrow> (err, 'd mach) result" where
  "op_xdfacnt_commit rs1 m =
     Inr (rec_xdfacnt 3 (m\<lparr>numeric_dfa_transition_counts :=
       commit (gpr m rs1) (numeric_dfa_transition_counts m)\<rparr>))"

definition read_symbols :: "config \<Rightarrow> u32 \<Rightarrow> 'd mem_state \<Rightarrow> (err, u32 \<times> 'd mem_state) result" where
  "read_symbols c address s =
     rbind (mem_rd c s (address AND NOT 3)) (\<lambda>(v, s). Inr (drop_bit (8 * unat (address AND 3)) v, s))"

definition op_xdfa2_step :: "config \<Rightarrow> nat \<Rightarrow> nat \<Rightarrow> nat \<Rightarrow> 'd mach \<Rightarrow> (err, 'd mach) result" where
  "op_xdfa2_step c rd rs1 rs2 m =
     (let address = gpr m rs2 in
      rbind (read_symbols c address (mem m)) (\<lambda>(symbols, s).
        Inr (rec_xdfacnt 4 (set_R rd (numeric_dfa_word_step (gpr m rs1) symbols
          (if address AND 3 = 3 then 1 else 2) True) (m\<lparr>mem := s\<rparr>)))))"

definition op_xdfa4_step :: "config \<Rightarrow> nat \<Rightarrow> nat \<Rightarrow> nat \<Rightarrow> 'd mach \<Rightarrow> (err, 'd mach) result" where
  "op_xdfa4_step c rd rs1 rs2 m =
     (let address = gpr m rs2 in
      rbind (read_symbols c address (mem m)) (\<lambda>(symbols, s).
        Inr (rec_xdfacnt 5 (set_R rd (numeric_dfa_word_step (gpr m rs1) symbols
          (4 - unat (address AND 3)) False) (m\<lparr>mem := s\<rparr>)))))"

definition op_xdfa4h_final_read :: "nat \<Rightarrow> nat \<Rightarrow> 'd mach \<Rightarrow> (err, 'd mach) result" where
  "op_xdfa4h_final_read rd rs1 m =
     (let state = gpr m rs1 in
      Inr (rec_xdfacnt 2 (set_R rd (if state < 8 then numeric_dfa_final_counts m (unat state) else 0) m)))"

definition op_xdfa4h_step :: "config \<Rightarrow> nat \<Rightarrow> nat \<Rightarrow> nat \<Rightarrow> 'd mach \<Rightarrow> (err, 'd mach) result" where
  "op_xdfa4h_step c rd rs1 rs2 m =
     (let address = gpr m rs2 in
      rbind (read_symbols c address (mem m)) (\<lambda>(symbols, s).
        let res = numeric_dfa_word_step (gpr m rs1) symbols (4 - unat (address AND 3)) False in
        case xdfa4h_effect res (numeric_dfa_pending_mask m, numeric_dfa_transition_counts m,
            numeric_dfa_final_counts m) of (pending, tr, fin) \<Rightarrow>
          Inr (rec_xdfacnt 5 (set_R rd res (m\<lparr>mem := s, numeric_dfa_pending_mask := pending,
            numeric_dfa_transition_counts := tr, numeric_dfa_final_counts := fin\<rparr>)))))"

text \<open>The blocks behind \<open>execute_instruction\<close>, in the order of the source.\<close>

definition MASK_XACCEL :: u32 where "MASK_XACCEL = 0xfe00707f"

definition system_blocks :: "encodings \<Rightarrow> config \<Rightarrow> u32 \<Rightarrow> u32 \<Rightarrow> nat \<Rightarrow> nat \<Rightarrow> 'd block list" where
  "system_blocks E c pc inst rd rs1 =
     (let csr_addr = BITS inst 31 20; csr_uimm = BITS inst 19 15 in
      [(MATCH_CSRRW E, keep_pc (\<lambda>m. op_csrrw E csr_addr rd (gpr m rs1) m)),
       (MATCH_CSRRS E, keep_pc (\<lambda>m. op_csrrs E csr_addr rd (gpr m rs1) m)),
       (MATCH_CSRRC E, keep_pc (\<lambda>m. op_csrrc E csr_addr rd (gpr m rs1) m)),
       (MATCH_CSRRWI E, keep_pc (op_csrrw E csr_addr rd csr_uimm)),
       (MATCH_CSRRSI E, keep_pc (op_csrrs E csr_addr rd csr_uimm)),
       (MATCH_CSRRCI E, keep_pc (op_csrrc E csr_addr rd csr_uimm)),
       (MATCH_EBREAK E, keep_pc (\<lambda>m. Inr (set_nemu_state c NEMU_END pc (gpr m 10) m))),
       (MATCH_ECALL E, op_ecall E pc),
       (MATCH_MRET E, op_mret E)])"

definition xaccel_blocks :: "config \<Rightarrow> u32 \<Rightarrow> nat \<Rightarrow> nat \<Rightarrow> nat \<Rightarrow> 'd block list" where
  "xaccel_blocks c pc rd rs1 rs2 =
     [((MASK_XACCEL, 0x0000000b), keep_pc (op_crc 1 rd rs1 rs2)),
      ((MASK_XACCEL, 0x0000100b), keep_pc (op_crc 2 rd rs1 rs2)),
      ((MASK_XACCEL, 0x0000200b), keep_pc (op_crc 4 rd rs1 rs2)),
      ((MASK_XACCEL, 0x0000300b), keep_pc (op_xmac16 rd rs1 rs2)),
      ((MASK_XACCEL, 0x0000400b), keep_pc (op_xdot16 rd rs1 rs2)),
      ((MASK_XACCEL, 0x0000500b), keep_pc (op_xbmul rd rs1)),
      ((MASK_XACCEL, 0x0000600b), keep_pc (op_xlistrev_init c rd rs1)),
      ((MASK_XACCEL, 0x0400600b), op_xlistrev_loop c pc rd rs1),
      ((MASK_XACCEL, 0x0400700b), keep_pc (op_xmsum c rd rs1 rs2)),
      ((MASK_XACCEL, 0x0000005b), keep_pc op_xdfacnt_init),
      ((MASK_XACCEL, 0x0000105b), keep_pc (op_xdfacnt_inc rs1)),
      ((MASK_XACCEL, 0x0000205b), keep_pc (op_xdfacnt_read rd rs1)),
      ((MASK_XACCEL, 0x0000305b), keep_pc (op_xdfacnt_commit rs1)),
      ((MASK_XACCEL, 0x0000405b), keep_pc (op_xdfa2_step c rd rs1 rs2)),
      ((MASK_XACCEL, 0x0000505b), keep_pc (op_xdfa4_step c rd rs1 rs2)),
      ((MASK_XACCEL, 0x0200205b), keep_pc (op_xdfa4h_final_read rd rs1)),
      ((MASK_XACCEL, 0x0200505b), keep_pc (op_xdfa4h_step c rd rs1 rs2))]"

fun run_blocks :: "u32 \<Rightarrow> 'd block list \<Rightarrow> bool \<times> u32 \<times> 'd mach \<Rightarrow> (err, bool \<times> u32 \<times> 'd mach) result" where
  "run_blocks inst [] d = Inr d"
| "run_blocks inst ((e, body) # bs) (matched, dnpc, m) =
     (if is_inst inst e \<and> \<not> matched
      then rbind (body dnpc m) (\<lambda>(dnpc, m). run_blocks inst bs (True, dnpc, m))
      else run_blocks inst bs (matched, dnpc, m))"

section \<open>The step\<close>

definition local_csr_inst :: "encodings \<Rightarrow> u32 \<Rightarrow> bool" where
  "local_csr_inst E inst \<longleftrightarrow> is_inst inst (MATCH_CSRRW E) \<or> is_inst inst (MATCH_CSRRS E)
     \<or> is_inst inst (MATCH_CSRRC E) \<or> is_inst inst (MATCH_CSRRWI E) \<or> is_inst inst (MATCH_CSRRSI E)
     \<or> is_inst inst (MATCH_CSRRCI E)"

definition local_system_inst :: "encodings \<Rightarrow> u32 \<Rightarrow> bool" where
  "local_system_inst E inst \<longleftrightarrow> local_csr_inst E inst \<or> is_inst inst (MATCH_EBREAK E)
     \<or> is_inst inst (MATCH_ECALL E) \<or> is_inst inst (MATCH_MRET E) \<or> inst = 0x100f"

text \<open>The base instructions, with \<open>fence.i\<close>.\<close>

definition exec_base ::
  "encodings \<Rightarrow> 'd exec_fun \<Rightarrow> u32 \<Rightarrow> u32 \<Rightarrow> u32 \<Rightarrow> 'd mach \<Rightarrow> (err, bool \<times> u32 \<times> 'd mach) result" where
  "exec_base E execute_instruction pc snpc inst m =
     rbind (if local_system_inst E inst then Inr (False, snpc, m)
            else rbind (execute_instruction inst pc m) (\<lambda>(r, tmp, m).
              Inr (r = 0, if r = 0 then tmp else snpc, m)))
       (\<lambda>(matched, dnpc, m). Inr (matched \<or> inst = 0x100f, dnpc, m))"

definition count_branch :: "encodings \<Rightarrow> u32 \<Rightarrow> u32 \<Rightarrow> u32 \<Rightarrow> 'd mach \<Rightarrow> 'd mach" where
  "count_branch E pc inst dnpc m =
     (if is_inst inst (0x7f, 0x63) \<or> is_inst inst (MATCH_JALR E) \<or> is_inst inst (MATCH_JAL E)
      then m\<lparr>g_nbranches := g_nbranches m + 1,
             g_btrace_pack := map_option (\<lambda>b. btrace_pack_add b
               \<lparr>bt_pc = pc, bt_code = inst, bt_nxt_pc = dnpc\<rparr>) (g_btrace_pack m)\<rparr>
      else m)"

definition fp_csr_trap :: "encodings \<Rightarrow> u32 \<Rightarrow> u32 \<Rightarrow> bool \<times> u32 \<times> 'd mach \<Rightarrow> bool \<times> u32 \<times> 'd mach" where
  "fp_csr_trap E pc inst d = (case d of (matched, dnpc, m) \<Rightarrow>
     let csr_addr = BITS inst 31 20;
         fp_csr = (csr_addr = CSR_FFLAGS E \<or> csr_addr = CSR_FRM E \<or> csr_addr = CSR_FCSR E)
     in if \<not> matched \<and> local_csr_inst E inst \<and> fp_csr \<and> \<not> riscv_fp_enabled m
        then (True, riscv_raise_illegal_instruction E inst pc m) else d)"

text \<open>The end of the step: the zero register and the profiler.\<close>

definition retire ::
  "u32 \<Rightarrow> u32 \<Rightarrow> u32 \<Rightarrow> u32 \<Rightarrow> u32 \<Rightarrow> u32 \<Rightarrow> 'd mach \<Rightarrow> (err, u32 \<times> 'd mach) result" where
  "retire pc snpc dnpc inst profile_rs1 profile_rs2 m =
     (let m = set_R 0 0 m in
      if out_path (profiler m)
      then rbind (riscv_profile_record (profiler m) pc snpc dnpc inst profile_rs1 profile_rs2) (\<lambda>p.
           Inr (dnpc, m\<lparr>profiler := p\<rparr>))
      else Inr (dnpc, m))"

definition decode_exec ::
  "encodings \<Rightarrow> config \<Rightarrow> 'd exec_fun \<Rightarrow> u32 \<Rightarrow> u32 \<Rightarrow> u32 \<Rightarrow> 'd mach \<Rightarrow> (err, u32 \<times> 'd mach) result" where
  "decode_exec E c execute_instruction pc snpc inst m =
     (let profile_rs1 = (if out_path (profiler m) then gpr m (unat (drop_bit 15 inst AND 31)) else 0);
          profile_rs2 = (if out_path (profiler m) then gpr m (unat (drop_bit 20 inst AND 31)) else 0);
          rd = unat (drop_bit 7 (inst AND INSN_FIELD_RD E));
          rs1 = unat (drop_bit 15 (inst AND INSN_FIELD_RS1 E));
          rs2 = unat (drop_bit 20 (inst AND INSN_FIELD_RS2 E))
      in rbind (exec_base E execute_instruction pc snpc inst m) (\<lambda>(matched, dnpc, m).
         rbind (run_blocks inst (system_blocks E c pc inst rd rs1 @ xaccel_blocks c pc rd rs1 rs2)
             (fp_csr_trap E pc inst (matched, dnpc, count_branch E pc inst dnpc m))) (\<lambda>(matched, dnpc, m).
         rbind (if matched then Inr m else invalid_inst c pc m) (\<lambda>m.
           retire pc snpc dnpc inst profile_rs1 profile_rs2 m))))"

definition isa_exec_once ::
  "encodings \<Rightarrow> config \<Rightarrow> 'd exec_fun \<Rightarrow> u32 \<Rightarrow> 'd mach \<Rightarrow> (err, u32 \<times> 'd mach) result" where
  "isa_exec_once E c execute_instruction pc m =
     rbind (inst_fetch c pc 4 m) (\<lambda>(inst, snpc, m).
     rbind (case g_itrace_pack m of
              Some t \<Rightarrow> if isSoC c then rbind (itrace_pack_add t pc) (\<lambda>t. Inr (m\<lparr>g_itrace_pack := Some t\<rparr>))
                        else Inr m
            | None \<Rightarrow> Inr m) (\<lambda>m.
       decode_exec E c execute_instruction pc snpc inst m))"

definition exec_once :: "encodings \<Rightarrow> config \<Rightarrow> 'd exec_fun \<Rightarrow> 'd mach \<Rightarrow> (err, 'd mach) result" where
  "exec_once E c execute_instruction m =
     rbind (isa_exec_once E c execute_instruction (cpu_pc m) m) (\<lambda>(dnpc, m). Inr (m\<lparr>cpu_pc := dnpc\<rparr>))"

text \<open>
  \<open>device_update\<close> polls the window system; it is a parameter, and is called only in configurations with
  devices.
\<close>

fun execute :: "encodings \<Rightarrow> config \<Rightarrow> 'd exec_fun \<Rightarrow> ('d mach \<Rightarrow> 'd mach) \<Rightarrow> nat \<Rightarrow> 'd mach \<Rightarrow> (err, 'd mach) result" where
  "execute E c execute_instruction device_update 0 m = Inr m"
| "execute E c execute_instruction device_update (Suc n) m =
     rbind (exec_once E c execute_instruction m) (\<lambda>m.
       let m = m\<lparr>g_nr_guest_inst := g_nr_guest_inst m + 1\<rparr> in
       if nemu_state m \<noteq> NEMU_RUNNING then Inr m
       else execute E c execute_instruction device_update n
              (if CONFIG_DEVICE c then device_update m else m))"

definition cpu_exec ::
  "encodings \<Rightarrow> config \<Rightarrow> 'd exec_fun \<Rightarrow> ('d mach \<Rightarrow> 'd mach) \<Rightarrow> u64 \<Rightarrow> 'd mach \<Rightarrow> (err, 'd mach) result" where
  "cpu_exec E c execute_instruction device_update n m =
     (if nemu_state m = NEMU_END \<or> nemu_state m = NEMU_ABORT \<or> nemu_state m = NEMU_QUIT then Inr m
      else rbind (execute E c execute_instruction device_update (unat n) (m\<lparr>nemu_state := NEMU_RUNNING\<rparr>)) (\<lambda>m.
        Inr (if nemu_state m = NEMU_RUNNING then m\<lparr>nemu_state := NEMU_STOP\<rparr> else m)))"

definition is_exit_status_bad :: "'d mach \<Rightarrow> bool" where
  "is_exit_status_bad m \<longleftrightarrow>
     \<not> ((nemu_state m = NEMU_END \<and> halt_ret m = 0) \<or> nemu_state m = NEMU_QUIT)"

section \<open>Reset\<close>

definition img :: "u32 list" where
  "img = [0x00000297, 0x00028823, 0x0102c503, 0x00100073, 0xdeadbeef]"

definition restart :: "config \<Rightarrow> 'd mach \<Rightarrow> 'd mach" where
  "restart c m = m\<lparr>cpu_pc := reset_vector c, gpr := (gpr m)(0 := 0), fpr := (\<lambda>_ _. 0), fcsr := 0\<rparr>"

text \<open>The image is copied to the host address of the reset vector; without a host address the copy is
  an invalid access.\<close>

definition init_isa :: "config \<Rightarrow> 'd mach \<Rightarrow> (err, 'd mach) result" where
  "init_isa c m =
     (case guest_to_host c (reset_vector c) of
        None \<Rightarrow> Inl Overrun
      | Some (r, off) \<Rightarrow>
          if off + 4 * length img \<le> region_size c r
          then Inr (restart c (m\<lparr>mem := (mem m)\<lparr>host := (host (mem m))
                 (r := store_bytes (host (mem m) r) off (concat (map (bytes_of 4) img)))\<rparr>\<rparr>))
          else Inl Overrun)"

end
