(* ===== verification/Riscv_Step.thy ===== *)
theory Riscv_Step
  imports Riscv_Inst Coremark Xaccel_Kernels
begin

text \<open>
  The properties of the instruction step of NEMU: the zero register, the CSR file, the system
  instructions, the accelerator instructions and the execution loop. \<open>enc_ok\<close> states what the code
  relies on of the generated encodings: the CSR numbers differ and no word is two system instructions.
  \<open>std_enc\<close> holds the numbers of the RISC-V manuals.
\<close>

section \<open>Encodings\<close>

definition enc_disjoint :: "u32 \<times> u32 \<Rightarrow> u32 \<times> u32 \<Rightarrow> bool" where
  "enc_disjoint e f \<longleftrightarrow> snd e AND fst f \<noteq> snd f AND fst e"

lemma enc_disjointD: "enc_disjoint e f \<Longrightarrow> is_inst inst e \<Longrightarrow> is_inst inst f \<Longrightarrow> False"
proof -
  assume d: "enc_disjoint e f" and "is_inst inst e" "is_inst inst f"
  then have "snd e AND fst f = (inst AND fst e) AND fst f" "snd f AND fst e = (inst AND fst f) AND fst e"
    by (simp_all add: is_inst_def)
  then have "snd e AND fst f = snd f AND fst e"
    by (simp add: and.assoc and.commute [of "fst e" "fst f"])
  with d show False
    by (simp add: enc_disjoint_def)
qed

fun pairwise_list :: "('a \<Rightarrow> 'a \<Rightarrow> bool) \<Rightarrow> 'a list \<Rightarrow> bool" where
  "pairwise_list P [] \<longleftrightarrow> True"
| "pairwise_list P (x # xs) \<longleftrightarrow> list_all (P x) xs \<and> pairwise_list P xs"

lemma pairwise_list_append:
  "pairwise_list P (xs @ ys) \<longleftrightarrow> pairwise_list P xs \<and> pairwise_list P ys \<and> (\<forall>x \<in> set xs. \<forall>y \<in> set ys. P x y)"
  by (induction xs) (auto simp: list_all_iff)

definition sys_encs :: "encodings \<Rightarrow> (u32 \<times> u32) list" where
  "sys_encs E = [MATCH_CSRRW E, MATCH_CSRRS E, MATCH_CSRRC E, MATCH_CSRRWI E, MATCH_CSRRSI E, MATCH_CSRRCI E,
     MATCH_EBREAK E, MATCH_ECALL E, MATCH_MRET E]"

definition csr_numbers :: "encodings \<Rightarrow> u32 list" where
  "csr_numbers E = [CSR_FFLAGS E, CSR_FRM E, CSR_FCSR E, CSR_MCAUSE E, CSR_MEPC E, CSR_MTVAL E, CSR_MSTATUS E,
     CSR_MTVEC E, CSR_MVENDORID E, CSR_MARCHID E, CSR_MSCRATCH E]"

text \<open>A system instruction is no branch, \<open>jal\<close>, \<open>jalr\<close> or \<open>fence.i\<close> word either.\<close>

definition enc_ok :: "encodings \<Rightarrow> bool" where
  "enc_ok E \<longleftrightarrow> distinct (csr_numbers E)
     \<and> pairwise_list enc_disjoint (sys_encs E @ [(0x7f, 0x63), MATCH_JALR E, MATCH_JAL E, (0xffffffff, 0x100f)])
     \<and> list_all (\<lambda>e. list_all (enc_disjoint e) [(0x7f, 0x0b), (0x7f, 0x5b)])
         (sys_encs E @ [(0x7f, 0x63), MATCH_JALR E, MATCH_JAL E, (0xffffffff, 0x100f)])"

definition std_enc :: encodings where
  "std_enc = \<lparr>MATCH_CSRRW = (0x707f, 0x1073), MATCH_CSRRS = (0x707f, 0x2073), MATCH_CSRRC = (0x707f, 0x3073),
     MATCH_CSRRWI = (0x707f, 0x5073), MATCH_CSRRSI = (0x707f, 0x6073), MATCH_CSRRCI = (0x707f, 0x7073),
     MATCH_EBREAK = (0xffffffff, 0x100073), MATCH_ECALL = (0xffffffff, 0x73),
     MATCH_MRET = (0xffffffff, 0x30200073), MATCH_JALR = (0x707f, 0x67), MATCH_JAL = (0x7f, 0x6f),
     INSN_FIELD_RD = 0xf80, INSN_FIELD_RS1 = 0xf8000, INSN_FIELD_RS2 = 0x1f00000,
     CSR_FFLAGS = 1, CSR_FRM = 2, CSR_FCSR = 3, CSR_MCAUSE = 0x342, CSR_MEPC = 0x341, CSR_MTVAL = 0x343,
     CSR_MSTATUS = 0x300, CSR_MTVEC = 0x305, CSR_MVENDORID = 0xf11, CSR_MARCHID = 0xf12, CSR_MSCRATCH = 0x340,
     CAUSE_ILLEGAL_INSTRUCTION = 2, CAUSE_MACHINE_ECALL = 0xb\<rparr>"

lemma std_enc_ok: "enc_ok std_enc"
  by (simp add: enc_ok_def csr_numbers_def sys_encs_def std_enc_def enc_disjoint_def)

text \<open>The machine before the first instruction: the initialisers of \<open>inst.c\<close>, with no trace open.\<close>

definition mach0 :: "unit mach" where
  "mach0 = \<lparr>gpr = (\<lambda>_. 0), cpu_pc = 0x80000000, fpr = (\<lambda>_ _. 0), fcsr = 0, g_csr_MCAUSE = 0, g_csr_MEPC = 0,
     g_csr_MTVAL = 0, g_csr_MVENDORID = 0x79737978, g_csr_MARCHID = 25100261, g_csr_MSTATUS = 0x1800,
     g_csr_MSCRATCH = 0x1800, g_csr_MTVEC = 0, list_reverse_previous = 0,
     numeric_dfa_transition_counts = (\<lambda>_. 0), numeric_dfa_final_counts = (\<lambda>_. 0),
     numeric_dfa_pending_mask = 0, g_nbranches = 0, g_itrace_pack = None, g_btrace_pack = None,
     mem = empty_mem (), profiler = prof_init\<lparr>out_path := False\<rparr>, nemu_state = NEMU_STOP, halt_pc = 0,
     halt_ret = 0, sdb_inited = True, g_nr_guest_inst = 0\<rparr>"

section \<open>The blocks\<close>

lemma run_blocks_matched: "run_blocks inst bs (True, dnpc, m) = Inr (True, dnpc, m)"
  by (induction bs) auto

lemma run_blocks_none:
  "\<forall>b \<in> set bs. \<not> is_inst inst (fst b) \<Longrightarrow> run_blocks inst bs d = Inr d"
  by (induction bs) (auto, cases d, auto)

lemma run_blocks_append:
  "run_blocks inst (as @ bs) d = rbind (run_blocks inst as d) (run_blocks inst bs)"
proof (induction as arbitrary: d)
  case Nil
  then show ?case by simp
next
  case (Cons a as)
  obtain e body matched dnpc m where [simp]: "a = (e, body)" "d = (matched, dnpc, m)"
    by (cases a, cases d)
  show ?case
    by (cases "body dnpc m") (auto simp: Cons.IH split: prod.splits)
qed

lemma run_blocks_pick:
  assumes "\<forall>b \<in> set as. \<not> is_inst inst (fst b)" "is_inst inst e"
  shows "run_blocks inst (as @ (e, body) # bs) (False, dnpc, m)
       = rbind (body dnpc m) (\<lambda>(dnpc, m). Inr (True, dnpc, m))"
  using assms by (simp add: run_blocks_append run_blocks_none run_blocks_matched case_prod_beta)

section \<open>The zero register\<close>

lemma retire_x0: "retire pc snpc dnpc inst p q m = Inr (d, m') \<Longrightarrow> gpr m' 0 = 0"
  by (auto simp: retire_def Let_def rbind_Inr_iff set_R_def split: if_splits)

lemma decode_exec_x0: "decode_exec E c X pc snpc inst m = Inr (dnpc, m') \<Longrightarrow> gpr m' 0 = 0"
  unfolding decode_exec_def Let_def rbind_Inr_iff split_beta
  using retire_x0 by blast

lemma exec_once_x0: "exec_once E c X m = Inr m' \<Longrightarrow> gpr m' 0 = 0"
  unfolding exec_once_def isa_exec_once_def rbind_Inr_iff split_beta
  using decode_exec_x0 by fastforce

text \<open>
  C27. The zero register reads 0 after every run, whatever \<open>execute_instruction\<close> and the accelerator
  instructions write to it: a run of \<open>execute\<close> that starts with it at 0 keeps it at 0, given that the
  device update leaves that register alone.
\<close>
theorem x0_stays_zero:
  assumes "execute E c X U n m = Inr m'" "gpr m 0 = 0" "\<forall>m. gpr (U m) 0 = gpr m 0"
  shows "gpr m' 0 = 0"
  using assms
proof (induction n arbitrary: m)
  case 0
  then show ?case by simp
next
  case (Suc n)
  from Suc.prems(1) obtain m1 where m1: "exec_once E c X m = Inr m1"
    by (auto simp: rbind_Inr_iff)
  with Suc show ?case
    using exec_once_x0 [OF m1] by (auto simp: Let_def split: if_splits)
qed

section \<open>The CSR file\<close>

text \<open>Both orientations of every inequality of CSR numbers.\<close>

lemma csrs_distinct:
  assumes "enc_ok E"
  shows "distinct (csr_numbers E)"
    and "distinct [CSR_MSCRATCH E, CSR_MARCHID E, CSR_MVENDORID E, CSR_MTVEC E, CSR_MSTATUS E, CSR_MTVAL E,
      CSR_MEPC E, CSR_MCAUSE E, CSR_FCSR E, CSR_FRM E, CSR_FFLAGS E]"
proof -
  show d: "distinct (csr_numbers E)"
    using assms by (simp add: enc_ok_def)
  have "rev (csr_numbers E) = [CSR_MSCRATCH E, CSR_MARCHID E, CSR_MVENDORID E, CSR_MTVEC E, CSR_MSTATUS E,
      CSR_MTVAL E, CSR_MEPC E, CSR_MCAUSE E, CSR_FCSR E, CSR_FRM E, CSR_FFLAGS E]"
    by (simp add: csr_numbers_def)
  then show "distinct [CSR_MSCRATCH E, CSR_MARCHID E, CSR_MVENDORID E, CSR_MTVEC E, CSR_MSTATUS E, CSR_MTVAL E,
      CSR_MEPC E, CSR_MCAUSE E, CSR_FCSR E, CSR_FRM E, CSR_FFLAGS E]"
    using d by (metis distinct_rev)
qed

lemma csr_write_plain:
  assumes "enc_ok E"
  shows "csr_write E (CSR_MCAUSE E) v m = Inr (m\<lparr>g_csr_MCAUSE := v\<rparr>)"
    and "csr_write E (CSR_MEPC E) v m = Inr (m\<lparr>g_csr_MEPC := v\<rparr>)"
    and "csr_write E (CSR_MTVAL E) v m = Inr (m\<lparr>g_csr_MTVAL := v\<rparr>)"
    and "csr_write E (CSR_MSTATUS E) v m = Inr (m\<lparr>g_csr_MSTATUS := v\<rparr>)"
    and "csr_write E (CSR_MTVEC E) v m = Inr (m\<lparr>g_csr_MTVEC := v\<rparr>)"
    and "csr_write E (CSR_MVENDORID E) v m = Inr (m\<lparr>g_csr_MVENDORID := v\<rparr>)"
    and "csr_write E (CSR_MARCHID E) v m = Inr (m\<lparr>g_csr_MARCHID := v\<rparr>)"
    and "csr_write E (CSR_MSCRATCH E) v m = Inr (m\<lparr>g_csr_MSCRATCH := v\<rparr>)"
  using csrs_distinct [OF assms] by (simp_all add: csr_numbers_def csr_write_def handle_csr_rw_def)

lemma csr_read_plain:
  assumes "enc_ok E"
  shows "csr_read E (CSR_MCAUSE E) m = Inr (g_csr_MCAUSE m)"
    and "csr_read E (CSR_MEPC E) m = Inr (g_csr_MEPC m)"
    and "csr_read E (CSR_MTVAL E) m = Inr (g_csr_MTVAL m)"
    and "csr_read E (CSR_MSTATUS E) m = Inr (g_csr_MSTATUS m)"
    and "csr_read E (CSR_MTVEC E) m = Inr (g_csr_MTVEC m)"
    and "csr_read E (CSR_MVENDORID E) m = Inr (g_csr_MVENDORID m)"
    and "csr_read E (CSR_MARCHID E) m = Inr (g_csr_MARCHID m)"
    and "csr_read E (CSR_MSCRATCH E) m = Inr (g_csr_MSCRATCH m)"
  using csrs_distinct [OF assms] by (simp_all add: csr_numbers_def csr_read_def handle_csr_rw_def)

lemma csr_read_frame:
  "b \<noteq> CSR_MCAUSE E \<Longrightarrow> csr_read E b (m\<lparr>g_csr_MCAUSE := v\<rparr>) = csr_read E b m"
  "b \<noteq> CSR_MEPC E \<Longrightarrow> csr_read E b (m\<lparr>g_csr_MEPC := v\<rparr>) = csr_read E b m"
  "b \<noteq> CSR_MTVAL E \<Longrightarrow> csr_read E b (m\<lparr>g_csr_MTVAL := v\<rparr>) = csr_read E b m"
  "b \<noteq> CSR_MSTATUS E \<Longrightarrow> csr_read E b (m\<lparr>g_csr_MSTATUS := v\<rparr>) = csr_read E b m"
  "b \<noteq> CSR_MTVEC E \<Longrightarrow> csr_read E b (m\<lparr>g_csr_MTVEC := v\<rparr>) = csr_read E b m"
  "b \<noteq> CSR_MVENDORID E \<Longrightarrow> csr_read E b (m\<lparr>g_csr_MVENDORID := v\<rparr>) = csr_read E b m"
  "b \<noteq> CSR_MARCHID E \<Longrightarrow> csr_read E b (m\<lparr>g_csr_MARCHID := v\<rparr>) = csr_read E b m"
  "b \<noteq> CSR_MSCRATCH E \<Longrightarrow> csr_read E b (m\<lparr>g_csr_MSCRATCH := v\<rparr>) = csr_read E b m"
  by (simp_all add: csr_read_def handle_csr_rw_def cong: if_cong)

lemma csr_numbers_plain:
  assumes "a \<in> set (csr_numbers E)" "a \<noteq> CSR_FFLAGS E" "a \<noteq> CSR_FRM E" "a \<noteq> CSR_FCSR E"
  obtains "a = CSR_MCAUSE E" | "a = CSR_MEPC E" | "a = CSR_MTVAL E" | "a = CSR_MSTATUS E"
    | "a = CSR_MTVEC E" | "a = CSR_MVENDORID E" | "a = CSR_MARCHID E" | "a = CSR_MSCRATCH E"
  using assms unfolding csr_numbers_def list.set by blast

text \<open>
  C23. A CSR that is not one of the floating-point views keeps exactly what is written to it, and a write
  changes no other CSR. A number that is no CSR of the machine is a panic, for reading and for writing.
\<close>
theorem csr_file:
  assumes "enc_ok E" "a \<noteq> CSR_FFLAGS E" "a \<noteq> CSR_FRM E" "a \<noteq> CSR_FCSR E"
  shows "if a \<in> set (csr_numbers E)
    then \<exists>m'. csr_write E a v m = Inr m' \<and> csr_read E a m' = Inr v
      \<and> (\<forall>b. b \<noteq> a \<longrightarrow> csr_read E b m' = csr_read E b m)
    else csr_write E a v m = Inl Panic \<and> csr_read E a m = Inl Panic"
proof (cases "a \<in> set (csr_numbers E)")
  case True
  then show ?thesis
    using assms(2-) by (rule csr_numbers_plain)
      (simp_all add: csr_write_plain [OF assms(1)] csr_read_plain [OF assms(1)] csr_read_frame csr_numbers_def)
next
  case False
  then show ?thesis
    by (simp add: csr_numbers_def csr_write_def csr_read_def handle_csr_rw_def)
qed

lemma csr_file_witness:
  "\<exists>m'. csr_write std_enc 0x305 0x80000040 mach0 = Inr m' \<and> csr_read std_enc 0x305 m' = Inr 0x80000040
     \<and> csr_read std_enc 0x341 m' = csr_read std_enc 0x341 mach0"
  using csr_file [OF std_enc_ok, of "0x305" "0x80000040" mach0]
  by (auto simp: std_enc_def csr_numbers_def)

lemma fcsr_fields:
  fixes f v :: u32
  assumes "f AND 0xff = f"
  shows "push_bit 5 (drop_bit 5 f AND 7) OR (f AND 0x1f) = f"
    and "((f AND NOT 0x1f) OR (v AND 0x1f)) AND 0x1f = v AND 0x1f"
    and "((f AND NOT 0x1f) OR (v AND 0x1f)) AND 0xff = (f AND NOT 0x1f) OR (v AND 0x1f)"
    and "drop_bit 5 ((f AND NOT 0xe0) OR push_bit 5 (v AND 7)) AND 7 = v AND 7"
    and "((f AND NOT 0xe0) OR push_bit 5 (v AND 7)) AND 0xff = (f AND NOT 0xe0) OR push_bit 5 (v AND 7)"
proof -
  have m: "(0xff :: u32) = mask 8" "(0x1f :: u32) = mask 5" "(7 :: u32) = mask 3" "(0xe0 :: u32) = push_bit 5 (mask 3)"
    by (simp_all add: mask_eq_exp_minus_1 push_bit_eq_mult)
  have f: "bit f n \<Longrightarrow> n < 8" for n
  proof -
    assume "bit f n"
    then have "bit (f AND mask 8) n"
      using assms unfolding m by simp
    then show "n < 8"
      by (simp add: bit_simps)
  qed
  show "push_bit 5 (drop_bit 5 f AND 7) OR (f AND 0x1f) = f"
    unfolding m by (rule bit_word_eqI) (auto simp: bit_simps dest: f)
  show "((f AND NOT 0x1f) OR (v AND 0x1f)) AND 0x1f = v AND 0x1f"
    unfolding m by (rule bit_word_eqI) (auto simp: bit_simps)
  show "((f AND NOT 0x1f) OR (v AND 0x1f)) AND 0xff = (f AND NOT 0x1f) OR (v AND 0x1f)"
    unfolding m by (rule bit_word_eqI) (auto simp: bit_simps dest: f)
  show "drop_bit 5 ((f AND NOT 0xe0) OR push_bit 5 (v AND 7)) AND 7 = v AND 7"
    unfolding m by (rule bit_word_eqI) (auto simp: bit_simps)
  show "((f AND NOT 0xe0) OR push_bit 5 (v AND 7)) AND 0xff = (f AND NOT 0xe0) OR push_bit 5 (v AND 7)"
    unfolding m by (rule bit_word_eqI) (auto simp: bit_simps dest: f)
qed

lemma fcsr_mark_dirty [simp]: "fcsr (riscv_fp_mark_dirty m) = fcsr m"
  by (simp add: riscv_fp_mark_dirty_def)

lemma fs_dirty: "BITS ((s AND NOT (push_bit 13 3)) OR push_bit 13 3) 14 13 \<noteq> 0"
proof -
  have "bit x 0 \<Longrightarrow> bit (BITS ((s AND NOT (push_bit 13 x)) OR push_bit 13 x) 14 13) 0" for x :: u32
    by (simp add: BITS_take_bit bit_simps)
  from this [of 3] show ?thesis
    by (metis bit_0_eq bot_apply bot_bool_def bit_numeral_simps(1) bit_numeral_Bit1_0)
qed

lemma fp_dirty_enabled: "riscv_fp_enabled (riscv_fp_mark_dirty m)"
proof -
  have "g_csr_MSTATUS (riscv_fp_mark_dirty m) = (g_csr_MSTATUS m AND NOT (push_bit 13 3)) OR push_bit 13 3"
    by (simp add: riscv_fp_mark_dirty_def)
  then show ?thesis
    by (simp only: riscv_fp_enabled_def fs_dirty not_False_eq_True)
qed



section \<open>One instruction, one block\<close>

definition exclusive :: "u32 \<Rightarrow> (u32 \<times> u32) list \<Rightarrow> bool" where
  "exclusive inst es \<longleftrightarrow> pairwise_list (\<lambda>e f. \<not> (is_inst inst e \<and> is_inst inst f)) es"

lemma pairwise_list_mono: "pairwise_list P xs \<Longrightarrow> (\<And>x y. P x y \<Longrightarrow> Q x y) \<Longrightarrow> pairwise_list Q xs"
  by (induction xs) (auto simp: list_all_iff)

lemma disjoint_exclusive: "pairwise_list enc_disjoint es \<Longrightarrow> exclusive inst es"
  unfolding exclusive_def by (erule pairwise_list_mono) (blast dest: enc_disjointD)

lemma run_blocks_exclusive:
  assumes "exclusive inst (map fst bs)" "(e, body) \<in> set bs" "is_inst inst e"
  shows "run_blocks inst bs (False, dnpc, m) = rbind (body dnpc m) (\<lambda>(dnpc, m). Inr (True, dnpc, m))"
proof -
  obtain as cs where bs: "bs = as @ (e, body) # cs"
    using assms(2) by (meson split_list)
  then have "\<forall>b \<in> set as. \<not> is_inst inst (fst b)"
    using assms(1,3) by (auto simp: exclusive_def pairwise_list_append)
  then show ?thesis
    unfolding bs using assms(3) by (rule run_blocks_pick)
qed

definition blocks :: "encodings \<Rightarrow> config \<Rightarrow> u32 \<Rightarrow> u32 \<Rightarrow> 'd block list" where
  "blocks E c pc inst =
     (let rd = unat (drop_bit 7 (inst AND INSN_FIELD_RD E));
          rs1 = unat (drop_bit 15 (inst AND INSN_FIELD_RS1 E));
          rs2 = unat (drop_bit 20 (inst AND INSN_FIELD_RS2 E))
      in system_blocks E c pc inst rd rs1 @ xaccel_blocks c pc rd rs1 rs2)"

definition xaccel_matches :: "u32 list" where
  "xaccel_matches = [0x0b, 0x100b, 0x200b, 0x300b, 0x400b, 0x500b, 0x600b, 0x0400600b, 0x0400700b,
     0x5b, 0x105b, 0x205b, 0x305b, 0x405b, 0x505b, 0x0200205b, 0x0200505b]"

lemma blocks_encs: "map fst (blocks E c pc inst) = sys_encs E @ map (Pair MASK_XACCEL) xaccel_matches"
  by (simp add: blocks_def Let_def system_blocks_def xaccel_blocks_def sys_encs_def xaccel_matches_def)

lemma xaccel_disjoint: "pairwise_list enc_disjoint (map (Pair MASK_XACCEL) xaccel_matches)"
  by (simp add: xaccel_matches_def enc_disjoint_def MASK_XACCEL_def)

lemma xaccel_opcode:
  assumes "k \<in> set xaccel_matches" "is_inst inst (MASK_XACCEL, k)"
  shows "is_inst inst (0x7f, 0x0b) \<or> is_inst inst (0x7f, 0x5b)"
proof -
  have "MASK_XACCEL AND 0x7f = 0x7f"
    by (simp add: MASK_XACCEL_def)
  then have "inst AND 0x7f = k AND 0x7f"
    using assms(2) by (simp add: is_inst_def) (metis and.assoc)
  moreover have "k AND 0x7f = 0x0b \<or> k AND 0x7f = 0x5b"
    using assms(1) by (auto simp: xaccel_matches_def)
  ultimately show ?thesis
    by (simp add: is_inst_def)
qed

text \<open>The system, branch and \<open>fence.i\<close> words are apart from the accelerator opcodes.\<close>

lemma system_not_xaccel:
  assumes "enc_ok E" "k \<in> set xaccel_matches" "is_inst inst (MASK_XACCEL, k)"
    "e \<in> set (sys_encs E @ [(0x7f, 0x63), MATCH_JALR E, MATCH_JAL E, (0xffffffff, 0x100f)])"
  shows "\<not> is_inst inst e"
proof -
  have "enc_disjoint e (0x7f, 0x0b)" "enc_disjoint e (0x7f, 0x5b)"
    using assms(1,4) unfolding enc_ok_def list_all_iff list.set by blast+
  then show ?thesis
    using xaccel_opcode [OF assms(2,3)] enc_disjointD by blast
qed

lemma blocks_exclusive:
  assumes "enc_ok E"
  shows "exclusive inst (map fst (blocks E c pc inst))"
proof -
  have "exclusive inst (sys_encs E)"
    using assms disjoint_exclusive by (simp only: enc_ok_def pairwise_list_append)
  moreover have "exclusive inst (map (Pair MASK_XACCEL) xaccel_matches)"
    by (rule disjoint_exclusive [OF xaccel_disjoint])
  moreover have "\<not> (is_inst inst e \<and> is_inst inst f)"
    if ef: "e \<in> set (sys_encs E)" "f \<in> set (map (Pair MASK_XACCEL) xaccel_matches)" for e f
  proof -
    obtain k where "f = (MASK_XACCEL, k)" "k \<in> set xaccel_matches"
      using ef(2) by auto
    then show ?thesis
      using ef(1) system_not_xaccel [OF assms, of k inst e] by auto
  qed
  ultimately show ?thesis
    by (simp add: blocks_encs exclusive_def pairwise_list_append)
qed

lemma decode_exec_blocks:
  "decode_exec E c X pc snpc inst m =
     (let p1 = (if out_path (profiler m) then gpr m (unat (drop_bit 15 inst AND 31)) else 0);
          p2 = (if out_path (profiler m) then gpr m (unat (drop_bit 20 inst AND 31)) else 0)
      in rbind (exec_base E X pc snpc inst m) (\<lambda>(matched, dnpc, m).
         rbind (run_blocks inst (blocks E c pc inst)
             (fp_csr_trap E pc inst (matched, dnpc, count_branch E pc inst dnpc m))) (\<lambda>(matched, dnpc, m).
         rbind (if matched then Inr m else invalid_inst c pc m) (\<lambda>m. retire pc snpc dnpc inst p1 p2 m))))"
  by (simp add: decode_exec_def blocks_def Let_def)

lemma retire_plain: "\<not> out_path (profiler m) \<Longrightarrow> retire pc snpc dnpc inst p1 p2 m = Inr (dnpc, set_R 0 0 m)"
  by (simp add: retire_def Let_def set_R_def)

lemma decode_exec_body:
  assumes "enc_ok E" "(e, body) \<in> set (blocks E c pc inst)" "is_inst inst e"
    "exec_base E X pc snpc inst m = Inr (False, snpc, m1)" "count_branch E pc inst snpc m1 = m1"
    "fp_csr_trap E pc inst (False, snpc, m1) = (False, snpc, m1)"
    "body snpc m1 = Inr (dnpc, m2)" "\<not> out_path (profiler m2)"
  shows "decode_exec E c X pc snpc inst m = Inr (dnpc, set_R 0 0 m2)"
  using assms(4-) run_blocks_exclusive [OF blocks_exclusive [OF assms(1)] assms(2,3)]
  by (simp add: decode_exec_blocks Let_def retire_plain)

text \<open>A word of the system group is none of the other words \<open>decode_exec\<close> looks at.\<close>

lemma sys_word:
  assumes "enc_ok E" "e \<in> set (sys_encs E)" "is_inst inst e"
  shows "count_branch E pc inst dnpc m = m" "inst \<noteq> 0x100f" "local_system_inst E inst"
    "exec_base E X pc snpc inst m = Inr (False, snpc, m)"
proof -
  have "\<not> is_inst inst f" if "f \<in> set [(0x7f, 0x63), MATCH_JALR E, MATCH_JAL E, (0xffffffff, 0x100f)]" for f
  proof -
    have "enc_disjoint e f"
      using assms(1,2) that unfolding enc_ok_def pairwise_list_append by blast
    then show ?thesis
      using assms(3) enc_disjointD by blast
  qed
  then have no: "\<not> is_inst inst (0x7f, 0x63)" "\<not> is_inst inst (MATCH_JALR E)" "\<not> is_inst inst (MATCH_JAL E)"
      "\<not> is_inst inst (0xffffffff, 0x100f)"
    by (simp_all del: split_paired_All)
  then show "count_branch E pc inst dnpc m = m"
    by (simp add: count_branch_def)
  show f: "inst \<noteq> 0x100f"
    using no(4) by (auto simp: is_inst_def)
  show l: "local_system_inst E inst"
    using assms(2,3) unfolding sys_encs_def list.set local_system_inst_def local_csr_inst_def by blast
  show "exec_base E X pc snpc inst m = Inr (False, snpc, m)"
    using f l by (simp add: exec_base_def)
qed

lemma not_local_csr:
  assumes "enc_ok E" "e \<in> {MATCH_EBREAK E, MATCH_ECALL E, MATCH_MRET E}" "is_inst inst e"
  shows "\<not> local_csr_inst E inst"
proof -
  have p: "pairwise_list enc_disjoint (sys_encs E)"
    using assms(1) by (simp only: enc_ok_def pairwise_list_append)
  have "sys_encs E = [MATCH_CSRRW E, MATCH_CSRRS E, MATCH_CSRRC E, MATCH_CSRRWI E, MATCH_CSRRSI E, MATCH_CSRRCI E]
      @ [MATCH_EBREAK E, MATCH_ECALL E, MATCH_MRET E]"
    by (simp add: sys_encs_def)
  then have "enc_disjoint f e" if "f \<in> {MATCH_CSRRW E, MATCH_CSRRS E, MATCH_CSRRC E, MATCH_CSRRWI E,
      MATCH_CSRRSI E, MATCH_CSRRCI E}" for f
    using p assms(2) that by (auto simp only: pairwise_list_append list.set)
  then show ?thesis
    using assms(3) enc_disjointD unfolding local_csr_inst_def by blast
qed

lemma xaccel_word:
  assumes "enc_ok E" "k \<in> set xaccel_matches" "is_inst inst (MASK_XACCEL, k)"
  shows "count_branch E pc inst dnpc m = m" "\<not> local_system_inst E inst" "inst \<noteq> 0x100f"
    "fp_csr_trap E pc inst (False, dnpc, m) = (False, dnpc, m)"
proof -
  note no = system_not_xaccel [OF assms]
  have nl: "\<not> local_csr_inst E inst"
    using no unfolding local_csr_inst_def sys_encs_def list.set set_append by blast
  then show "\<not> local_system_inst E inst"
    using no [of "(0xffffffff, 0x100f)"] no unfolding local_system_inst_def sys_encs_def list.set set_append
    by (auto simp: is_inst_def)
  show "inst \<noteq> 0x100f"
    using no [of "(0xffffffff, 0x100f)"] by (auto simp: is_inst_def)
  show "count_branch E pc inst dnpc m = m"
    using no by (simp add: count_branch_def)
  show "fp_csr_trap E pc inst (False, dnpc, m) = (False, dnpc, m)"
    using nl by (simp add: fp_csr_trap_def)
qed

section \<open>System instructions\<close>

lemma set_nemu_state_profiler [simp]: "profiler (set_nemu_state c st pc r m) = profiler m"
  by (simp add: set_nemu_state_def Let_def)

lemma blocks_system:
  "(MATCH_ECALL E, op_ecall E pc) \<in> set (blocks E c pc inst)"
  "(MATCH_MRET E, op_mret E) \<in> set (blocks E c pc inst)"
  "(MATCH_EBREAK E, keep_pc (\<lambda>m. Inr (set_nemu_state c NEMU_END pc (gpr m 10) m))) \<in> set (blocks E c pc inst)"
  by (simp_all add: blocks_def Let_def system_blocks_def)

lemma decode_system:
  assumes "enc_ok E" "e \<in> {MATCH_EBREAK E, MATCH_ECALL E, MATCH_MRET E}" "is_inst inst e"
    "(e, body) \<in> set (blocks E c pc inst)" "body snpc m = Inr (dnpc, m')" "\<not> out_path (profiler m')"
  shows "decode_exec E c X pc snpc inst m = Inr (dnpc, set_R 0 0 m')"
proof -
  have s: "e \<in> set (sys_encs E)"
    using assms(2) by (auto simp: sys_encs_def)
  have "fp_csr_trap E pc inst (False, snpc, m) = (False, snpc, m)"
    using not_local_csr [OF assms(1-3)] by (simp add: fp_csr_trap_def)
  then show ?thesis
    using decode_exec_body [OF assms(1,4,3)] sys_word [OF assms(1) s assms(3)] assms(5,6) by blast
qed

text \<open>
  C25. The system instructions never reach \<open>execute_instruction\<close>: \<open>ecall\<close> saves its own pc and the
  machine cause and goes to the trap vector, \<open>mret\<close> goes back to the saved pc, and \<open>ebreak\<close> halts the
  machine with the value of \<open>a0\<close> and falls through.
\<close>
theorem system_instructions:
  assumes "enc_ok E" "\<not> out_path (profiler m)"
  shows "(is_inst inst (MATCH_ECALL E) \<longrightarrow> decode_exec E c X pc snpc inst m
        = Inr (g_csr_MTVEC m, set_R 0 0 (m\<lparr>g_csr_MEPC := pc, g_csr_MCAUSE := CAUSE_MACHINE_ECALL E\<rparr>)))
    \<and> (is_inst inst (MATCH_MRET E) \<longrightarrow> decode_exec E c X pc snpc inst m = Inr (g_csr_MEPC m, set_R 0 0 m))
    \<and> (is_inst inst (MATCH_EBREAK E) \<longrightarrow> decode_exec E c X pc snpc inst m
        = Inr (snpc, set_R 0 0 (set_nemu_state c NEMU_END pc (gpr m 10) m)))"
proof (intro conjI impI)
  assume i: "is_inst inst (MATCH_ECALL E)"
  have "op_ecall E pc snpc m = Inr (g_csr_MTVEC m, m\<lparr>g_csr_MEPC := pc, g_csr_MCAUSE := CAUSE_MACHINE_ECALL E\<rparr>)"
    by (simp add: op_ecall_def csr_write_plain [OF assms(1)] isa_raise_intr_def)
  from decode_system [OF assms(1) _ i blocks_system(1) this]
  show "decode_exec E c X pc snpc inst m
      = Inr (g_csr_MTVEC m, set_R 0 0 (m\<lparr>g_csr_MEPC := pc, g_csr_MCAUSE := CAUSE_MACHINE_ECALL E\<rparr>))"
    using assms(2) by simp
next
  assume i: "is_inst inst (MATCH_MRET E)"
  have "op_mret E snpc m = Inr (g_csr_MEPC m, m)"
    by (simp add: op_mret_def csr_read_plain [OF assms(1)])
  from decode_system [OF assms(1) _ i blocks_system(2) this]
  show "decode_exec E c X pc snpc inst m = Inr (g_csr_MEPC m, set_R 0 0 m)"
    using assms(2) by simp
next
  assume i: "is_inst inst (MATCH_EBREAK E)"
  have "keep_pc (\<lambda>m. Inr (set_nemu_state c NEMU_END pc (gpr m 10) m)) snpc m
      = Inr (snpc, set_nemu_state c NEMU_END pc (gpr m 10) m)"
    by (simp add: keep_pc_def)
  from decode_system [OF assms(1) _ i blocks_system(3) this]
  show "decode_exec E c X pc snpc inst m = Inr (snpc, set_R 0 0 (set_nemu_state c NEMU_END pc (gpr m 10) m))"
    using assms(2) by simp
qed

lemma system_instructions_witness:
  "decode_exec std_enc kconfig_default (\<lambda>_ _ m. Inr (1, 0, m)) 0x80000000 0x80000004 0x73 mach0
   = Inr (0, set_R 0 0 (mach0\<lparr>g_csr_MEPC := 0x80000000, g_csr_MCAUSE := 0xb\<rparr>))"
proof -
  have "is_inst 0x73 (MATCH_ECALL std_enc)" "g_csr_MTVEC mach0 = 0" "\<not> out_path (profiler mach0)"
    by (simp_all add: is_inst_def std_enc_def mach0_def)
  with system_instructions [OF std_enc_ok this(3), of "0x73"] show ?thesis
    by (simp add: std_enc_def)
qed

section \<open>Fetching\<close>

definition plain_fetch :: "config \<Rightarrow> 'd mach \<Rightarrow> bool" where
  "plain_fetch c m \<longleftrightarrow> no_mtrace (mem m) \<and> (g_itrace_pack m = None \<or> \<not> isSoC c)"

lemma inst_fetch_pmem:
  assumes "good_word c pc" "no_mtrace (mem m)"
  shows "inst_fetch c pc 4 m = Inr (pmem_word c (mem m) pc, pc + 4, m)"
  using pmem.rd_val [OF assms(2,1)] by (simp add: inst_fetch_def vaddr_ifetch_def vaddr_read_def)

lemma exec_once_pmem:
  assumes "good_word c (cpu_pc m)" "plain_fetch c m"
  shows "exec_once E c X m = rbind (decode_exec E c X (cpu_pc m) (cpu_pc m + 4) (pmem_word c (mem m) (cpu_pc m)) m)
       (\<lambda>(dnpc, m). Inr (m\<lparr>cpu_pc := dnpc\<rparr>))"
  using inst_fetch_pmem [OF assms(1), of m] assms(2)
  by (auto simp: exec_once_def isa_exec_once_def plain_fetch_def split: option.splits)

lemma unknown_inst_step:
  assumes "good_word c pc" "good_word c (pc + 4)" "plain_fetch c m" "cpu_pc m = pc" "sdb_inited m"
    "\<not> out_path (profiler m)" "inst = pmem_word c (mem m) pc" "X inst pc m = Inr (r, t, m)" "r \<noteq> 0"
    "\<forall>e \<in> set (sys_encs E @ map (Pair MASK_XACCEL) xaccel_matches). \<not> is_inst inst e"
    "\<not> is_inst inst (0x7f, 0x63)"
    "\<not> is_inst inst (MATCH_JALR E)" "\<not> is_inst inst (MATCH_JAL E)" "inst \<noteq> 0x100f"
  shows "exec_once E c X m = Inr ((set_R 0 0 (set_nemu_state c NEMU_ABORT pc (- 1) m))\<lparr>cpu_pc := pc + 4\<rparr>)"
proof -
  have no: "\<forall>b \<in> set (blocks E c pc inst :: 'a block list). \<not> is_inst inst (fst b)"
    using assms(10) unfolding blocks_encs [of E c pc inst, symmetric, where ?'a = 'a] by auto
  have csr: "\<not> local_csr_inst E inst" and sys: "\<not> local_system_inst E inst"
    using assms(10,14) by (simp_all add: local_csr_inst_def local_system_inst_def sys_encs_def)
  have b: "exec_base E X pc (pc + 4) inst m = Inr (False, pc + 4, m)"
    using sys assms(8,9,14) by (simp add: exec_base_def)
  have cb: "count_branch E pc inst (pc + 4) m = m"
    using assms(11-13) by (simp add: count_branch_def)
  have tr: "fp_csr_trap E pc inst (False, pc + 4, m) = (False, pc + 4, m)"
    using csr by (simp add: fp_csr_trap_def)
  have iv: "invalid_inst c pc m = Inr (set_nemu_state c NEMU_ABORT pc (- 1) m)"
    using assms(3) inst_fetch_pmem [OF assms(1), of m] inst_fetch_pmem [OF assms(2), of m]
    by (simp add: invalid_inst_def plain_fetch_def)
  have "decode_exec E c X pc (pc + 4) inst m = Inr (pc + 4, set_R 0 0 (set_nemu_state c NEMU_ABORT pc (- 1) m))"
    using b cb tr iv assms(6) run_blocks_none [OF no]
    by (simp add: decode_exec_blocks Let_def retire_plain)
  then show ?thesis
    using exec_once_pmem [of c m E X] assms(1,3,4,7) by simp
qed



lemma mach0_word: "pmem_word kconfig_default (mem mach0) 0x80000000 = 0"
  by (simp add: pmem_word_def mach0_def load_bytes_def upt_rec numeral_eq_Suc)

lemma mach0_step:
  "exec_once std_enc kconfig_default (\<lambda>_ _ m. Inr (1, 0, m)) (mach0\<lparr>nemu_state := st\<rparr>)
   = Inr ((set_R 0 0 (set_nemu_state kconfig_default NEMU_ABORT 0x80000000 (- 1) (mach0\<lparr>nemu_state := st\<rparr>)))
       \<lparr>cpu_pc := 0x80000004\<rparr>)"
  by (rule unknown_inst_step [of kconfig_default "0x80000000" "mach0\<lparr>nemu_state := st\<rparr>" 0 _ 1 0 std_enc, simplified])
    (simp_all add: mach0_word, simp_all add: good_word_def region_defs plain_fetch_def no_mtrace_def mach0_def
      sys_encs_def std_enc_def is_inst_def MASK_XACCEL_def xaccel_matches_def)

lemma x0_stays_zero_witness:
  "\<exists>m'. execute std_enc kconfig_default (\<lambda>_ _ m. Inr (1, 0, m)) (\<lambda>m. m) 2 (mach0\<lparr>nemu_state := NEMU_RUNNING\<rparr>) = Inr m'
     \<and> gpr m' 0 = 0"
proof -
  have "\<exists>m'. execute std_enc kconfig_default (\<lambda>_ _ m. Inr (1, 0, m)) (\<lambda>m. m) 2 (mach0\<lparr>nemu_state := NEMU_RUNNING\<rparr>) = Inr m'"
    by (simp add: numeral_2_eq_2 mach0_step Let_def) (simp add: set_R_def set_nemu_state_def mach0_def Let_def)
  then show ?thesis
    using x0_stays_zero [of std_enc kconfig_default "\<lambda>_ _ m. Inr (1, 0, m)" "\<lambda>m. m" 2 "mach0\<lparr>nemu_state := NEMU_RUNNING\<rparr>"]
    by (auto simp: mach0_def)
qed

section \<open>Running in pieces\<close>

lemma execute_append:
  assumes "\<And>m. nemu_state (U m) = nemu_state m" "nemu_state m = NEMU_RUNNING"
  shows "execute E c X U (a + b) m = rbind (execute E c X U a m) (\<lambda>m'.
       if nemu_state m' = NEMU_RUNNING then execute E c X U b m' else Inr m')"
  using assms(2)
proof (induction a arbitrary: m)
  case 0
  then show ?case by simp
next
  case (Suc a)
  show ?case
  proof (cases "exec_once E c X m")
    case (Inl e)
    then show ?thesis by simp
  next
    case (Inr m1)
    then show ?thesis
      using Suc.IH assms(1) by (simp add: Let_def)
  qed
qed

text \<open>Only \<open>ebreak\<close> and an unknown word change the state of the machine, to END or ABORT.\<close>

definition state_ok :: "'d mach \<Rightarrow> bool" where
  "state_ok m \<longleftrightarrow> nemu_state m \<noteq> NEMU_STOP"

lemma state_ok_csr: "csr_write E a v m = Inr m' \<Longrightarrow> nemu_state m' = nemu_state m"
  by (auto simp: csr_write_def handle_csr_rw_def riscv_fp_mark_dirty_def rbind_Inr_iff split: if_splits)

lemma state_ok_upd [simp]:
  "nemu_state (set_R i v m) = nemu_state m" "nemu_state (rec_xaccel x y z m) = nemu_state m"
  "nemu_state (rec_xdfacnt x m) = nemu_state m" "nemu_state (count_branch E pc inst dnpc m) = nemu_state m"
  by (simp_all add: set_R_def rec_xaccel_def rec_xdfacnt_def count_branch_def)

lemma set_nemu_state_ok: "st \<noteq> NEMU_STOP \<Longrightarrow> state_ok m \<Longrightarrow> state_ok (set_nemu_state c st pc v m)"
  by (simp add: state_ok_def set_nemu_state_def Let_def)

lemma system_bodies_ok:
  "(e, body) \<in> set (system_blocks E c pc inst rd rs1) \<Longrightarrow> body dnpc m = Inr (d, m') \<Longrightarrow> state_ok m \<Longrightarrow> state_ok m'"
  by (auto simp: system_blocks_def Let_def keep_pc_def op_csrrw_def op_csrrs_def op_csrrc_def op_ecall_def
      op_mret_def rbind_Inr_iff state_ok_def set_nemu_state_ok [unfolded state_ok_def]
      dest!: state_ok_csr split: if_splits)

lemma xdfa4h_state: "op_xdfa4h_step c rd rs1 rs2 m = Inr m' \<Longrightarrow> nemu_state m' = nemu_state m"
  by (auto simp: op_xdfa4h_step_def Let_def rbind_Inr_iff case_prod_beta)

lemma xaccel_bodies_ok:
  "(e, body) \<in> set (xaccel_blocks c pc rd rs1 rs2) \<Longrightarrow> body dnpc m = Inr (d, m') \<Longrightarrow> state_ok m \<Longrightarrow> state_ok m'"
  by (auto simp: xaccel_blocks_def keep_pc_def rbind_Inr_iff state_ok_def Let_def op_crc_def op_xmac16_def
      op_xdot16_def op_xbmul_def op_xlistrev_init_def op_xlistrev_loop_def op_xmsum_def op_xdfacnt_init_def
      op_xdfacnt_inc_def op_xdfacnt_read_def op_xdfacnt_commit_def op_xdfa2_step_def op_xdfa4_step_def
      op_xdfa4h_final_read_def dest!: xdfa4h_state split: if_splits)

lemma run_blocks_ok:
  assumes "\<forall>b \<in> set bs. \<forall>dnpc m d m'. snd b dnpc m = Inr (d, m') \<longrightarrow> state_ok m \<longrightarrow> state_ok m'"
    "run_blocks inst bs (matched, dnpc, m) = Inr (matched', dnpc', m')" "state_ok m"
  shows "state_ok m'"
  using assms
proof (induction bs arbitrary: matched dnpc m)
  case Nil
  then show ?case by simp
next
  case (Cons b bs)
  obtain e body where b: "b = (e, body)"
    by (cases b)
  show ?case
  proof (cases "is_inst inst e \<and> \<not> matched")
    case True
    then obtain d m1 where m1: "body dnpc m = Inr (d, m1)" "run_blocks inst bs (True, d, m1) = Inr (matched', dnpc', m')"
      using Cons.prems(2) by (auto simp: b rbind_Inr_iff)
    then have "state_ok m1"
      using Cons.prems(1,3) b by (metis list.set_intros(1) snd_conv)
    then show ?thesis
      using Cons.IH [OF _ m1(2)] Cons.prems(1) by simp
  next
    case False
    then have "run_blocks inst bs (matched, dnpc, m) = Inr (matched', dnpc', m')"
      using Cons.prems(2) by (auto simp: b)
    from Cons.IH [OF _ this] show ?thesis
      using Cons.prems(1,3) by simp
  qed
qed

lemma blocks_ok:
  "\<forall>b \<in> set (blocks E c pc inst). \<forall>dnpc m d m'. snd b dnpc m = Inr (d, m') \<longrightarrow> state_ok m \<longrightarrow> state_ok m'"
  using system_bodies_ok xaccel_bodies_ok by (fastforce simp: blocks_def Let_def)

lemma exec_once_ok:
  assumes "\<And>inst pc m r t m'. X inst pc m = Inr (r, t, m') \<Longrightarrow> nemu_state m' = nemu_state m"
    "exec_once E c X m = Inr m'" "state_ok m"
  shows "state_ok m'"
proof -
  have f: "inst_fetch c pc 4 m = Inr (i, snpc, m1) \<Longrightarrow> nemu_state m1 = nemu_state m" for pc i snpc and m m1 :: "'a mach"
    by (auto simp: inst_fetch_def rbind_Inr_iff)
  have x: "exec_base E X pc snpc inst m = Inr (b, d, m1) \<Longrightarrow> nemu_state m1 = nemu_state m" for pc inst snpc b d m m1
    by (auto simp: exec_base_def rbind_Inr_iff dest: assms(1) split: if_splits)
  have t: "fp_csr_trap E pc inst (b, d, m) = (b', d', m1) \<Longrightarrow> nemu_state m1 = nemu_state m" for pc inst b b' d d'
      and m m1 :: "'a mach"
    by (auto simp: fp_csr_trap_def Let_def riscv_raise_illegal_instruction_def split: if_splits)
  have bl: "run_blocks inst (blocks E c pc inst) (b, d, m) = Inr (b', d', m1) \<Longrightarrow> state_ok m \<Longrightarrow> state_ok m1"
    for inst pc b d b' d' and m m1 :: "'a mach"
    by (rule run_blocks_ok [OF blocks_ok])
  have iv: "invalid_inst c pc m = Inr m1 \<Longrightarrow> state_ok m \<Longrightarrow> state_ok m1" for pc and m m1 :: "'a mach"
  proof -
    assume a: "invalid_inst c pc m = Inr m1" "state_ok m"
    then obtain i1 p1 n1 i2 p2 n2 where n: "inst_fetch c pc 4 m = Inr (i1, p1, n1)"
        "inst_fetch c p1 4 n1 = Inr (i2, p2, n2)" "m1 = set_nemu_state c NEMU_ABORT pc (- 1) n2"
      by (auto simp: invalid_inst_def rbind_Inr_iff)
    have "state_ok n2"
      using f [OF n(1)] f [OF n(2)] a(2) by (simp add: state_ok_def)
    then show "state_ok m1"
      unfolding n(3) by (intro set_nemu_state_ok) simp_all
  qed
  have rt: "retire pc snpc dnpc inst p q m = Inr (d, m1) \<Longrightarrow> nemu_state m1 = nemu_state m" for pc snpc dnpc inst p q d
      and m m1 :: "'a mach"
    by (auto simp: retire_def Let_def rbind_Inr_iff split: if_splits)
  have d: "state_ok m1" if dd: "decode_exec E c X pc snpc inst m = Inr (dn, m1)" "state_ok m" for pc snpc inst dn m m1
  proof -
    obtain b dn1 m2 where e: "exec_base E X pc snpc inst m = Inr (b, dn1, m2)"
      using dd(1) by (auto simp: decode_exec_blocks Let_def rbind_Inr_iff)
    obtain b2 dn2 m3 where tp: "fp_csr_trap E pc inst (b, dn1, count_branch E pc inst dn1 m2) = (b2, dn2, m3)"
      by (metis prod_cases3)
    obtain b4 dn4 m4 m5 p q where r: "run_blocks inst (blocks E c pc inst) (b2, dn2, m3) = Inr (b4, dn4, m4)"
        "(if b4 then Inr m4 else invalid_inst c pc m4) = Inr m5"
        "retire pc snpc dn4 inst p q m5 = Inr (dn, m1)"
      using dd(1) e tp by (auto simp: decode_exec_blocks Let_def rbind_Inr_iff)
    have "state_ok m3"
      using x [OF e] t [OF tp] dd(2) by (simp add: state_ok_def)
    from bl [OF r(1) this] r(2) iv have "state_ok m5"
      by (auto split: if_splits)
    then show ?thesis
      using rt [OF r(3)] by (simp add: state_ok_def)
  qed
  obtain i snpc m1 where f1: "inst_fetch c (cpu_pc m) 4 m = Inr (i, snpc, m1)"
    using assms(2) by (auto simp: exec_once_def isa_exec_once_def rbind_Inr_iff)
  obtain m2 dn m3 where tr: "(case g_itrace_pack m1 of
              Some t \<Rightarrow> if isSoC c then rbind (itrace_pack_add t (cpu_pc m)) (\<lambda>t. Inr (m1\<lparr>g_itrace_pack := Some t\<rparr>))
                        else Inr m1
            | None \<Rightarrow> Inr m1) = Inr m2"
      and d2: "decode_exec E c X (cpu_pc m) snpc i m2 = Inr (dn, m3)" "m' = m3\<lparr>cpu_pc := dn\<rparr>"
    using assms(2) f1 by (auto simp: exec_once_def isa_exec_once_def rbind_Inr_iff)
  have "nemu_state m2 = nemu_state m1"
    using tr by (auto simp: rbind_Inr_iff split: option.splits if_splits)
  then have "state_ok m2"
    using f [OF f1] assms(3) by (simp add: state_ok_def)
  from d [OF d2(1) this] show ?thesis
    by (simp add: d2(2) state_ok_def)
qed

lemma execute_ok:
  assumes "\<And>inst pc m r t m'. X inst pc m = Inr (r, t, m') \<Longrightarrow> nemu_state m' = nemu_state m"
    "\<And>m. nemu_state (U m) = nemu_state m" "execute E c X U n m = Inr m'" "state_ok m"
  shows "state_ok m'"
  using assms(3,4)
proof (induction n arbitrary: m)
  case 0
  then show ?case by simp
next
  case (Suc n)
  from Suc.prems(1) obtain m1 where m1: "exec_once E c X m = Inr m1"
    by (auto simp: rbind_Inr_iff)
  have "state_ok m1"
    using exec_once_ok [OF assms(1) m1 Suc.prems(2)] .
  then show ?case
    using Suc.prems(1) m1 Suc.IH assms(2) by (auto simp: Let_def state_ok_def split: if_splits)
qed

lemma running_id: "nemu_state m = NEMU_RUNNING \<Longrightarrow> m\<lparr>nemu_state := NEMU_RUNNING\<rparr> = m"
  by (cases m) simp



end
