(* ===== verification/Riscv_Xaccel.thy ===== *)
theory Riscv_Xaccel
  imports Riscv_Step Xaccel_List
begin

text \<open>
  Programs of accelerator instructions on the machine: the instructions as \<open>decode_exec\<close> executes them,
  and the two-instruction reversal of a linked list from the fetch of its first word to the pc behind it.
\<close>

section \<open>Accelerator instructions in the step\<close>

lemma decode_xaccel:
  assumes "enc_ok E" "((MASK_XACCEL, k), body) \<in> set (blocks E c pc inst)" "k \<in> set xaccel_matches"
    "is_inst inst (MASK_XACCEL, k)" "X inst pc m = Inr (r, t, m)" "r \<noteq> 0"
    "body snpc m = Inr (dnpc, m')" "\<not> out_path (profiler m')"
  shows "decode_exec E c X pc snpc inst m = Inr (dnpc, set_R 0 0 m')"
proof -
  note w = xaccel_word [OF assms(1,3,4)]
  have "exec_base E X pc snpc inst m = Inr (False, snpc, m)"
    using assms(5,6) w(2,3) by (simp add: exec_base_def)
  then show ?thesis
    using decode_exec_body [OF assms(1,2,4)] w(1,4) assms(7,8) by blast
qed

text \<open>The fields of the RISC-V manual, and a word of the R format with both operands in one register.\<close>

definition std_fields :: "encodings \<Rightarrow> bool" where
  "std_fields E \<longleftrightarrow> INSN_FIELD_RD E = 0xf80 \<and> INSN_FIELD_RS1 E = 0xf8000 \<and> INSN_FIELD_RS2 E = 0x1f00000"

definition rword :: "u32 \<Rightarrow> nat \<Rightarrow> nat \<Rightarrow> nat \<Rightarrow> u32" where
  "rword base rd rs1 rs2 =
     base OR push_bit 7 (of_nat rd) OR push_bit 15 (of_nat rs1) OR push_bit 20 (of_nat rs2)"

lemma of_nat_reg: "i < 32 \<Longrightarrow> take_bit 5 (of_nat i :: u32) = of_nat i" "i < 32 \<Longrightarrow> unat (of_nat i :: u32) = i"
  by (simp_all add: take_bit_of_nat take_bit_nat_eq_self unat_of_nat)

lemma rword_fields:
  assumes "base AND MASK_XACCEL = base" "rd < 32" "rs1 < 32" "rs2 < 32"
  shows "rword base rd rs1 rs2 AND MASK_XACCEL = base"
    and "unat (drop_bit 7 (rword base rd rs1 rs2 AND 0xf80)) = rd"
    and "unat (drop_bit 15 (rword base rd rs1 rs2 AND 0xf8000)) = rs1"
    and "unat (drop_bit 20 (rword base rd rs1 rs2 AND 0x1f00000)) = rs2"
proof -
  have pow5: "(32 :: nat) = 2 ^ 5"
    by simp
  have m: "MASK_XACCEL = push_bit 25 (mask 7) OR push_bit 12 (mask 3) OR mask 7"
      "(0xf80 :: u32) = push_bit 7 (mask 5)" "(0xf8000 :: u32) = push_bit 15 (mask 5)"
      "(0x1f00000 :: u32) = push_bit 20 (mask 5)"
    by (simp_all add: MASK_XACCEL_def mask_eq_exp_minus_1 push_bit_eq_mult)
  have r: "bit i n \<Longrightarrow> n < 5" if "i < 32" for i n :: nat
    using that unfolding pow5 by (metis bit_take_bit_iff take_bit_nat_eq_self)
  have b: "bit base n \<Longrightarrow> n < 7 \<or> (12 \<le> n \<and> n < 15) \<or> (25 \<le> n \<and> n < 32)" for n
  proof -
    assume "bit base n"
    then have "bit (base AND MASK_XACCEL) n"
      using assms(1) by simp
    then show ?thesis
      unfolding m by (auto simp: bit_simps)
  qed
  show "rword base rd rs1 rs2 AND MASK_XACCEL = base"
    unfolding m rword_def by (rule bit_word_eqI) (auto simp: bit_simps dest: b r [OF assms(2)] r [OF assms(3)] r [OF assms(4)])
  have "drop_bit 7 (rword base rd rs1 rs2 AND 0xf80) = of_nat rd"
    unfolding m rword_def by (rule bit_word_eqI) (auto simp: bit_simps dest: b r [OF assms(2)] r [OF assms(3)] r [OF assms(4)])
  then show "unat (drop_bit 7 (rword base rd rs1 rs2 AND 0xf80)) = rd"
    using assms(2) by (simp only: of_nat_reg)
  have "drop_bit 15 (rword base rd rs1 rs2 AND 0xf8000) = of_nat rs1"
    unfolding m rword_def by (rule bit_word_eqI) (auto simp: bit_simps dest: b r [OF assms(2)] r [OF assms(3)] r [OF assms(4)])
  then show "unat (drop_bit 15 (rword base rd rs1 rs2 AND 0xf8000)) = rs1"
    using assms(3) by (simp only: of_nat_reg)
  have "drop_bit 20 (rword base rd rs1 rs2 AND 0x1f00000) = of_nat rs2"
    unfolding m rword_def by (rule bit_word_eqI) (auto simp: bit_simps dest: b r [OF assms(2)] r [OF assms(3)] r [OF assms(4)])
  then show "unat (drop_bit 20 (rword base rd rs1 rs2 AND 0x1f00000)) = rs2"
    using assms(4) by (simp only: of_nat_reg)
qed

text \<open>
  What the step relies on of \<open>execute_instruction\<close>: the words of the custom opcodes are none of
  its instructions, and it leaves the machine alone on them.
\<close>

definition rejects_custom :: "'d exec_fun \<Rightarrow> bool" where
  "rejects_custom X \<longleftrightarrow> (\<forall>inst pc m. inst AND 0x7f = 0x0b \<or> inst AND 0x7f = 0x5b \<longrightarrow>
     (\<exists>r t. X inst pc m = Inr (r, t, m) \<and> r \<noteq> 0))"

lemma rec_off [simp]: "\<not> out_path (profiler m) \<Longrightarrow> rec_xaccel op u y m = m"
  by (simp add: rec_xaccel_def riscv_profile_record_xaccel_def)

lemma set_R_sel [simp]:
  "profiler (set_R i v m) = profiler m" "mem (set_R i v m) = mem m" "cpu_pc (set_R i v m) = cpu_pc m"
  "gpr (set_R i v m) j = (if j = i then v else gpr m j)" "g_itrace_pack (set_R i v m) = g_itrace_pack m"
  "list_reverse_previous (set_R i v m) = list_reverse_previous m"
  by (simp_all add: set_R_def)

lemma set_R_0: "gpr m 0 = 0 \<Longrightarrow> set_R 0 0 m = m"
  by (simp add: set_R_def fun_upd_idem)

lemma decode_rword:
  assumes "enc_ok E" "std_fields E" "rejects_custom X" "rd < 32" "rs1 < 32" "rs2 < 32"
    "k \<in> set xaccel_matches" "((MASK_XACCEL, k), body) \<in> set (xaccel_blocks c pc rd rs1 rs2)"
    "body snpc m = Inr (dnpc, m')" "\<not> out_path (profiler m')"
  shows "decode_exec E c X pc snpc (rword k rd rs1 rs2) m = Inr (dnpc, set_R 0 0 m')"
proof -
  let ?i = "rword k rd rs1 rs2"
  have k: "k AND MASK_XACCEL = k"
    using assms(7) by (auto simp: xaccel_matches_def MASK_XACCEL_def)
  note f = rword_fields [OF k assms(4-6)]
  have i: "is_inst ?i (MASK_XACCEL, k)"
    using f(1) by (simp add: is_inst_def)
  then obtain r t where x: "X ?i pc m = Inr (r, t, m)" "r \<noteq> 0"
    using assms(3) xaccel_opcode [OF assms(7) i] unfolding rejects_custom_def is_inst_def fst_conv snd_conv by blast
  have b: "((MASK_XACCEL, k), body) \<in> set (blocks E c pc ?i)"
    using assms(2,8) f(2-4) by (simp add: blocks_def std_fields_def Let_def)
  show ?thesis
    by (rule decode_xaccel [where X = X and m = m, OF assms(1) b assms(7) i x assms(9,10)])
qed

text \<open>
  C28. Executed by the machine, a CRC instruction writes the CoreMark checksum of the low bytes of its first
  operand to the destination register and changes nothing else.
\<close>
theorem crc_on_machine:
  assumes "enc_ok E" "std_fields E" "rejects_custom X" "0 < rd" "rd < 32" "rs1 < 32" "rs2 < 32"
    "\<not> out_path (profiler m)" "gpr m 0 = 0" "gpr m rs2 = ucast crc"
  shows "decode_exec E c X pc snpc (rword 0x0b rd rs1 rs2) m
        = Inr (snpc, set_R rd (ucast (crcu8 (ucast (gpr m rs1)) crc)) m)
    \<and> decode_exec E c X pc snpc (rword 0x100b rd rs1 rs2) m
        = Inr (snpc, set_R rd (ucast (crcu16 (ucast (gpr m rs1)) crc)) m)
    \<and> decode_exec E c X pc snpc (rword 0x200b rd rs1 rs2) m
        = Inr (snpc, set_R rd (ucast (crcu32 (gpr m rs1) crc)) m)"
proof -
  have z: "set_R 0 0 (set_R rd v m) = set_R rd v m" for v
    using assms(4,9) by (intro set_R_0) simp
  have op: "keep_pc (op_crc n rd rs1 rs2) snpc m = Inr (snpc, set_R rd (crc_update (gpr m rs1) (ucast crc) n) m)" for n
    using assms(10) by (simp add: keep_pc_def op_crc_def)
  have "decode_exec E c X pc snpc (rword k rd rs1 rs2) m
      = Inr (snpc, set_R rd (crc_update (gpr m rs1) (ucast crc) n) m)"
    if "(k, n) \<in> {(0x0b, 1), (0x100b, 2), (0x200b, 4)}" for k n
    using decode_rword [OF assms(1-3,5-7), where body = "keep_pc (op_crc n rd rs1 rs2)" and k = k and m = m
        and snpc = snpc and c = c and pc = pc] that assms(8)
    by (auto simp: op z xaccel_matches_def xaccel_blocks_def)
  then show ?thesis
    using crc_update_ucast by simp
qed

lemma std_enc_fields: "std_fields std_enc"
  by (simp add: std_fields_def std_enc_def)

lemma rejects_all: "rejects_custom (\<lambda>_ _ m. Inr (1, 0, m))"
  by (simp add: rejects_custom_def)

lemma crc_on_machine_witness:
  "decode_exec std_enc kconfig_default (\<lambda>_ _ m. Inr (1, 0, m)) 0 4 (rword 0x200b 10 11 12) mach0
   = Inr (4, set_R 10 (ucast (crcu32 0 0)) mach0)"
  using crc_on_machine [OF std_enc_ok std_enc_fields rejects_all, of 10 11 12 mach0 0 kconfig_default 0 4]
  by (simp add: mach0_def)

section \<open>Reversing a list\<close>

fun exec_steps :: "encodings \<Rightarrow> config \<Rightarrow> 'd exec_fun \<Rightarrow> nat \<Rightarrow> 'd mach \<Rightarrow> (err, 'd mach) result" where
  "exec_steps E c X 0 m = Inr m"
| "exec_steps E c X (Suc n) m = rbind (exec_once E c X m) (exec_steps E c X n)"

text \<open>A machine that runs the program at \<open>pc\<close> with its list register \<open>r\<close>.\<close>

definition runs_listrev :: "config \<Rightarrow> u32 \<Rightarrow> nat \<Rightarrow> 'd mach \<Rightarrow> bool" where
  "runs_listrev c pc r m \<longleftrightarrow> plain_fetch c m \<and> \<not> out_path (profiler m) \<and> gpr m 0 = 0
     \<and> pmem_word c (mem m) pc = rword 0x600b r r 0 \<and> pmem_word c (mem m) (pc + 4) = rword 0x0400600b r r 0"

lemma listrev_write:
  assumes "runs_listrev c pc r m" "good_word c a" "a \<noteq> pc" "a \<noteq> pc + 4" "good_word c pc" "good_word c (pc + 4)" "0 < r"
  obtains s where "vaddr_write c (mem m) a 4 v = Inr s"
    "runs_listrev c pc r ((set_R r x m)\<lparr>mem := s, list_reverse_previous := q, cpu_pc := d\<rparr>)"
    "\<forall>b. good_word c b \<longrightarrow> pmem_word c s b = ((pmem_word c (mem m))(a := v)) b"
proof -
  have "no_mtrace (mem m)"
    using assms(1) by (simp add: runs_listrev_def plain_fetch_def)
  from pmem.wr_val [OF this assms(2), of v] obtain s where
    s: "vaddr_write c (mem m) a 4 v = Inr s" "no_mtrace s"
      "\<forall>b. good_word c b \<longrightarrow> pmem_word c s b = (if b = a then v else pmem_word c (mem m) b)"
    by blast
  then show ?thesis
    using assms that [of s] by (auto simp: runs_listrev_def plain_fetch_def)
qed

lemma init_step:
  assumes "enc_ok E" "std_fields E" "rejects_custom X" "0 < r" "r < 32" "good_word c pc" "good_word c (pc + 4)"
    "runs_listrev c pc r m" "cpu_pc m = pc" "good_word c (gpr m r)" "gpr m r \<noteq> pc" "gpr m r \<noteq> pc + 4"
  obtains m' where "exec_once E c X m = Inr m'" "runs_listrev c pc r m'" "cpu_pc m' = pc + 4"
    "gpr m' r = pmem_word c (mem m) (gpr m r)" "list_reverse_previous m' = gpr m r" "\<forall>i. i \<noteq> r \<longrightarrow> gpr m' i = gpr m i"
    "\<forall>b. good_word c b \<longrightarrow> pmem_word c (mem m') b = ((pmem_word c (mem m))(gpr m r := 0)) b"
proof -
  let ?a = "gpr m r" and ?v = "pmem_word c (mem m) (gpr m r)"
  obtain s where s: "vaddr_write c (mem m) ?a 4 0 = Inr s"
    "runs_listrev c pc r ((set_R r ?v m)\<lparr>mem := s, list_reverse_previous := ?a, cpu_pc := pc + 4\<rparr>)"
    "\<forall>b. good_word c b \<longrightarrow> pmem_word c s b = ((pmem_word c (mem m))(?a := 0)) b"
    using listrev_write [OF assms(8,10-12,6,7,4)] by metis
  let ?m = "(set_R r ?v m)\<lparr>mem := s, list_reverse_previous := ?a\<rparr>"
  have inv: "plain_fetch c m" "\<not> out_path (profiler m)" "gpr m 0 = 0" "pmem_word c (mem m) pc = rword 0x600b r r 0"
    using assms(8) by (simp_all add: runs_listrev_def)
  have rd: "vaddr_read c (mem m) ?a 4 = Inr (?v, mem m)"
    using pmem.rd_val [OF _ assms(10), of "mem m"] inv(1) by (simp add: plain_fetch_def)
  have b: "keep_pc (op_xlistrev_init c r r) (pc + 4) m = Inr (pc + 4, ?m)"
    using rd s(1) inv(2) by (simp add: keep_pc_def op_xlistrev_init_def xlistrev_init_def mem_rd_def mem_wr_def
        Let_def)
  have "decode_exec E c X pc (pc + 4) (rword 0x600b r r 0) m = Inr (pc + 4, set_R 0 0 ?m)"
    by (rule decode_rword [where body = "keep_pc (op_xlistrev_init c r r)" and m = m, OF assms(1-3,5,5) _ _ _ b]) (use inv(2) in \<open>simp_all add: xaccel_matches_def xaccel_blocks_def\<close>)
  moreover have "set_R 0 0 ?m = ?m"
    using inv(3) assms(4) by (intro set_R_0) simp
  ultimately have "exec_once E c X m = Inr (?m\<lparr>cpu_pc := pc + 4\<rparr>)"
    using exec_once_pmem [of c m E X] assms(6,9) inv(1,4) by simp
  from that [OF this] s(2,3) show ?thesis
    by simp
qed

lemma loop_decode:
  assumes "enc_ok E" "std_fields E" "rejects_custom X" "0 < r" "r < 32" "good_word c (pc + 4)" "runs_listrev c pc r m"
    "cpu_pc m = pc + 4"
    "xlistrev_step (mem_rd c) (mem_wr c) (list_reverse_previous m) (gpr m r) (mem m) = Inr (v, again, q, s)"
  shows "exec_once E c X m = Inr ((set_R r v m)\<lparr>mem := s, list_reverse_previous := q,
      cpu_pc := (if again then pc + 4 else pc + 8)\<rparr>)"
proof -
  let ?m = "(set_R r v m)\<lparr>mem := s, list_reverse_previous := q\<rparr>"
  let ?d = "if again then pc + 4 else pc + 8"
  have inv: "plain_fetch c m" "\<not> out_path (profiler m)" "gpr m 0 = 0"
      "pmem_word c (mem m) (pc + 4) = rword 0x0400600b r r 0"
    using assms(7) by (simp_all add: runs_listrev_def)
  have b: "op_xlistrev_loop c (pc + 4) r r (pc + 8) m = Inr (?d, ?m)"
    using assms(9) inv(2) by (simp add: op_xlistrev_loop_def)
  have "decode_exec E c X (pc + 4) (pc + 8) (rword 0x0400600b r r 0) m = Inr (?d, set_R 0 0 ?m)"
    by (rule decode_rword [where body = "op_xlistrev_loop c (pc + 4) r r" and m = m, OF assms(1-3,5,5) _ _ _ b])
      (use inv(2) in \<open>simp_all add: xaccel_matches_def xaccel_blocks_def\<close>)
  moreover have "set_R 0 0 ?m = ?m"
    using inv(3) assms(4) by (intro set_R_0) simp
  ultimately show ?thesis
    using exec_once_pmem [of c m E X] assms(6,8) inv(1,4) by (simp add: add.assoc)
qed

text \<open>The loop instruction, executed until it falls through, is the loop of \<open>core_list_reverse\<close>.\<close>

lemma loop_run:
  assumes "enc_ok E" "std_fields E" "rejects_custom X" "0 < r" "r < 32" "good_word c pc" "good_word c (pc + 4)"
    "runs_listrev c pc r m" "cpu_pc m = pc + 4" "chain nxt (gpr m r) as"
    "\<forall>b. good_word c b \<longrightarrow> pmem_word c (mem m) b = nxt b"
    "\<forall>a \<in> set as. good_word c a \<and> a \<noteq> pc \<and> a \<noteq> pc + 4"
  shows "\<exists>n m' nxt'. n \<le> length as + 1 \<and> exec_steps E c X n m = Inr m' \<and> cpu_pc m' = pc + 8
    \<and> list_reverse_loop nxt (gpr m r) (list_reverse_previous m) = Some (gpr m' r, nxt')
    \<and> (\<forall>b. good_word c b \<longrightarrow> pmem_word c (mem m') b = nxt' b) \<and> (\<forall>i. i \<noteq> r \<longrightarrow> gpr m' i = gpr m i)"
  using assms(8-)
proof (induction as arbitrary: m nxt)
  case Nil
  then have z: "gpr m r = 0"
    by simp
  then have "exec_once E c X m = Inr ((set_R r (list_reverse_previous m) m)\<lparr>mem := mem m,
      list_reverse_previous := list_reverse_previous m, cpu_pc := pc + 8\<rparr>)"
    using loop_decode [OF assms(1-5,7) Nil.prems(1,2), where again = False] by (simp add: xlistrev_step_def)
  then show ?case
    using Nil.prems(4) z by (intro exI [of _ 1]) (simp add: list_reverse_loop_unfold)
next
  case (Cons a as)
  let ?q = "list_reverse_previous m"
  have a: "gpr m r = a" "a \<noteq> 0" "good_word c a" "a \<noteq> pc" "a \<noteq> pc + 4" "a \<notin> set as" "chain nxt (nxt a) as"
    using Cons.prems(3,5) chain_distinct [OF Cons.prems(3)] by simp_all
  let ?v = "if nxt a \<noteq> 0 then nxt a else a" and ?d = "if nxt a \<noteq> 0 then pc + 4 else pc + 8"
  obtain s where s: "vaddr_write c (mem m) a 4 ?q = Inr s"
    "runs_listrev c pc r ((set_R r ?v m)\<lparr>mem := s, list_reverse_previous := a, cpu_pc := ?d\<rparr>)"
    "\<forall>b. good_word c b \<longrightarrow> pmem_word c s b = ((pmem_word c (mem m))(a := ?q)) b"
    using listrev_write [OF Cons.prems(1) a(3-5) assms(6,7,4)] by metis
  have "vaddr_read c (mem m) a 4 = Inr (nxt a, mem m)"
    using pmem.rd_val [OF _ a(3), of "mem m"] Cons.prems(1,4) a(3) by (simp add: runs_listrev_def plain_fetch_def)
  then have "xlistrev_step (mem_rd c) (mem_wr c) ?q (gpr m r) (mem m) = Inr (?v, nxt a \<noteq> 0, a, s)"
    using s(1) a(1,2) by (simp add: xlistrev_step_def mem_rd_def mem_wr_def)
  from loop_decode [OF assms(1-5,7) Cons.prems(1,2) this]
  have st: "exec_once E c X m = Inr ((set_R r ?v m)\<lparr>mem := s, list_reverse_previous := a, cpu_pc := ?d\<rparr>)" .
  let ?m = "(set_R r ?v m)\<lparr>mem := s, list_reverse_previous := a, cpu_pc := ?d\<rparr>"
  have val: "\<forall>b. good_word c b \<longrightarrow> pmem_word c (mem ?m) b = (nxt(a := ?q)) b"
    using s(3) Cons.prems(4) by simp
  show ?case
  proof (cases "nxt a = 0")
    case True
    then show ?thesis
      using st val a(1,2) by (intro exI [of _ 1] exI [of _ ?m]) (simp add: list_reverse_loop_unfold)
  next
    case False
    have "chain (nxt(a := ?q)) (gpr ?m r) as" "\<forall>a \<in> set as. good_word c a \<and> a \<noteq> pc \<and> a \<noteq> pc + 4"
      using a(6,7) False Cons.prems(5) by simp_all
    from Cons.IH [OF s(2) _ this(1) val this(2)] False obtain n m' nxt' where
      "n \<le> length as + 1" "exec_steps E c X n ?m = Inr m'" "cpu_pc m' = pc + 8"
      "list_reverse_loop (nxt(a := ?q)) (nxt a) a = Some (gpr m' r, nxt')"
      "\<forall>b. good_word c b \<longrightarrow> pmem_word c (mem m') b = nxt' b" "\<forall>i. i \<noteq> r \<longrightarrow> gpr m' i = gpr ?m i"
      by (auto simp del: fun_upd_apply)
    then show ?thesis
      using st a(1,2) by (intro exI [of _ "Suc n"] exI [of _ m'] exI [of _ nxt'])
        (simp add: list_reverse_loop_unfold)
  qed
qed

lemma chain_cong: "(\<forall>a \<in> set as. f a = g a) \<Longrightarrow> chain f p as \<longleftrightarrow> chain g p as"
  by (induction as arbitrary: p) auto

text \<open>
  C1. The two-instruction program XLISTREV_INIT, XLISTREV_LOOP, fetched from memory and executed by the
  machine, reverses the linked list in its register: within one step more than the list has nodes the
  machine is behind the program, the register holds the head of the list of the same nodes in reverse
  order, and every other register and every word outside the list is unchanged.
\<close>
theorem listrev_program:
  assumes "enc_ok E" "std_fields E" "rejects_custom X" "0 < r" "r < 32" "good_word c pc" "good_word c (pc + 4)"
    "runs_listrev c pc r m" "cpu_pc m = pc" "as \<noteq> []" "chain (pmem_word c (mem m)) (gpr m r) as"
    "\<forall>a \<in> set as. good_word c a \<and> a \<noteq> pc \<and> a \<noteq> pc + 4"
  shows "\<exists>n m'. n \<le> length as + 1 \<and> exec_steps E c X n m = Inr m' \<and> cpu_pc m' = pc + 8
    \<and> chain (pmem_word c (mem m')) (gpr m' r) (rev as) \<and> (\<forall>i. i \<noteq> r \<longrightarrow> gpr m' i = gpr m i)
    \<and> (\<forall>b. good_word c b \<longrightarrow> b \<notin> set as \<longrightarrow> pmem_word c (mem m') b = pmem_word c (mem m) b)"
proof -
  let ?f = "pmem_word c (mem m)" and ?a = "gpr m r"
  obtain bs where as: "as = ?a # bs"
    using assms(10,11) by (cases as) auto
  then have a: "?a \<noteq> 0" "good_word c ?a" "?a \<noteq> pc" "?a \<noteq> pc + 4" "?a \<notin> set bs" "chain ?f (?f ?a) bs"
      "\<forall>a \<in> set bs. good_word c a \<and> a \<noteq> pc \<and> a \<noteq> pc + 4"
    using assms(11,12) chain_distinct [OF assms(11)] by (simp_all add: as)
  obtain m1 where m1: "exec_once E c X m = Inr m1" "runs_listrev c pc r m1" "cpu_pc m1 = pc + 4"
    "gpr m1 r = ?f ?a" "list_reverse_previous m1 = ?a" "\<forall>i. i \<noteq> r \<longrightarrow> gpr m1 i = gpr m i"
    "\<forall>b. good_word c b \<longrightarrow> pmem_word c (mem m1) b = (?f(?a := 0)) b"
    using init_step [OF assms(1-9) a(2-4)] by metis
  have "chain (?f(?a := 0)) (gpr m1 r) bs"
    using a(5,6) m1(4) by simp
  from loop_run [OF assms(1-7) m1(2,3) this m1(7) a(7)] obtain n m' nxt' where
    n: "n \<le> length bs + 1" "exec_steps E c X n m1 = Inr m'" "cpu_pc m' = pc + 8"
      "list_reverse_loop (?f(?a := 0)) (?f ?a) ?a = Some (gpr m' r, nxt')"
      "\<forall>b. good_word c b \<longrightarrow> pmem_word c (mem m') b = nxt' b" "\<forall>i. i \<noteq> r \<longrightarrow> gpr m' i = gpr m1 i"
    using m1(4,5) by (auto simp del: fun_upd_apply)
  have "list_reverse_loop ?f ?a 0 = Some (gpr m' r, nxt')"
    using n(4) a(1) by (simp add: list_reverse_loop_unfold)
  then have "chain nxt' (gpr m' r) (rev as)" "\<forall>b. b \<notin> set as \<longrightarrow> nxt' b = ?f b"
    using list_reverse_loop_chain [OF assms(11), of 0 "[]"] by auto
  moreover have "chain (pmem_word c (mem m')) (gpr m' r) (rev as) \<longleftrightarrow> chain nxt' (gpr m' r) (rev as)"
    using n(5) assms(12) by (intro chain_cong) auto
  ultimately show ?thesis
    using n m1(1,6) by (intro exI [of _ "Suc n"] exI [of _ m']) (simp add: as)
qed

text \<open>A machine with the program at 0x80000000 and the list 0x80000100, 0x80000108.\<close>

definition word_host :: "(nat \<Rightarrow> u32) \<Rightarrow> region \<Rightarrow> nat \<Rightarrow> u8" where
  "word_host w r i = (if r = Pmem then ucast (drop_bit (8 * (i mod 4)) (w (i div 4 * 4))) else 0)"

definition listrev_mach :: "unit mach" where
  "listrev_mach = mach0\<lparr>gpr := (\<lambda>_. 0)(10 := 0x80000100), mem := (empty_mem ())\<lparr>host := word_host
     ((\<lambda>_. 0)(0 := rword 0x600b 10 10 0, 4 := rword 0x0400600b 10 10 0, 0x100 := 0x80000108))\<rparr>\<rparr>"

lemma pmem_word_host:
  assumes "unat (a - CONFIG_MBASE c) mod 4 = 0"
  shows "pmem_word c (s\<lparr>host := word_host w\<rparr>) a = w (unat (a - CONFIG_MBASE c))"
proof -
  let ?n = "unat (a - CONFIG_MBASE c)"
  have "(?n + i) mod 4 = i" "(?n + i) div 4 * 4 = ?n" if "i < 4" for i
    using assms that by presburger+
  then have "load_bytes (word_host w Pmem) ?n 4 = bytes_of 4 (w ?n)"
    by (intro nth_equalityI) (simp_all add: load_bytes_def bytes_of_def word_host_def)
  then show ?thesis
    by (simp add: pmem_word_def of_bytes_bytes_of take_bit_word_eq_self)
qed

lemma listrev_program_witness:
  "\<exists>n m'. n \<le> 3 \<and> exec_steps std_enc kconfig_default (\<lambda>_ _ m. Inr (1, 0, m)) n listrev_mach = Inr m'
     \<and> cpu_pc m' = 0x80000008
     \<and> chain (pmem_word kconfig_default (mem m')) (gpr m' 10) [0x80000108, 0x80000100]"
proof -
  have g: "good_word kconfig_default a" if "a \<in> {0x80000000, 0x80000004, 0x80000100, 0x80000108}" for a
    using that by (auto simp: good_word_def region_defs)
  have w: "pmem_word kconfig_default (mem listrev_mach) 0x80000000 = rword 0x600b 10 10 0"
      "pmem_word kconfig_default (mem listrev_mach) 0x80000004 = rword 0x0400600b 10 10 0"
      "pmem_word kconfig_default (mem listrev_mach) 0x80000100 = 0x80000108"
      "pmem_word kconfig_default (mem listrev_mach) 0x80000108 = 0"
    by (simp_all add: listrev_mach_def pmem_word_host kconfig_default_def)
  have i: "runs_listrev kconfig_default 0x80000000 10 listrev_mach" "cpu_pc listrev_mach = 0x80000000"
      "gpr listrev_mach 10 = 0x80000100"
    using w(1,2) by (simp_all add: runs_listrev_def plain_fetch_def no_mtrace_def listrev_mach_def mach0_def)
  have "chain (pmem_word kconfig_default (mem listrev_mach)) (gpr listrev_mach 10) [0x80000100, 0x80000108]"
    by (simp add: w i)
  from listrev_program [OF std_enc_ok std_enc_fields rejects_all _ _ _ _ i(1,2) _ this] show ?thesis
    using g by (auto simp: numeral_3_eq_3)
qed

end
