(* ===== verification/Branch_Sim.thy ===== *)
theory Branch_Sim
  imports Trace_Pack Cache_Sim Profile_Decode
begin

text \<open>
  The branch predictor simulator \<open>branchsim/src/main.cc\<close>: decoding of control instructions, branch target
  buffer, two-bit counters, the direction predictors, the algorithm runner and the model of the RTL branch
  target buffer with its statistics. A vector is a function on the indices below its size; the runner of the
  RTL model reports an index behind the vector as \<open>Overrun\<close> and a failed assertion as \<open>AssertFail\<close>.
\<close>

section \<open>Decoding\<close>

definition sign_extend :: "u32 \<Rightarrow> nat \<Rightarrow> u32" where
  "sign_extend val bits = (let sign_bit = push_bit (bits - 1) 1 in (val XOR sign_bit) - sign_bit)"

definition get_b_imm :: "u32 \<Rightarrow> u32" where
  "get_b_imm code =
     (let imm12 = drop_bit 31 code AND 1;
          imm11 = drop_bit 7 code AND 1;
          imm10_5 = drop_bit 25 code AND 0x3f;
          imm4_1 = drop_bit 8 code AND 0xf
      in sign_extend (push_bit 12 imm12 OR push_bit 11 imm11 OR push_bit 5 imm10_5 OR push_bit 1 imm4_1) 13)"

definition get_j_imm :: "u32 \<Rightarrow> u32" where
  "get_j_imm code =
     (let imm20 = drop_bit 31 code AND 1;
          imm19_12 = drop_bit 12 code AND 0xff;
          imm11 = drop_bit 20 code AND 1;
          imm10_1 = drop_bit 21 code AND 0x3ff
      in sign_extend (push_bit 20 imm20 OR push_bit 12 imm19_12 OR push_bit 11 imm11 OR push_bit 1 imm10_1) 21)"

definition is_conditional_branch :: "u32 \<Rightarrow> bool" where "is_conditional_branch code \<longleftrightarrow> code AND 0x7f = 0x63"
definition is_jal :: "u32 \<Rightarrow> bool" where "is_jal code \<longleftrightarrow> code AND 0x7f = 0x6f"
definition is_jalr :: "u32 \<Rightarrow> bool" where "is_jalr code \<longleftrightarrow> code AND 0x7f = 0x67"
definition is_exact_ret :: "u32 \<Rightarrow> bool" where "is_exact_ret code \<longleftrightarrow> code = 0x00008067"

datatype ControlKind = Branch | Jal | Ret | Jalr

definition get_control_kind :: "u32 \<Rightarrow> (err, ControlKind) result" where
  "get_control_kind code =
     (if is_conditional_branch code then Inr Branch
      else if is_jal code then Inr Jal
      else if is_exact_ret code then Inr Ret
      else if is_jalr code then Inr Jalr
      else Inl AssertFail)"

record DecodedBranch =
  d_is_conditional :: bool
  d_is_jal :: bool
  d_direct_target_valid :: bool
  d_direct_target :: u32

definition decode_branch :: "u32 \<Rightarrow> u32 \<Rightarrow> DecodedBranch" where
  "decode_branch pc code =
     (if is_conditional_branch code
      then \<lparr>d_is_conditional = True, d_is_jal = is_jal code, d_direct_target_valid = True,
            d_direct_target = pc + get_b_imm code\<rparr>
      else if is_jal code
      then \<lparr>d_is_conditional = False, d_is_jal = True, d_direct_target_valid = True,
            d_direct_target = pc + get_j_imm code\<rparr>
      else \<lparr>d_is_conditional = False, d_is_jal = False, d_direct_target_valid = False, d_direct_target = 0\<rparr>)"

section \<open>Branch target buffer\<close>

record BTBEntry =
  e_tag :: u32
  e_target :: u32
  e_is_jal :: bool
  e_valid :: bool

record HistoryEntry =
  h_valid :: bool
  h_is_jal :: bool
  h_target :: u32

record PredictContext =
  c_pc :: u32
  c_code :: u32
  c_entry :: HistoryEntry
  c_decoded :: DecodedBranch

record BTB =
  b_size :: u64
  b_entries :: "nat \<Rightarrow> BTBEntry"

definition BTB_new :: "u64 \<Rightarrow> (err, BTB) result" where
  "BTB_new n = (if has_single_bit n
     then Inr \<lparr>b_size = n, b_entries = (\<lambda>_. \<lparr>e_tag = 0, e_target = 0, e_is_jal = False, e_valid = False\<rparr>)\<rparr>
     else Inl AssertFail)"

definition BTB_index :: "BTB \<Rightarrow> u32 \<Rightarrow> nat" where
  "BTB_index b pc = unat (drop_bit 2 pc) mod unat (b_size b)"

definition BTB_tag :: "BTB \<Rightarrow> u32 \<Rightarrow> u32" where
  "BTB_tag b pc = drop_bit (2 + countr_zero (b_size b)) pc"

definition BTB_query :: "BTB \<Rightarrow> u32 \<Rightarrow> HistoryEntry" where
  "BTB_query b pc =
     (let entry = b_entries b (BTB_index b pc)
      in if e_valid entry \<and> e_tag entry = BTB_tag b pc
         then \<lparr>h_valid = True, h_is_jal = e_is_jal entry, h_target = e_target entry\<rparr>
         else \<lparr>h_valid = False, h_is_jal = False, h_target = 0\<rparr>)"

definition BTB_update :: "BTB \<Rightarrow> u32 \<Rightarrow> u32 \<Rightarrow> bool \<Rightarrow> BTB" where
  "BTB_update b pc target is_jal_branch =
     b\<lparr>b_entries := (b_entries b)(BTB_index b pc := \<lparr>e_tag = BTB_tag b pc, e_target = target,
         e_is_jal = is_jal_branch, e_valid = True\<rparr>)\<rparr>"

section \<open>Direction predictors\<close>

record CounterTable =
  t_size :: u64
  t_counters :: "nat \<Rightarrow> u8"

definition CounterTable_new :: "u64 \<Rightarrow> u8 \<Rightarrow> (err, CounterTable) result" where
  "CounterTable_new n v = (if has_single_bit n \<and> v \<le> 3
     then Inr \<lparr>t_size = n, t_counters = (\<lambda>_. v)\<rparr> else Inl AssertFail)"

definition prefer_high :: "CounterTable \<Rightarrow> nat \<Rightarrow> bool" where
  "prefer_high t i \<longleftrightarrow> t_counters t i \<ge> 2"

definition counter_next :: "u8 \<Rightarrow> bool \<Rightarrow> u8" where
  "counter_next counter toward_high =
     (if toward_high then if counter < 3 then counter + 1 else counter
      else if counter > 0 then counter - 1 else counter)"

definition counter_update :: "CounterTable \<Rightarrow> nat \<Rightarrow> bool \<Rightarrow> CounterTable" where
  "counter_update t i toward_high =
     t\<lparr>t_counters := (t_counters t)(i := counter_next (t_counters t i) toward_high)\<rparr>"

definition make_mask :: "nat \<Rightarrow> u32" where
  "make_mask bits = (if 32 \<le> bits then NOT 0 else push_bit bits 1 - 1)"

definition shift_in :: "u32 \<Rightarrow> bool \<Rightarrow> u32 \<Rightarrow> u32" where
  "shift_in history taken m = (push_bit 1 history OR (if taken then 1 else 0)) AND m"

record GSharePredictor =
  g_pht :: CounterTable
  g_mask :: u32
  g_ghr :: u32

definition gshare_index :: "GSharePredictor \<Rightarrow> u32 \<Rightarrow> nat" where
  "gshare_index g pc = unat ((drop_bit 2 pc XOR g_ghr g) AND g_mask g) mod unat (t_size (g_pht g))"

definition gshare_predict :: "GSharePredictor \<Rightarrow> u32 \<Rightarrow> bool" where
  "gshare_predict g pc = prefer_high (g_pht g) (gshare_index g pc)"

definition gshare_update :: "GSharePredictor \<Rightarrow> u32 \<Rightarrow> bool \<Rightarrow> GSharePredictor" where
  "gshare_update g pc taken =
     g\<lparr>g_pht := counter_update (g_pht g) (gshare_index g pc) taken, g_ghr := shift_in (g_ghr g) taken (g_mask g)\<rparr>"

record LocalPredictor =
  l_size :: u64
  l_histories :: "nat \<Rightarrow> u32"
  l_mask :: u32
  l_pht :: CounterTable

definition local_history_index :: "LocalPredictor \<Rightarrow> u32 \<Rightarrow> nat" where
  "local_history_index l pc = unat (drop_bit 2 pc) mod unat (l_size l)"

definition local_pht_index :: "LocalPredictor \<Rightarrow> u32 \<Rightarrow> nat" where
  "local_pht_index l pc = unat (l_histories l (local_history_index l pc)) mod unat (t_size (l_pht l))"

definition local_predict :: "LocalPredictor \<Rightarrow> u32 \<Rightarrow> bool" where
  "local_predict l pc = prefer_high (l_pht l) (local_pht_index l pc)"

definition local_update :: "LocalPredictor \<Rightarrow> u32 \<Rightarrow> bool \<Rightarrow> LocalPredictor" where
  "local_update l pc taken =
     (let i = local_history_index l pc
      in l\<lparr>l_pht := counter_update (l_pht l) (local_pht_index l pc) taken,
           l_histories := (l_histories l)(i := shift_in (l_histories l i) taken (l_mask l))\<rparr>)"

record Tournament =
  to_local :: LocalPredictor
  to_gshare :: GSharePredictor
  to_chooser :: CounterTable

definition chooser_index :: "Tournament \<Rightarrow> u32 \<Rightarrow> nat" where
  "chooser_index p pc = unat (drop_bit 2 pc) mod unat (t_size (to_chooser p))"

definition tournament_predict :: "Tournament \<Rightarrow> u32 \<Rightarrow> bool" where
  "tournament_predict p pc =
     (if prefer_high (to_chooser p) (chooser_index p pc) then gshare_predict (to_gshare p) pc
      else local_predict (to_local p) pc)"

definition tournament_update :: "Tournament \<Rightarrow> u32 \<Rightarrow> bool \<Rightarrow> Tournament" where
  "tournament_update p pc taken =
     (let i = chooser_index p pc;
          local_taken = local_predict (to_local p) pc;
          gshare_taken = gshare_predict (to_gshare p) pc;
          chooser = (if local_taken \<noteq> gshare_taken
            then if gshare_taken = taken then counter_update (to_chooser p) i True
                 else if local_taken = taken then counter_update (to_chooser p) i False
                 else to_chooser p
            else to_chooser p)
      in p\<lparr>to_chooser := chooser, to_local := local_update (to_local p) pc taken,
           to_gshare := gshare_update (to_gshare p) pc taken\<rparr>)"

section \<open>Algorithms\<close>

text \<open>
  An algorithm is its shared predictor state; the two booleans of \<open>AlgoConfig\<close> that \<open>choose_target\<close> reads
  follow from it. \<open>default_update\<close> is the update of the branch target buffer all of them end with.
\<close>

datatype algo =
    Btfn
  | TwoBit CounterTable
  | GShare GSharePredictor bool
  | Local LocalPredictor bool
  | TournamentAlgo Tournament

definition predict_btfn :: "PredictContext \<Rightarrow> bool" where
  "predict_btfn ctx \<longleftrightarrow> h_valid (c_entry ctx) \<and> (h_is_jal (c_entry ctx) \<or> h_target (c_entry ctx) < c_pc ctx)"

definition bht_index :: "CounterTable \<Rightarrow> u32 \<Rightarrow> nat" where
  "bht_index t pc = unat (drop_bit 2 pc) mod unat (t_size t)"

fun predict_taken :: "algo \<Rightarrow> PredictContext \<Rightarrow> bool" where
  "predict_taken Btfn ctx = predict_btfn ctx"
| "predict_taken (TwoBit bht) ctx =
     (if d_is_jal (c_decoded ctx) then h_valid (c_entry ctx) \<and> h_is_jal (c_entry ctx)
      else if \<not> h_valid (c_entry ctx) then False
      else prefer_high bht (bht_index bht (c_pc ctx)))"
| "predict_taken (GShare p direct_branch_target) ctx =
     (if d_is_jal (c_decoded ctx) then direct_branch_target \<or> h_valid (c_entry ctx) \<and> h_is_jal (c_entry ctx)
      else if d_is_conditional (c_decoded ctx)
      then if direct_branch_target then gshare_predict p (c_pc ctx)
           else h_valid (c_entry ctx) \<and> gshare_predict p (c_pc ctx)
      else h_valid (c_entry ctx) \<and> gshare_predict p (c_pc ctx))"
| "predict_taken (Local p direct_branch_target) ctx =
     (if d_is_jal (c_decoded ctx) then direct_branch_target \<or> h_valid (c_entry ctx) \<and> h_is_jal (c_entry ctx)
      else if d_is_conditional (c_decoded ctx)
      then if direct_branch_target then local_predict p (c_pc ctx)
           else h_valid (c_entry ctx) \<and> local_predict p (c_pc ctx)
      else h_valid (c_entry ctx))"
| "predict_taken (TournamentAlgo p) ctx =
     (if d_is_jal (c_decoded ctx) then True
      else if d_is_conditional (c_decoded ctx) then tournament_predict p (c_pc ctx)
      else h_valid (c_entry ctx))"

fun algo_update :: "algo \<Rightarrow> PredictContext \<Rightarrow> bool \<Rightarrow> algo" where
  "algo_update Btfn ctx taken = Btfn"
| "algo_update (TwoBit bht) ctx taken =
     (if d_is_conditional (c_decoded ctx) then TwoBit (counter_update bht (bht_index bht (c_pc ctx)) taken)
      else TwoBit bht)"
| "algo_update (GShare p d) ctx taken =
     (if d_is_conditional (c_decoded ctx) then GShare (gshare_update p (c_pc ctx) taken) d else GShare p d)"
| "algo_update (Local p d) ctx taken =
     (if d_is_conditional (c_decoded ctx) then Local (local_update p (c_pc ctx) taken) d else Local p d)"
| "algo_update (TournamentAlgo p) ctx taken =
     (if d_is_conditional (c_decoded ctx) then TournamentAlgo (tournament_update p (c_pc ctx) taken)
      else TournamentAlgo p)"

fun direct_target :: "algo \<Rightarrow> bool" where
  "direct_target Btfn = False"
| "direct_target (TwoBit _) = False"
| "direct_target (GShare _ d) = d"
| "direct_target (Local _ d) = d"
| "direct_target (TournamentAlgo _) = True"

definition choose_target :: "algo \<Rightarrow> PredictContext \<Rightarrow> bool \<Rightarrow> u32" where
  "choose_target a ctx predict_taken_flag =
     (if \<not> predict_taken_flag then c_pc ctx + 4
      else if d_is_conditional (c_decoded ctx) \<and> direct_target a \<and> d_direct_target_valid (c_decoded ctx)
      then d_direct_target (c_decoded ctx)
      else if d_is_jal (c_decoded ctx) \<and> direct_target a \<and> d_direct_target_valid (c_decoded ctx)
      then d_direct_target (c_decoded ctx)
      else if h_valid (c_entry ctx) then h_target (c_entry ctx)
      else c_pc ctx + 4)"

definition default_update :: "PredictContext \<Rightarrow> bool \<Rightarrow> u32 \<Rightarrow> BTB \<Rightarrow> BTB" where
  "default_update ctx taken nxt_pc b =
     (if taken then BTB_update b (c_pc ctx) nxt_pc (d_is_jal (c_decoded ctx)) else b)"

record AlgoRunner =
  r_algo :: algo
  r_btb :: BTB
  r_total :: u64
  r_wrong :: u64

definition runner_process :: "AlgoRunner \<Rightarrow> btrace_record \<Rightarrow> AlgoRunner" where
  "runner_process r rec =
     (let ctx = \<lparr>c_pc = bt_pc rec, c_code = bt_code rec, c_entry = BTB_query (r_btb r) (bt_pc rec),
                 c_decoded = decode_branch (bt_pc rec) (bt_code rec)\<rparr>;
          prediction = choose_target (r_algo r) ctx (predict_taken (r_algo r) ctx);
          taken = bt_nxt_pc rec \<noteq> bt_pc rec + 4
      in r\<lparr>r_wrong := r_wrong r + (if prediction \<noteq> bt_nxt_pc rec then 1 else 0), r_total := r_total r + 1,
           r_algo := algo_update (r_algo r) ctx taken,
           r_btb := default_update ctx taken (bt_nxt_pc rec) (r_btb r)\<rparr>)"

text \<open>The constructors of the predictors, with the assertions of their classes, and of the configurations.\<close>

definition gshare_new :: "u64 \<Rightarrow> nat \<Rightarrow> (err, GSharePredictor) result" where
  "gshare_new pht_size ghr_bits =
     rbind (CounterTable_new pht_size 1) (\<lambda>pht.
       if ghr_bits > 0 then Inr \<lparr>g_pht = pht, g_mask = make_mask ghr_bits, g_ghr = 0\<rparr> else Inl AssertFail)"

definition local_new :: "u64 \<Rightarrow> nat \<Rightarrow> u64 \<Rightarrow> (err, LocalPredictor) result" where
  "local_new lht_size history_bits pht_size =
     rbind (CounterTable_new pht_size 1) (\<lambda>pht.
       if history_bits > 0
       then Inr \<lparr>l_size = lht_size, l_histories = (\<lambda>_. 0), l_mask = make_mask history_bits, l_pht = pht\<rparr>
       else Inl AssertFail)"

definition make_two_bit_algo :: "u64 \<Rightarrow> (err, algo) result" where
  "make_two_bit_algo bht_size = rbind (CounterTable_new bht_size 1) (\<lambda>bht. Inr (TwoBit bht))"

definition make_gshare_algo :: "u64 \<Rightarrow> nat \<Rightarrow> bool \<Rightarrow> (err, algo) result" where
  "make_gshare_algo pht_size ghr_bits d = rbind (gshare_new pht_size ghr_bits) (\<lambda>p. Inr (GShare p d))"

definition make_local_algo :: "u64 \<Rightarrow> nat \<Rightarrow> u64 \<Rightarrow> bool \<Rightarrow> (err, algo) result" where
  "make_local_algo lht_size bits pht_size d = rbind (local_new lht_size bits pht_size) (\<lambda>p. Inr (Local p d))"

definition make_tournament_algo :: "u64 \<Rightarrow> nat \<Rightarrow> u64 \<Rightarrow> u64 \<Rightarrow> nat \<Rightarrow> (err, algo) result" where
  "make_tournament_algo lht_size bits pht_size chooser_size ghr_bits =
     rbind (local_new lht_size bits pht_size) (\<lambda>l.
     rbind (gshare_new pht_size ghr_bits) (\<lambda>g.
     rbind (CounterTable_new chooser_size 2) (\<lambda>ch.
       Inr (TournamentAlgo \<lparr>to_local = l, to_gshare = g, to_chooser = ch\<rparr>))))"

definition AlgoRunner_new :: "algo \<Rightarrow> u64 \<Rightarrow> (err, AlgoRunner) result" where
  "AlgoRunner_new a btb_size =
     rbind (BTB_new btb_size) (\<lambda>b. Inr \<lparr>r_algo = a, r_btb = b, r_total = 0, r_wrong = 0\<rparr>)"

text \<open>The algorithms of \<open>main\<close> for one table size, each with a branch target buffer of that size.\<close>

fun sequence_res :: "(err, 'a) result list \<Rightarrow> (err, 'a list) result" where
  "sequence_res [] = Inr []"
| "sequence_res (x # xs) = rbind x (\<lambda>y. rbind (sequence_res xs) (\<lambda>ys. Inr (y # ys)))"

definition main_algorithms :: "u64 \<Rightarrow> (err, AlgoRunner list) result" where
  "main_algorithms n = sequence_res (map (\<lambda>a. rbind a (\<lambda>a. AlgoRunner_new a n))
     [Inr Btfn, make_two_bit_algo n, make_gshare_algo n 10 True, make_gshare_algo n 10 False,
      make_local_algo n 4 n True, make_local_algo n 4 n False, make_tournament_algo n 4 n n 10])"

end
