(* ===== verification/Rtl_Btb.thy ===== *)
theory Rtl_Btb
  imports Branch_Sim Profile_Cache "HOL-Library.List_Lexorder"
begin

text \<open>
  \<open>RtlModelRunner\<close> of \<open>branchsim/src/main.cc\<close>, the model of the branch target buffer in the RTL with its
  allocation policies, its statistics and the replay of a recorded trace. Its first two configurations
  are shown to be the model the profiler of NEMU runs in place.
\<close>

section \<open>State\<close>

datatype RtlAllocationPolicy = Always | SkipConflictingNotTaken | ProtectJalFromBranches | SecondChanceJal

record RtlBTBEntry =
  re_pc :: u32
  re_target :: u32
  re_counter :: u8
  re_valid :: bool
  re_is_jal :: bool
  re_is_branch :: bool
  re_jal_protected :: bool

record RtlModelConfig =
  rc_btb_size :: u64
  rc_policy :: RtlAllocationPolicy
  rc_index_bits :: "nat list"
  rc_direction_table_size :: u64
  rc_ghr_bits :: nat

record RtlModelStats =
  s_total :: u64
  s_wrong :: u64
  s_direction_wrong :: u64
  s_target_wrong :: u64
  s_no_prediction :: u64
  s_skipped :: u64
  s_total_by_kind :: "ControlKind \<Rightarrow> u64"
  s_wrong_by_kind :: "ControlKind \<Rightarrow> u64"

record RtlModelRunner =
  rr_config :: RtlModelConfig
  rr_entries :: "nat \<Rightarrow> RtlBTBEntry"
  rr_counters :: "nat \<Rightarrow> u8"
  rr_ghr :: u32
  rr_stats :: RtlModelStats

definition zero_stats :: RtlModelStats where
  "zero_stats = \<lparr>s_total = 0, s_wrong = 0, s_direction_wrong = 0, s_target_wrong = 0, s_no_prediction = 0,
     s_skipped = 0, s_total_by_kind = (\<lambda>_. 0), s_wrong_by_kind = (\<lambda>_. 0)\<rparr>"

definition empty_entry :: RtlBTBEntry where
  "empty_entry = \<lparr>re_pc = 0, re_target = 0, re_counter = 0, re_valid = False, re_is_jal = False,
     re_is_branch = False, re_jal_protected = False\<rparr>"

definition RtlModelRunner_new :: "RtlModelConfig \<Rightarrow> (err, RtlModelRunner) result" where
  "RtlModelRunner_new cfg = (if has_single_bit (rc_btb_size cfg)
     then Inr \<lparr>rr_config = cfg, rr_entries = (\<lambda>_. empty_entry), rr_counters = (\<lambda>_. 1), rr_ghr = 0,
               rr_stats = zero_stats\<rparr>
     else Inl AssertFail)"

section \<open>Indices\<close>

definition get_direction_index :: "RtlModelRunner \<Rightarrow> u32 \<Rightarrow> nat" where
  "get_direction_index r pc =
     (let history = (if rc_ghr_bits (rr_config r) = 0 then 0 else rr_ghr r)
      in unat (drop_bit 2 pc XOR history) mod unat (rc_direction_table_size (rr_config r)))"

text \<open>The selected address bits of \<open>pc\<close>, the first of them the lowest of the index.\<close>

fun select_bits :: "u32 \<Rightarrow> nat \<Rightarrow> nat list \<Rightarrow> u64" where
  "select_bits pc i [] = 0"
| "select_bits pc i (b # bs) = select_bits pc (Suc i) bs OR ucast (push_bit i (drop_bit (2 + b) pc AND 1))"

definition get_index :: "RtlModelRunner \<Rightarrow> u32 \<Rightarrow> nat" where
  "get_index r pc =
     (if rc_index_bits (rr_config r) \<noteq> [] then unat (select_bits pc 0 (rc_index_bits (rr_config r)))
      else unat (ucast (drop_bit 2 pc) AND (rc_btb_size (rr_config r) - 1)))"

section \<open>One record\<close>

definition rtl_predict :: "RtlModelRunner \<Rightarrow> u32 \<Rightarrow> RtlBTBEntry \<Rightarrow> bool" where
  "rtl_predict r pc old =
     (let hit = re_valid old \<and> re_pc old = pc;
          branch_direction = (if rc_direction_table_size (rr_config r) = 0 then re_counter old \<ge> 2
                              else rr_counters r (get_direction_index r pc) \<ge> 2)
      in hit \<and> (re_is_jal old \<or> re_is_branch old \<and> branch_direction))"

definition rtl_count :: "RtlModelStats \<Rightarrow> ControlKind \<Rightarrow> bool \<Rightarrow> bool \<Rightarrow> bool \<Rightarrow> RtlModelStats" where
  "rtl_count st kind wrong predicted_taken actual_taken =
     (let st = st\<lparr>s_total := s_total st + 1,
                  s_total_by_kind := (s_total_by_kind st)(kind := s_total_by_kind st kind + 1)\<rparr>
      in if wrong
         then let st = st\<lparr>s_wrong := s_wrong st + 1,
                          s_wrong_by_kind := (s_wrong_by_kind st)(kind := s_wrong_by_kind st kind + 1)\<rparr>
              in if predicted_taken \<noteq> actual_taken then st\<lparr>s_direction_wrong := s_direction_wrong st + 1\<rparr>
                 else if predicted_taken then st\<lparr>s_target_wrong := s_target_wrong st + 1\<rparr>
                 else st\<lparr>s_no_prediction := s_no_prediction st + 1\<rparr>
         else st)"

definition rtl_train :: "RtlModelRunner \<Rightarrow> u32 \<Rightarrow> bool \<Rightarrow> bool \<Rightarrow> RtlModelRunner" where
  "rtl_train r pc incoming_is_branch actual_taken =
     (let cfg = rr_config r in
      if incoming_is_branch \<and> rc_direction_table_size cfg \<noteq> 0
      then let i = get_direction_index r pc; counter = rr_counters r i;
               counter = (if actual_taken \<and> counter \<noteq> 3 then counter + 1
                          else if \<not> actual_taken \<and> counter \<noteq> 0 then counter - 1 else counter);
               r = r\<lparr>rr_counters := (rr_counters r)(i := counter)\<rparr>
           in if rc_ghr_bits cfg \<noteq> 0
              then r\<lparr>rr_ghr := shift_in (rr_ghr r) actual_taken (make_mask (rc_ghr_bits cfg))\<rparr> else r
      else r)"

definition rtl_skip :: "RtlAllocationPolicy \<Rightarrow> RtlBTBEntry \<Rightarrow> bool \<Rightarrow> bool \<Rightarrow> bool \<Rightarrow> bool \<times> bool" where
  "rtl_skip policy old hit incoming_is_branch actual_taken =
     (let matching_branch = hit \<and> re_is_branch old \<and> incoming_is_branch;
          skip_conflicting_not_taken = policy \<noteq> Always \<and> incoming_is_branch \<and> \<not> actual_taken \<and> \<not> matching_branch;
          protect_jal = policy = ProtectJalFromBranches \<and> incoming_is_branch \<and> \<not> hit \<and> re_valid old \<and> re_is_jal old;
          give_jal_second_chance = policy = SecondChanceJal \<and> incoming_is_branch \<and> \<not> hit \<and> re_valid old
            \<and> re_is_jal old \<and> re_jal_protected old
      in (skip_conflicting_not_taken \<or> protect_jal \<or> give_jal_second_chance, give_jal_second_chance))"

definition rtl_next_direction :: "RtlBTBEntry \<Rightarrow> bool \<Rightarrow> bool \<Rightarrow> bool \<Rightarrow> u8" where
  "rtl_next_direction old incoming_is_branch matching_branch actual_taken =
     (if incoming_is_branch
      then if \<not> matching_branch then if actual_taken then 2 else 1
           else if actual_taken \<and> re_counter old \<noteq> 3 then re_counter old + 1
           else if \<not> actual_taken \<and> re_counter old \<noteq> 0 then re_counter old - 1
           else re_counter old
      else 0)"

definition rtl_allocate ::
  "RtlModelRunner \<Rightarrow> btrace_record \<Rightarrow> ControlKind \<Rightarrow> nat \<Rightarrow> bool \<Rightarrow> (err, RtlModelRunner) result" where
  "rtl_allocate r rec kind index actual_taken =
     (let pc = bt_pc rec; old = rr_entries r index;
          hit = re_valid old \<and> re_pc old = pc;
          incoming_is_branch = (kind = Branch);
          incoming_is_jal = (kind = Jal \<or> kind = Ret);
          matching_branch = (hit \<and> re_is_branch old \<and> incoming_is_branch);
          (skip_allocation, give_jal_second_chance) =
            rtl_skip (rc_policy (rr_config r)) old hit incoming_is_branch actual_taken
      in if skip_allocation
         then let r = r\<lparr>rr_stats := (rr_stats r)\<lparr>s_skipped := s_skipped (rr_stats r) + 1\<rparr>\<rparr>
              in Inr (if give_jal_second_chance
                      then r\<lparr>rr_entries := (rr_entries r)(index := old\<lparr>re_jal_protected := False\<rparr>)\<rparr>
                      else r)
         else let decoded = decode_branch pc (bt_code rec) in
              if incoming_is_branch \<and> \<not> d_direct_target_valid decoded then Inl AssertFail
              else Inr (r\<lparr>rr_entries := (rr_entries r)(index := \<lparr>re_pc = pc,
                     re_target = (if incoming_is_branch then d_direct_target decoded else bt_nxt_pc rec),
                     re_counter = rtl_next_direction old incoming_is_branch matching_branch actual_taken,
                     re_valid = True, re_is_jal = incoming_is_jal, re_is_branch = incoming_is_branch,
                     re_jal_protected = incoming_is_jal\<rparr>)\<rparr>))"

definition rtl_process :: "RtlModelRunner \<Rightarrow> btrace_record \<Rightarrow> (err, RtlModelRunner) result" where
  "rtl_process r rec =
     rbind (get_control_kind (bt_code rec)) (\<lambda>kind.
       let pc = bt_pc rec; index = get_index r pc in
       if unat (rc_btb_size (rr_config r)) \<le> index then Inl Overrun else
       let old = rr_entries r index;
           predicted_taken = rtl_predict r pc old;
           predicted_pc = (if predicted_taken then re_target old else pc + 4);
           actual_taken = (kind \<noteq> Branch \<or> bt_nxt_pc rec \<noteq> pc + 4);
           wrong = predicted_pc \<noteq> bt_nxt_pc rec;
           r = r\<lparr>rr_stats := rtl_count (rr_stats r) kind wrong predicted_taken actual_taken\<rparr>;
           r = rtl_train r pc (kind = Branch) actual_taken
       in rtl_allocate r rec kind index actual_taken)"

section \<open>Replay\<close>

fun rtl_replay :: "RtlModelRunner \<Rightarrow> btrace_record list \<Rightarrow> (err, RtlModelRunner) result" where
  "rtl_replay r [] = Inr r"
| "rtl_replay r (rec # recs) = rbind (rtl_process r rec) (\<lambda>r. rtl_replay r recs)"

section \<open>The simulator\<close>

definition rtl_config :: "u64 \<Rightarrow> RtlAllocationPolicy \<Rightarrow> nat list \<Rightarrow> u64 \<Rightarrow> nat \<Rightarrow> RtlModelConfig" where
  "rtl_config btb_size policy index_bits direction_table_size ghr_bits =
     \<lparr>rc_btb_size = btb_size, rc_policy = policy, rc_index_bits = index_bits,
      rc_direction_table_size = direction_table_size, rc_ghr_bits = ghr_bits\<rparr>"

definition fixed_configs :: "RtlModelConfig list" where
  "fixed_configs =
     [rtl_config 32 Always [] 0 0, rtl_config 32 SkipConflictingNotTaken [] 0 0,
      rtl_config 64 Always [] 0 0, rtl_config 64 SkipConflictingNotTaken [] 0 0,
      rtl_config 64 ProtectJalFromBranches [] 0 0, rtl_config 64 SecondChanceJal [] 0 0]
     @ map (\<lambda>n. rtl_config 64 SkipConflictingNotTaken [] n 0) [32, 64, 128, 256]
     @ map (\<lambda>n. rtl_config 64 SkipConflictingNotTaken [] n 10) [32, 64, 128, 256]
     @ [rtl_config 128 Always [] 0 0, rtl_config 128 SkipConflictingNotTaken [] 0 0]"

definition index_mappings :: "nat list list" where
  "index_mappings = remdups_adj (sort
     (concat (map (\<lambda>replaced. map (\<lambda>high. sort ([0, 1, 2, 3, 4][replaced := high])) [5..<15]) [0..<5])
      @ map (\<lambda>first. [first, first + 1, first + 2, first + 3, first + 4]) [1..<11]))"

definition search_configs :: "RtlModelConfig list" where
  "search_configs = concat (map (\<lambda>bits. [rtl_config 32 Always bits 0 0,
     rtl_config 32 SkipConflictingNotTaken bits 0 0]) index_mappings)"

definition rtl_configs :: "bool \<Rightarrow> RtlModelConfig list" where
  "rtl_configs rtl_index_search = fixed_configs @ (if rtl_index_search then search_configs else [])"

definition algorithm_runners :: "bool \<Rightarrow> (err, AlgoRunner list) result" where
  "algorithm_runners rtl_only =
     (if rtl_only then Inr []
      else rbind (sequence_res (map main_algorithms [16, 32, 64, 128])) (\<lambda>rs. Inr (concat rs)))"

text \<open>
  \<open>open_trace\<close> on an uncompressed file, given by its contents: the length has to be the one the header
  announces. (A compressed trace reaches \<open>btrace_pack_open_fp\<close> through a pipe from \<open>bzip2\<close>.)
\<close>

definition open_trace :: "u8 list option \<Rightarrow> btrace_pack option" where
  "open_trace file = (case file of None \<Rightarrow> None
     | Some bs \<Rightarrow> if length bs < 4 then None
       else let count = of_bytes (take 4 bs) :: u32; expected = 4 + ucast count * 12 :: u64
            in if of_nat (length bs) \<noteq> expected then None
               else btrace_pack_open_impl (Some bs) False)"

type_synonym runners = "AlgoRunner list \<times> RtlModelRunner list"

definition main_record :: "runners \<Rightarrow> btrace_record \<Rightarrow> (err, runners) result" where
  "main_record st rec = (case st of (algos, rtls) \<Rightarrow>
     rbind (sequence_res (map (\<lambda>r. rtl_process r rec) rtls)) (\<lambda>rtls.
       Inr (map (\<lambda>r. runner_process r rec) algos, rtls)))"

function main_loop :: "btrace_pack \<Rightarrow> runners \<Rightarrow> (err, runners) result" where
  "main_loop p st =
     (case btrace_pack_pick p of
        Inl e \<Rightarrow> Inl e
      | Inr (None, p') \<Rightarrow> Inr st
      | Inr (Some rec, p') \<Rightarrow> rbind (main_record st rec) (\<lambda>st. main_loop p' st))"
  by pat_completeness auto

termination main_loop
proof (relation "measure (\<lambda>(p, st). unat (bp_count p))", goal_cases)
  case 1
  show ?case by simp
next
  case (2 p st x o' p' rec y)
  then have "bp_count p \<noteq> 0" "bp_count p' = bp_count p - 1"
    using pick_count [of p rec p'] by simp_all
  then show ?case
    by (simp add: measure_unat)
qed

declare main_loop.simps [simp del]

definition branchsim_main :: "bool \<Rightarrow> bool \<Rightarrow> u8 list option \<Rightarrow> (err, runners option) result" where
  "branchsim_main rtl_only rtl_index_search file =
     rbind (algorithm_runners rtl_only) (\<lambda>algos.
     rbind (sequence_res (map RtlModelRunner_new (rtl_configs rtl_index_search))) (\<lambda>rtls.
       case open_trace file of None \<Rightarrow> Inr None
       | Some pack \<Rightarrow> rbind (main_loop pack (algos, rtls)) (\<lambda>st. Inr (Some st))))"

section \<open>Decoding agrees with the profiler\<close>

lemma bit_numeral_4096: "bit (4096 :: u32) n \<longleftrightarrow> n = 12"
proof -
  have "(4096 :: u32) = 2 ^ 12" by simp
  then show ?thesis by (simp only: bit_simps) auto
qed

lemma bit_minus_8192: "n < 32 \<Longrightarrow> bit (- 8192 :: u32) n \<longleftrightarrow> 13 \<le> n"
proof -
  have "(- 8192 :: u32) = NOT (mask 13)" by (simp add: mask_eq_exp_minus_1 not_eq_complement)
  then show "n < 32 \<Longrightarrow> ?thesis" by (simp only: bit_simps) auto
qed

text \<open>Flipping the sign bit and subtracting it is the arithmetic shift left and right again.\<close>

lemma sign_extend_13:
  assumes w: "\<And>n. bit w n \<Longrightarrow> n < 13"
  shows "sign_extend w 13 = signed_drop_bit 19 (push_bit 19 w)"
proof (cases "bit w 12")
  case False
  have "w XOR 4096 = w OR 4096"
    using False by (intro bit_word_eqI) (metis bit_xor_iff bit_or_iff bit_numeral_4096)
  also have "\<dots> = w + 4096"
    using False by (intro disjunctive_add [symmetric]) (metis bit_numeral_4096)
  finally have "sign_extend w 13 = w"
    by (simp add: sign_extend_def)
  moreover have "signed_drop_bit 19 (push_bit 19 w) = w"
  proof (rule bit_word_eqI)
    fix n assume "n < LENGTH(32)"
    then show "bit (signed_drop_bit 19 (push_bit 19 w)) n = bit w n"
      using False w [of n] by (cases "n \<le> 12") (auto simp add: bit_sext13 min_def simp del: bit_push_bit_iff)
  qed
  ultimately show ?thesis by simp
next
  case True
  have "(w XOR 4096) + 4096 = (w XOR 4096) OR 4096"
    using True by (intro disjunctive_add) (metis bit_xor_iff bit_numeral_4096)
  also have "\<dots> = w"
    using True by (intro bit_word_eqI) (metis bit_xor_iff bit_or_iff bit_numeral_4096)
  finally have "w XOR 4096 = w - 4096"
    by (simp add: algebra_simps)
  then have "sign_extend w 13 = w + (- 8192)"
    by (simp add: sign_extend_def)
  also have "\<dots> = w OR (- 8192)"
    using w by (intro disjunctive_add) (use bit_minus_8192 in force)
  also have "\<dots> = signed_drop_bit 19 (push_bit 19 w)"
  proof (rule bit_word_eqI)
    fix n assume n: "n < LENGTH(32)"
    then have "bit (w OR (- 8192)) n \<longleftrightarrow> bit w n \<or> 13 \<le> n"
      using bit_minus_8192 [of n] by (simp add: bit_or_iff)
    then show "bit (w OR (- 8192)) n = bit (signed_drop_bit 19 (push_bit 19 w)) n"
      using True n by (cases "n \<le> 12") (auto simp add: bit_sext13 min_def)
  qed
  finally show ?thesis .
qed

lemma b_imm_fields_13:
  fixes a b c d :: u32
  assumes "bit (push_bit 12 (a AND 1) OR push_bit 11 (b AND 1) OR push_bit 5 (c AND 0x3f)
      OR push_bit 1 (d AND 0xf)) n"
  shows "n < 13"
proof -
  have m: "(1 :: u32) = mask 1" "(0x3f :: u32) = mask 6" "(0xf :: u32) = mask 4"
    by (simp_all add: mask_eq_exp_minus_1)
  show ?thesis
    using assms unfolding m bit_or_iff bit_push_bit_iff bit_and_iff bit_mask_iff by linarith
qed

lemma get_b_imm_branch_imm: "get_b_imm x = branch_imm x"
proof -
  have d: "drop_bit 31 x = drop_bit 31 x AND 1"
    by (rule bit_word_eqI) (auto simp: bit_simps dest: bit_imp_le_length)
  show ?thesis
    unfolding get_b_imm_def branch_imm_def Let_def
    by (subst (2) d, rule sign_extend_13) (rule b_imm_fields_13)
qed

section \<open>Every index is inside its table\<close>

definition config_ok :: "RtlModelConfig \<Rightarrow> bool" where
  "config_ok cfg \<longleftrightarrow> has_single_bit (rc_btb_size cfg)
     \<and> (rc_index_bits cfg \<noteq> [] \<longrightarrow> 2 ^ length (rc_index_bits cfg) \<le> unat (rc_btb_size cfg))"

lemma single_bit_pos: "has_single_bit n \<Longrightarrow> 0 < n"
  by (cases "n = 0") (auto simp: has_single_bit_def word_gt_0)

lemma bit_select_bits: "bit (select_bits pc i bs) n \<Longrightarrow> i \<le> n \<and> n < i + length bs"
  by (induction bs arbitrary: i) (fastforce simp: bit_simps)+

lemma select_bits_less: "unat (select_bits pc 0 bs) < 2 ^ length bs"
proof -
  have "take_bit (length bs) (select_bits pc 0 bs) = select_bits pc 0 bs"
    by (rule bit_word_eqI) (auto simp: bit_simps dest: bit_select_bits)
  then have "take_bit (length bs) (unat (select_bits pc 0 bs)) = unat (select_bits pc 0 bs)"
    by (metis unsigned_take_bit_eq)
  then show ?thesis
    by (metis take_bit_nat_less_exp)
qed

lemma get_index_less:
  assumes "config_ok (rr_config r)"
  shows "get_index r pc < unat (rc_btb_size (rr_config r))"
proof (cases "rc_index_bits (rr_config r) = []")
  case True
  let ?n = "rc_btb_size (rr_config r)"
  have "0 < ?n"
    using assms single_bit_pos by (simp add: config_ok_def)
  then have "?n - 1 < ?n"
    by (metis le_less_trans measure_unat not_le unat_0 word_gt_0 word_less_nat_alt)
  moreover have "ucast (drop_bit 2 pc) AND (?n - 1) \<le> ?n - 1"
    by (rule word_and_le1)
  ultimately have "ucast (drop_bit 2 pc) AND (?n - 1) < ?n"
    by order
  then show ?thesis
    using True by (simp add: get_index_def word_less_nat_alt)
next
  case False
  let ?bs = "rc_index_bits (rr_config r)"
  have le: "2 ^ length ?bs \<le> unat (rc_btb_size (rr_config r))"
    using assms False by (simp add: config_ok_def)
  then show ?thesis
    using select_bits_less [of pc ?bs] le False by (simp add: get_index_def)
qed

section \<open>The counters of a replay\<close>

text \<open>
  A model of the simulator: its state for a configuration \<open>c\<close> after \<open>n\<close> records, and a step that a good
  record never stops. A list of such models is stepped in lockstep by the loop of \<open>main\<close>.
\<close>

locale trace_model =
  fixes process :: "'r \<Rightarrow> btrace_record \<Rightarrow> (err, 'r) result"
    and good :: "btrace_record \<Rightarrow> bool"
    and ok :: "'c \<Rightarrow> nat \<Rightarrow> 'r \<Rightarrow> bool"
  assumes step: "n < 2 ^ 32 \<Longrightarrow> ok c n r \<Longrightarrow> good rec \<Longrightarrow> \<exists>r'. process r rec = Inr r' \<and> ok c (Suc n) r'"
begin

lemma steps:
  assumes "n < 2 ^ 32" "list_all2 (\<lambda>c. ok c n) cs rs" "good rec"
  shows "\<exists>rs'. sequence_res (map (\<lambda>r. process r rec) rs) = Inr rs' \<and> list_all2 (\<lambda>c. ok c (Suc n)) cs rs'"
  using assms(2)
proof (induction rule: list_all2_induct)
  case Nil
  then show ?case by simp
next
  case (Cons c cs r rs)
  then show ?case
    using step [OF assms(1) _ assms(3), of c r] by auto
qed

end

definition control_record :: "btrace_record \<Rightarrow> bool" where
  "control_record rec \<longleftrightarrow> is_conditional_branch (bt_code rec) \<or> is_jal (bt_code rec) \<or> is_jalr (bt_code rec)"

definition all_kinds :: "(ControlKind \<Rightarrow> u64) \<Rightarrow> u64" where
  "all_kinds f = f Branch + f Jal + f Ret + f Jalr"

definition stats_ok :: "RtlModelStats \<Rightarrow> bool" where
  "stats_ok st \<longleftrightarrow> s_total st = all_kinds (s_total_by_kind st)
     \<and> s_wrong st = all_kinds (s_wrong_by_kind st)
     \<and> s_wrong st = s_direction_wrong st + s_target_wrong st
     \<and> s_no_prediction st = 0"

definition rtl_ok :: "RtlModelConfig \<Rightarrow> nat \<Rightarrow> RtlModelRunner \<Rightarrow> bool" where
  "rtl_ok cfg n r \<longleftrightarrow> rr_config r = cfg \<and> config_ok cfg \<and> stats_ok (rr_stats r)
     \<and> unat (s_total (rr_stats r)) = n \<and> unat (s_wrong (rr_stats r)) \<le> n"

definition runner_ok :: "u64 \<Rightarrow> nat \<Rightarrow> AlgoRunner \<Rightarrow> bool" where
  "runner_ok c n r \<longleftrightarrow> b_size (r_btb r) = c \<and> unat (r_total r) = n \<and> unat (r_wrong r) \<le> n"

lemma all_kinds_upd: "all_kinds (f(k := f k + 1)) = all_kinds f + 1"
  by (cases k) (simp_all add: all_kinds_def)

lemma stats_ok_count:
  assumes "stats_ok st" "wrong \<Longrightarrow> p \<or> t"
  shows "stats_ok (rtl_count st k wrong p t)"
  using assms by (auto simp: rtl_count_def Let_def stats_ok_def all_kinds_upd)

lemma stats_ok_skipped [simp]: "stats_ok (st\<lparr>s_skipped := n\<rparr>) = stats_ok st"
  by (simp add: stats_ok_def)

lemma stats_same_skipped [simp]: "\<exists>s. st = st\<lparr>s_skipped := s\<rparr>" for st :: RtlModelStats
  by (rule exI [of _ "s_skipped st"]) simp

lemma rtl_count_totals:
  "s_total (rtl_count st k w p t) = s_total st + 1"
  "s_wrong (rtl_count st k w p t) = s_wrong st + (if w then 1 else 0)"
  by (simp_all add: rtl_count_def Let_def)

lemma unat_suc: "unat (w :: u64) < 2 ^ 32 \<Longrightarrow> unat (w + 1) = Suc (unat w)"
  by (simp add: unat_word_ariths)

lemma rtl_train_frame [simp]:
  "rr_config (rtl_train r pc b t) = rr_config r" "rr_stats (rtl_train r pc b t) = rr_stats r"
  "rr_entries (rtl_train r pc b t) = rr_entries r"
  by (simp_all add: rtl_train_def Let_def)

lemma control_kind_cases:
  "control_record rec \<Longrightarrow> \<exists>k. get_control_kind (bt_code rec) = Inr k
     \<and> (k = Branch \<longrightarrow> is_conditional_branch (bt_code rec))"
  by (auto simp: control_record_def get_control_kind_def)

lemma rtl_allocate_ok:
  assumes "k = Branch \<longrightarrow> is_conditional_branch (bt_code rec)"
  shows "\<exists>r' s. rtl_allocate r rec k i t = Inr r' \<and> rr_config r' = rr_config r
    \<and> rr_stats r' = (rr_stats r)\<lparr>s_skipped := s\<rparr>"
proof -
  have d: "(k = Branch \<and> \<not> d_direct_target_valid (decode_branch (bt_pc rec) (bt_code rec))) = False"
    using assms by (auto simp: decode_branch_def)
  obtain sk g where sk: "rtl_skip (rc_policy (rr_config r)) (rr_entries r i)
      (re_valid (rr_entries r i) \<and> re_pc (rr_entries r i) = bt_pc rec) (k = Branch) t = (sk, g)"
    by fastforce
  show ?thesis
    unfolding rtl_allocate_def Let_def d if_False sk prod.case
    by (cases sk; cases g; auto)
qed

lemma rtl_process_ok:
  assumes "config_ok (rr_config r)" "control_record rec"
  shows "\<exists>r' k w p t s. rtl_process r rec = Inr r' \<and> rr_config r' = rr_config r \<and> (w \<longrightarrow> p \<or> t)
    \<and> rr_stats r' = (rtl_count (rr_stats r) k w p t)\<lparr>s_skipped := s\<rparr>"
proof -
  obtain k where k: "get_control_kind (bt_code rec) = Inr k"
    and b: "k = Branch \<longrightarrow> is_conditional_branch (bt_code rec)"
    using control_kind_cases [OF assms(2)] by blast
  let ?i = "get_index r (bt_pc rec)"
  let ?p = "rtl_predict r (bt_pc rec) (rr_entries r ?i)"
  let ?t = "k \<noteq> Branch \<or> bt_nxt_pc rec \<noteq> bt_pc rec + 4"
  let ?w = "(if ?p then re_target (rr_entries r ?i) else bt_pc rec + 4) \<noteq> bt_nxt_pc rec"
  let ?r = "rtl_train (r\<lparr>rr_stats := rtl_count (rr_stats r) k ?w ?p ?t\<rparr>) (bt_pc rec) (k = Branch) ?t"
  have e: "rtl_process r rec = rtl_allocate ?r rec k ?i ?t"
    using get_index_less [OF assms(1), of "bt_pc rec"]
    unfolding rtl_process_def k rbind.simps Let_def by (simp only: not_le [symmetric] if_False)
  have c: "rr_config ?r = rr_config r" "rr_stats ?r = rtl_count (rr_stats r) k ?w ?p ?t"
    unfolding rtl_train_frame by simp_all
  obtain r' s where r': "rtl_allocate ?r rec k ?i ?t = Inr r'" "rr_config r' = rr_config ?r"
      "rr_stats r' = (rr_stats ?r)\<lparr>s_skipped := s\<rparr>"
    using rtl_allocate_ok [OF b, of ?r ?i ?t] by blast
  have w: "?w \<longrightarrow> ?p \<or> ?t"
    by auto
  show ?thesis
    by (intro exI conjI, rule trans [OF e r'(1)], rule trans [OF r'(2) c(1)], rule w, rule r'(3) [unfolded c])
qed

interpretation rtl_model: trace_model rtl_process control_record rtl_ok
proof unfold_locales
  fix n c r rec
  assume n: "n < 2 ^ 32" and ok: "rtl_ok c n r" and rec: "control_record rec"
  have cfg: "config_ok (rr_config r)"
    using ok by (simp add: rtl_ok_def)
  obtain r' k w p t s where p: "rtl_process r rec = Inr r'" "rr_config r' = rr_config r" "w \<longrightarrow> p \<or> t"
      "rr_stats r' = (rtl_count (rr_stats r) k w p t)\<lparr>s_skipped := s\<rparr>"
    using rtl_process_ok [OF cfg rec] by blast
  have "stats_ok (rtl_count (rr_stats r) k w p t)"
    using ok p(3) by (intro stats_ok_count) (auto simp: rtl_ok_def)
  then have "rtl_ok c (Suc n) r'"
    using ok p n by (auto simp: rtl_ok_def rtl_count_totals unat_suc)
  then show "\<exists>r'. rtl_process r rec = Inr r' \<and> rtl_ok c (Suc n) r'"
    using p(1) by blast
qed

interpretation algo_model: trace_model "\<lambda>r rec. Inr (runner_process r rec)" "\<lambda>_. True" runner_ok
proof unfold_locales
  fix n c r rec
  assume "n < 2 ^ 32" and "runner_ok c n r"
  then have "runner_ok c (Suc n) (runner_process r rec)"
    by (auto simp: runner_ok_def runner_process_def Let_def default_update_def BTB_update_def unat_suc)
  then show "\<exists>r'. Inr (runner_process r rec) = Inr r' \<and> runner_ok c (Suc n) r'"
    by blast
qed

lemma main_record_ok:
  assumes "n < 2 ^ 32" "list_all2 (\<lambda>c. runner_ok c n) as algos" "list_all2 (\<lambda>c. rtl_ok c n) cs rtls"
    "control_record rec"
  shows "\<exists>algos' rtls'. main_record (algos, rtls) rec = Inr (algos', rtls')
    \<and> list_all2 (\<lambda>c. runner_ok c (Suc n)) as algos' \<and> list_all2 (\<lambda>c. rtl_ok c (Suc n)) cs rtls'"
proof -
  have "sequence_res (map (\<lambda>r. Inr (runner_process r rec)) rs) = Inr (map (\<lambda>r. runner_process r rec) rs)" for rs
    by (induction rs) simp_all
  then have "list_all2 (\<lambda>c. runner_ok c (Suc n)) as (map (\<lambda>r. runner_process r rec) algos)"
    using algo_model.steps [OF assms(1,2) TrueI, of rec] by simp
  moreover obtain rtls' where "sequence_res (map (\<lambda>r. rtl_process r rec) rtls) = Inr rtls'"
    "list_all2 (\<lambda>c. rtl_ok c (Suc n)) cs rtls'"
    using rtl_model.steps [OF assms(1,3,4)] by blast
  ultimately show ?thesis
    by (simp add: main_record_def)
qed

lemma main_loop_ok:
  assumes "btrace_pack_picks p = Inr recs" "n + length recs \<le> 2 ^ 32" "list_all control_record recs"
    "list_all2 (\<lambda>c. runner_ok c n) as algos" "list_all2 (\<lambda>c. rtl_ok c n) cs rtls"
  shows "\<exists>algos' rtls'. main_loop p (algos, rtls) = Inr (algos', rtls')
    \<and> list_all2 (\<lambda>c. runner_ok c (n + length recs)) as algos'
    \<and> list_all2 (\<lambda>c. rtl_ok c (n + length recs)) cs rtls'"
  using assms
proof (induction recs arbitrary: p n algos rtls)
  case Nil
  then have "\<exists>p'. btrace_pack_pick p = Inr (None, p')"
    by (subst (asm) btrace_pack_picks.simps) (auto simp: rbind_Inr_iff split: sum.splits prod.splits option.splits)
  then show ?case
    using Nil.prems by (subst main_loop.simps) auto
next
  case (Cons rec recs)
  obtain p' where p': "btrace_pack_pick p = Inr (Some rec, p')" "btrace_pack_picks p' = Inr recs"
    using Cons.prems(1)
    by (subst (asm) btrace_pack_picks.simps) (auto simp: rbind_Inr_iff split: sum.splits prod.splits option.splits)
  obtain algos' rtls' where r: "main_record (algos, rtls) rec = Inr (algos', rtls')"
    "list_all2 (\<lambda>c. runner_ok c (Suc n)) as algos'" "list_all2 (\<lambda>c. rtl_ok c (Suc n)) cs rtls'"
    using main_record_ok [of n as algos cs rtls rec] Cons.prems by auto
  have "main_loop p (algos, rtls) = main_loop p' (algos', rtls')"
    by (subst main_loop.simps) (simp add: p' r)
  then show ?case
    using Cons.IH [OF p'(2) _ _ r(2,3)] Cons.prems by simp
qed

lemma single_bit_sizes [simp]:
  "has_single_bit 16" "has_single_bit 32" "has_single_bit 64" "has_single_bit 128"
  using has_single_bit_pow2 [of 4] has_single_bit_pow2 [of 5] has_single_bit_pow2 [of 6]
    has_single_bit_pow2 [of 7] by simp_all

lemma main_algorithms_ok:
  "has_single_bit n \<Longrightarrow> \<exists>rs. main_algorithms n = Inr rs \<and> list_all2 (\<lambda>c. runner_ok c 0) [n, n, n, n, n, n, n] rs"
  by (simp add: main_algorithms_def make_two_bit_algo_def make_gshare_algo_def make_local_algo_def
      make_tournament_algo_def gshare_new_def local_new_def CounterTable_new_def AlgoRunner_new_def BTB_new_def
      runner_ok_def)

lemma algorithm_runners_ok:
  "\<exists>rs. algorithm_runners rtl_only = Inr rs
     \<and> list_all2 (\<lambda>c. runner_ok c 0) (if rtl_only then [] else concat (map (\<lambda>n. [n, n, n, n, n, n, n]) [16, 32, 64, 128])) rs"
  using main_algorithms_ok [of 16] main_algorithms_ok [of 32] main_algorithms_ok [of 64]
    main_algorithms_ok [of 128]
  by (cases rtl_only) (auto simp: algorithm_runners_def list_all2_Cons1)

lemma replaced_length:
  "bits \<in> set (concat (map (\<lambda>i. map (\<lambda>h. sort (xs[i := h])) hs) is)) \<Longrightarrow> length bits = length xs"
  by auto

lemma index_mappings_length: "bits \<in> set index_mappings \<Longrightarrow> length bits = 5"
  unfolding index_mappings_def remdups_adj_set set_sort set_append
  by (elim UnE) (drule replaced_length, simp, auto)

lemma rtl_configs_ok: "cfg \<in> set (rtl_configs s) \<Longrightarrow> config_ok cfg"
  using index_mappings_length
  by (auto simp: rtl_configs_def fixed_configs_def search_configs_def config_ok_def rtl_config_def
      split: if_splits)

lemma new_rtl_ok: "list_all config_ok cs \<Longrightarrow>
  \<exists>rs. sequence_res (map RtlModelRunner_new cs) = Inr rs \<and> list_all2 (\<lambda>c. rtl_ok c 0) cs rs"
  by (induction cs) (auto simp: RtlModelRunner_new_def config_ok_def rtl_ok_def stats_ok_def zero_stats_def
      all_kinds_def)

text \<open>A trace that was written by the packer has the length its header announces.\<close>

lemma length_concat_put: "length (concat (map put_btrace recs)) = 12 * length recs"
  by (induction recs) (simp_all add: put_btrace_def)

lemma open_written_trace:
  assumes "length recs < 2 ^ 32"
  shows "\<exists>p. open_trace (Some (btrace_pack_close (foldl btrace_pack_add btrace_pack_create recs))) = Some p
    \<and> btrace_pack_picks p = Inr recs"
proof -
  let ?bs = "btrace_pack_close (foldl btrace_pack_add btrace_pack_create recs)"
  have bs: "?bs = bytes_of 4 (of_nat (length recs) :: u32) @ concat (map put_btrace recs)"
    by (simp add: btrace_pack_close_def adds_btrace btrace_pack_create_def)
  have "(ucast (of_nat (length recs) :: u32) :: u64) = of_nat (length recs)"
    using assms by (simp add: unsigned_of_nat take_bit_nat_eq_self)
  then have "open_trace (Some ?bs) = btrace_pack_open_fp (Some ?bs) 0"
    unfolding bs by (simp add: open_trace_def btrace_pack_open_fp_def length_concat_put Let_def)
  then show ?thesis
    using read_written_btrace [OF assms, of 0] by simp
qed

lemma branchsim_runs:
  assumes "list_all control_record recs" "length recs < 2 ^ 32"
  obtains p algos rtls as algos' rtls' where "btrace_pack_picks p = Inr recs"
    "sequence_res (map RtlModelRunner_new (rtl_configs rtl_index_search)) = Inr rtls"
    "main_loop p (algos, rtls) = Inr (algos', rtls')"
    "branchsim_main rtl_only rtl_index_search
      (Some (btrace_pack_close (foldl btrace_pack_add btrace_pack_create recs))) = Inr (Some (algos', rtls'))"
    "list_all2 (\<lambda>c. runner_ok c (length recs)) as algos'"
    "list_all2 (\<lambda>c. rtl_ok c (length recs)) (rtl_configs rtl_index_search) rtls'"
proof -
  obtain p where p: "open_trace (Some (btrace_pack_close (foldl btrace_pack_add btrace_pack_create recs))) = Some p"
    "btrace_pack_picks p = Inr recs"
    using open_written_trace [OF assms(2)] by blast
  obtain as algos where a: "algorithm_runners rtl_only = Inr algos" "list_all2 (\<lambda>c. runner_ok c 0) as algos"
    using algorithm_runners_ok by blast
  have "list_all config_ok (rtl_configs rtl_index_search)"
    using rtl_configs_ok by (auto simp: list_all_iff)
  then obtain rtls where r: "sequence_res (map RtlModelRunner_new (rtl_configs rtl_index_search)) = Inr rtls"
    "list_all2 (\<lambda>c. rtl_ok c 0) (rtl_configs rtl_index_search) rtls"
    using new_rtl_ok by blast
  obtain algos' rtls' where l: "main_loop p (algos, rtls) = Inr (algos', rtls')"
    "list_all2 (\<lambda>c. runner_ok c (length recs)) as algos'"
    "list_all2 (\<lambda>c. rtl_ok c (length recs)) (rtl_configs rtl_index_search) rtls'"
    using main_loop_ok [OF p(2) _ assms(1) a(2) r(2)] assms(2) by auto
  show thesis
    using p a r l by (intro that [OF p(2) r(1) l(1) _ l(2,3)]) (simp add: branchsim_main_def)
qed

text \<open>
  C16. The branch simulator never stops on a trace of control transfers: with every option, on a packed
  trace of fewer than 2^32 conditional branches, jumps and indirect jumps, no assertion fails and
  every table access of every RTL model is inside its table. Every model has then counted
  every record; the counters of the RTL models add up over the kinds, and a misprediction is counted either
  as a wrong direction or as a wrong target. The counter \<open>no_prediction\<close> is always 0.
\<close>

theorem branchsim_adds_up:
  assumes "list_all control_record recs" "length recs < 2 ^ 32"
  shows "\<exists>algos rtls. branchsim_main rtl_only rtl_index_search
      (Some (btrace_pack_close (foldl btrace_pack_add btrace_pack_create recs))) = Inr (Some (algos, rtls))
    \<and> list_all (\<lambda>a. unat (r_total a) = length recs \<and> r_wrong a \<le> r_total a) algos
    \<and> map rr_config rtls = rtl_configs rtl_index_search
    \<and> list_all (\<lambda>r. let st = rr_stats r in
        unat (s_total st) = length recs \<and> s_wrong st \<le> s_total st
        \<and> s_total st = all_kinds (s_total_by_kind st) \<and> s_wrong st = all_kinds (s_wrong_by_kind st)
        \<and> s_wrong st = s_direction_wrong st + s_target_wrong st \<and> s_no_prediction st = 0) rtls"
proof -
  obtain p algos0 rtls0 as algos rtls where m: "branchsim_main rtl_only rtl_index_search
      (Some (btrace_pack_close (foldl btrace_pack_add btrace_pack_create recs))) = Inr (Some (algos, rtls))"
    and a: "list_all2 (\<lambda>c. runner_ok c (length recs)) as algos"
    and r: "list_all2 (\<lambda>c. rtl_ok c (length recs)) (rtl_configs rtl_index_search) rtls"
    using branchsim_runs [OF assms] by metis
  have "list_all (\<lambda>a. unat (r_total a) = length recs \<and> r_wrong a \<le> r_total a) algos"
    using a by (auto simp: list_all_length list_all2_conv_all_nth runner_ok_def word_le_nat_alt)
  moreover have "map rr_config rtls = rtl_configs rtl_index_search"
    using r by (auto simp: list_all2_conv_all_nth rtl_ok_def intro: nth_equalityI)
  moreover have "list_all (\<lambda>r. rtl_ok (rr_config r) (length recs) r) rtls"
    using r by (auto simp: list_all_length list_all2_conv_all_nth rtl_ok_def)
  ultimately show ?thesis
    using m by (auto simp: list_all_iff rtl_ok_def stats_ok_def word_le_nat_alt Let_def)
qed

theorem branchsim_adds_up_witness:
  "\<exists>algos rtls. branchsim_main False True
      (Some (btrace_pack_close (foldl btrace_pack_add btrace_pack_create
         [\<lparr>bt_pc = 0x80000000, bt_code = 0xfe0008e3, bt_nxt_pc = 0x7ffffff0\<rparr>]))) = Inr (Some (algos, rtls))
    \<and> list_all (\<lambda>a. unat (r_total a) = 1) algos \<and> list_all (\<lambda>r. s_no_prediction (rr_stats r) = 0) rtls"
proof -
  have "list_all control_record [\<lparr>bt_pc = 0x80000000, bt_code = 0xfe0008e3, bt_nxt_pc = 0x7ffffff0\<rparr>]"
    by (simp add: control_record_def is_conditional_branch_def)
  from branchsim_adds_up [OF this, of False True] show ?thesis
    by (auto simp: list_all_iff Let_def)
qed

end
