(* ===== verification/Rtl_Profile.thy ===== *)
theory Rtl_Profile
  imports Rtl_Btb Profile
begin

text \<open>
  Two models of one circuit. The profiler of NEMU (\<open>model_rtl_btb32\<close> in \<open>nemu/src/isa/riscv32/profile.c\<close>) and
  the branch simulator (\<open>RtlModelRunner\<close> in \<open>branchsim/src/main.cc\<close>) each model the 32-entry branch target
  buffer of the RTL, the one while the guest runs and the other from the recorded trace. They are
  shown to count the same mispredictions.
\<close>

section \<open>One entry, one table\<close>

definition ent_rel :: "BtbEnt \<Rightarrow> RtlBTBEntry \<Rightarrow> bool" where
  "ent_rel b e \<longleftrightarrow> be_valid b = re_valid e \<and> (re_valid e \<longrightarrow> be_tag b = re_pc e \<and> be_target b = re_target e
     \<and> be_counter b = re_counter e \<and> (be_type b = K_JAL) = re_is_jal e \<and> (be_type b = K_BRANCH) = re_is_branch e)"

definition btb_policy :: "bool \<Rightarrow> RtlAllocationPolicy" where
  "btb_policy skip = (if skip then SkipConflictingNotTaken else Always)"

definition btb_rel :: "bool \<Rightarrow> btb \<Rightarrow> RtlModelRunner \<Rightarrow> bool" where
  "btb_rel skip b r \<longleftrightarrow> rr_config r = rtl_config 32 (btb_policy skip) [] 0 0
     \<and> (\<forall>i. ent_rel (b i) (rr_entries r i))"

definition is_control :: "u32 \<Rightarrow> bool" where
  "is_control x \<longleftrightarrow> kind_of x = K_BRANCH \<or> kind_of x = K_JAL \<or> kind_of x = K_JALR"

lemma kind_of_control:
  "kind_of x = K_BRANCH \<longleftrightarrow> is_conditional_branch x"
  "kind_of x = K_JAL \<longleftrightarrow> is_jal x"
  "kind_of x = K_JALR \<longleftrightarrow> is_jalr x"
  by (auto simp: kind_of_def Let_def f_op_def is_conditional_branch_def is_jal_def is_jalr_def)

lemma get_index_32:
  assumes "rr_config r = rtl_config 32 p [] 0 0"
  shows "get_index r pc = unat (drop_bit 2 pc AND 31)"
proof -
  have "(ucast (drop_bit 2 pc) AND 31 :: u64) = ucast (drop_bit 2 pc AND 31)"
    by (simp add: unsigned_and_eq)
  moreover have "unat (ucast w :: u64) = unat w" for w :: u32
  proof -
    have "unat w < 2 ^ LENGTH(32)"
      by (rule unsigned_less)
    then show ?thesis
      by (simp add: unsigned_ucast_eq take_bit_nat_eq_self)
  qed
  ultimately show ?thesis
    using assms by (simp add: get_index_def rtl_config_def)
qed

lemma rtl_train_id [simp]: "rc_direction_table_size (rr_config r) = 0 \<Longrightarrow> rtl_train r pc b t = r"
  by (simp add: rtl_train_def)

lemma rtl_predict_rel:
  "ent_rel b e \<Longrightarrow> rc_direction_table_size (rr_config r) = 0 \<Longrightarrow> rtl_predict r pc e \<longleftrightarrow>
     be_valid b \<and> be_tag b = pc \<and> (be_type b = K_JAL \<or> be_type b = K_BRANCH \<and> be_counter b \<ge> 2)"
  by (auto simp: ent_rel_def rtl_predict_def Let_def)

lemma rtl_skip_rel:
  "rtl_skip (btb_policy skip) e hit br t = (skip \<and> br \<and> \<not> t \<and> \<not> (hit \<and> re_is_branch e \<and> br), False)"
  by (auto simp: rtl_skip_def btb_policy_def Let_def)

text \<open>The entry both models write for a control transfer, and whether they write it.\<close>

definition rtl_new :: "BtbEnt \<Rightarrow> u32 \<Rightarrow> u32 \<Rightarrow> u32 \<Rightarrow> BtbEnt" where
  "rtl_new e pc dnpc x = snd (model_rtl_btb32 (\<lambda>_. e) pc dnpc x (kind_of x) (dnpc \<noteq> pc + 4) False)
     (unat (drop_bit 2 pc AND 31))"

definition rtl_skips :: "bool \<Rightarrow> BtbEnt \<Rightarrow> u32 \<Rightarrow> u32 \<Rightarrow> u32 \<Rightarrow> bool" where
  "rtl_skips skip e pc dnpc x \<longleftrightarrow> skip \<and> kind_of x = K_BRANCH \<and> dnpc = pc + 4
     \<and> \<not> (be_valid e \<and> be_tag e = pc \<and> be_type e = K_BRANCH)"

lemma model_rtl_btb32_split:
  fixes b pc
  defines "i \<equiv> unat (drop_bit 2 pc AND 31)"
  shows "snd (model_rtl_btb32 b pc dnpc x (kind_of x) (dnpc \<noteq> pc + 4) skip)
    = (if rtl_skips skip (b i) pc dnpc x then b else b(i := rtl_new (b i) pc dnpc x))"
proof -
  have c: "(skip \<and> kind_of x = K_BRANCH \<and> \<not> dnpc \<noteq> pc + 4 \<and> \<not> ((be_valid (b i) \<and> be_tag (b i) = pc)
      \<and> be_type (b i) = K_BRANCH \<and> kind_of x = K_BRANCH)) = rtl_skips skip (b i) pc dnpc x"
    by (auto simp: rtl_skips_def)
  show ?thesis
    unfolding model_rtl_btb32_def rtl_new_def Let_def i_def [symmetric] c
    by (cases "rtl_skips skip (b i) pc dnpc x") (simp_all only: if_True if_False snd_conv simp_thms fun_upd_same)
qed

definition rtl_kind :: "u32 \<Rightarrow> ControlKind" where
  "rtl_kind x = (if kind_of x = K_BRANCH then Branch else if kind_of x = K_JAL then Jal
     else if x = 0x8067 then Ret else Jalr)"

lemma get_control_kind_rel: "is_control x \<Longrightarrow> get_control_kind x = Inr (rtl_kind x)"
  by (auto simp: is_control_def kind_of_control get_control_kind_def rtl_kind_def is_exact_ret_def)

lemma rtl_kind_simps:
  "rtl_kind x = Branch \<longleftrightarrow> kind_of x = K_BRANCH"
  "is_control x \<Longrightarrow> rtl_kind x = Jal \<or> rtl_kind x = Ret \<longleftrightarrow> kind_of x = K_JAL \<or> x = 0x8067"
  by (auto simp: rtl_kind_def kind_of_def Let_def f_op_def)

lemma rtl_new_rel:
  assumes rel: "ent_rel b e" and x: "is_control x"
  shows "ent_rel (rtl_new b pc dnpc x)
    \<lparr>re_pc = pc, re_target = (if rtl_kind x = Branch then pc + get_b_imm x else dnpc),
     re_counter = rtl_next_direction e (rtl_kind x = Branch)
       ((re_valid e \<and> re_pc e = pc) \<and> re_is_branch e \<and> rtl_kind x = Branch) (rtl_kind x \<noteq> Branch \<or> dnpc \<noteq> pc + 4),
     re_valid = True, re_is_jal = rtl_kind x = Jal \<or> rtl_kind x = Ret, re_is_branch = rtl_kind x = Branch,
     re_jal_protected = p\<rparr>"
proof -
  have ret: "x = 0x8067 \<Longrightarrow> kind_of x \<noteq> K_BRANCH"
    by (simp add: kind_of_control is_conditional_branch_def)
  show ?thesis
    using rel ret unfolding rtl_new_def model_rtl_btb32_def ent_rel_def Let_def rtl_kind_simps(1)
      rtl_kind_simps(2) [OF x] rtl_next_direction_def get_b_imm_branch_imm
    by (cases "kind_of x = K_BRANCH") auto
qed

lemma rtl_allocate_rel:
  fixes pc dnpc :: u32
  assumes rel: "btb_rel skip b r" and x: "is_control x"
  defines "rec \<equiv> \<lparr>bt_pc = pc, bt_code = x, bt_nxt_pc = dnpc\<rparr>" and "i \<equiv> unat (drop_bit 2 pc AND 31)"
  shows "\<exists>r'. rtl_allocate r rec (rtl_kind x) i (rtl_kind x \<noteq> Branch \<or> dnpc \<noteq> pc + 4) = Inr r'
    \<and> btb_rel skip (if rtl_skips skip (b i) pc dnpc x then b else b(i := rtl_new (b i) pc dnpc x)) r'
    \<and> s_wrong (rr_stats r') = s_wrong (rr_stats r)"
proof -
  let ?e = "rr_entries r i"
  have e: "ent_rel (b i) ?e" and cfg: "rr_config r = rtl_config 32 (btb_policy skip) [] 0 0"
    and all: "ent_rel (b j) (rr_entries r j)" for j
    using rel by (simp_all add: btb_rel_def)
  have pol: "rc_policy (rr_config r) = btb_policy skip"
    by (simp add: cfg rtl_config_def)
  have sk: "(skip \<and> rtl_kind x = Branch \<and> \<not> (rtl_kind x \<noteq> Branch \<or> dnpc \<noteq> pc + 4)
      \<and> \<not> ((re_valid ?e \<and> re_pc ?e = pc) \<and> re_is_branch ?e \<and> rtl_kind x = Branch))
    = rtl_skips skip (b i) pc dnpc x"
    using e by (auto simp: rtl_skips_def ent_rel_def rtl_kind_simps)
  have d: "(rtl_kind x = Branch \<and> \<not> d_direct_target_valid (decode_branch pc x)) = False"
    "(if rtl_kind x = Branch then d_direct_target (decode_branch pc x) else dnpc)
      = (if rtl_kind x = Branch then pc + get_b_imm x else dnpc)"
    by (auto simp: decode_branch_def rtl_kind_simps kind_of_control)
  show ?thesis
  proof (cases "rtl_skips skip (b i) pc dnpc x")
    case True
    then show ?thesis
      unfolding rtl_allocate_def Let_def rec_def btrace_record.simps pol rtl_skip_rel sk
      using all by (simp add: btb_rel_def cfg)
  next
    case False
    then show ?thesis
      unfolding rtl_allocate_def Let_def rec_def btrace_record.simps pol rtl_skip_rel sk prod.case d
      using all rtl_new_rel [OF e x, of pc dnpc "rtl_kind x = Jal \<or> rtl_kind x = Ret"]
      by (simp only: if_False, cases "rtl_kind x = Branch") (simp_all add: btb_rel_def cfg)
  qed
qed

lemma rtl_step_rel:
  assumes rel: "btb_rel skip b r" and x: "is_control x"
    and m: "model_rtl_btb32 b pc dnpc x (kind_of x) (dnpc \<noteq> pc + 4) skip = (w, b')"
  shows "\<exists>r'. rtl_process r \<lparr>bt_pc = pc, bt_code = x, bt_nxt_pc = dnpc\<rparr> = Inr r' \<and> btb_rel skip b' r'
    \<and> s_wrong (rr_stats r') = s_wrong (rr_stats r) + of_b w"
proof -
  let ?i = "unat (drop_bit 2 pc AND 31)"
  let ?e = "rr_entries r ?i"
  let ?t = "rtl_kind x \<noteq> Branch \<or> dnpc \<noteq> pc + 4"
  have e: "ent_rel (b ?i) ?e" and cfg: "rr_config r = rtl_config 32 (btb_policy skip) [] 0 0"
    using rel by (simp_all add: btb_rel_def)
  have dts: "rc_direction_table_size (rr_config r) = 0"
    by (simp add: cfg rtl_config_def)
  have w: "w \<longleftrightarrow> (if rtl_predict r pc ?e then re_target ?e else pc + 4) \<noteq> dnpc"
    using m e unfolding rtl_predict_rel [OF e dts]
    by (auto simp: model_rtl_btb32_def Let_def ent_rel_def split: if_splits)
  let ?r = "r\<lparr>rr_stats := rtl_count (rr_stats r) (rtl_kind x) w (rtl_predict r pc ?e) ?t\<rparr>"
  have "config_ok (rr_config r)"
    by (simp add: cfg rtl_config_def config_ok_def)
  note i = get_index_less [OF this, of pc, unfolded get_index_32 [OF cfg]]
  have p: "rtl_process r \<lparr>bt_pc = pc, bt_code = x, bt_nxt_pc = dnpc\<rparr>
      = rtl_allocate ?r \<lparr>bt_pc = pc, bt_code = x, bt_nxt_pc = dnpc\<rparr> (rtl_kind x) ?i ?t"
    unfolding rtl_process_def btrace_record.simps get_control_kind_rel [OF x] rbind.simps Let_def
      get_index_32 [OF cfg] w [symmetric]
    using i dts by (simp add: not_le [symmetric])
  have "btb_rel skip b ?r"
    using rel by (simp add: btb_rel_def)
  from rtl_allocate_rel [OF this x, of pc dnpc] show ?thesis
    unfolding p using m model_rtl_btb32_split [of b pc dnpc x skip]
    by (auto simp: rtl_count_totals of_b_def)
qed

section \<open>A profiling run\<close>

lemma phase_btbs [simp]: "btbs (upd_phase i f s) = btbs s"
  by (simp add: upd_phase_def)

lemma btb_stages:
  "btbs (prof_miss_deps s x rd rs1 rs2 use1 use2) = btbs s"
  "btbs (prof_masked s x k rs1 rs2 use1 use2) = btbs s"
  "btbs (record_immediate_load_raw s pc x k rs1 rs2 use1 use2 ph) = btbs s"
  "btbs (prof_pcs s pc) = btbs s"
  "btbs (prof_raw1 seq k ph use r s) = btbs s"
  "btbs (prof_mem s pc x k rd r1 ph) = btbs s"
  "btbs (prof_writes s op k rd seq) = btbs s"
  by (simp_all add: prof_miss_deps_def prof_masked_def record_immediate_load_raw_def prof_pcs_def
      prof_raw1_def prof_mem_def prof_writes_def Let_def split: prod.split option.split)

lemma branch_stages:
  "branches (prof_miss_deps s x rd rs1 rs2 use1 use2) = branches s"
  "branches (prof_masked s x k rs1 rs2 use1 use2) = branches s"
  "branches (record_immediate_load_raw s pc x k rs1 rs2 use1 use2 ph) = branches s"
  "branches (prof_pcs s pc) = branches s"
  "branches (prof_raw1 seq k ph use r s) = branches s"
  "branches (prof_mem s pc x k rd r1 ph) = branches s"
  "branches (prof_writes s op k rd seq) = branches s"
  by (simp_all add: prof_miss_deps_def prof_masked_def record_immediate_load_raw_def prof_pcs_def
      prof_raw1_def prof_mem_def prof_writes_def Let_def split: prod.split option.split)

text \<open>The part of the profiler's state that the RTL models live in.\<close>

definition rtl_view :: "prof \<Rightarrow> (btb \<times> u64) \<times> btb \<times> u64" where
  "rtl_view s = ((rtl_btb32 (btbs s), rtl_btb32_miss (branches s)),
     rtl_btb32_skip_not_taken (btbs s), rtl_btb32_skip_not_taken_miss (branches s))"

definition rtl_view_step :: "bool \<Rightarrow> u32 \<Rightarrow> u32 \<Rightarrow> u32 \<Rightarrow> btb \<times> u64 \<Rightarrow> btb \<times> u64" where
  "rtl_view_step skip pc dnpc x bm = (case model_rtl_btb32 (fst bm) pc dnpc x (kind_of x) (dnpc \<noteq> pc + 4) skip of
     (w, b) \<Rightarrow> (b, snd bm + of_b w))"

lemma prof_branch_frame [simp]:
  "rtl_btb32_miss (prof_branch c x t) = rtl_btb32_miss c"
  "rtl_btb32_skip_not_taken_miss (prof_branch c x t) = rtl_btb32_skip_not_taken_miss c"
  by (simp_all add: prof_branch_def Let_def)

lemma control_view:
  "rtl_view (prof_control s pc (pc + 4) dnpc x (kind_of x) ph) =
     (if is_control x then map_prod (rtl_view_step False pc dnpc x) (rtl_view_step True pc dnpc x) (rtl_view s)
      else rtl_view s)"
  by (simp add: prof_control_def is_control_def rtl_view_def rtl_view_step_def Let_def split: prod.split)

lemma record_view:
  assumes "riscv_profile_record s pc (pc + 4) dnpc x r1 r2 = Inr s'"
  shows "rtl_view s' = (if is_control x
    then map_prod (rtl_view_step False pc dnpc x) (rtl_view_step True pc dnpc x) (rtl_view s) else rtl_view s)"
proof -
  have v: "rtl_view t = rtl_view t'" if "btbs t = btbs t'" "branches t = branches t'" for t t'
    using that by (simp add: rtl_view_def)
  obtain t ph where t: "rtl_view s' = rtl_view (prof_control t pc (pc + 4) dnpc x (kind_of x) ph)"
    and "btbs t = btbs s" "branches t = branches s"
  proof -
    show ?thesis
      using assms unfolding riscv_profile_record_def Let_def
      by (auto simp: rtl_view_def btb_stages branch_stages intro!: that split: if_splits)
  qed
  then show ?thesis
    using v [of t s] by (simp add: control_view)
qed

text \<open>One RTL model of the profiler, with its counter, in step with a runner of the simulator.\<close>

definition view_rel :: "bool \<Rightarrow> btb \<times> u64 \<Rightarrow> RtlModelRunner \<Rightarrow> bool" where
  "view_rel skip bm r \<longleftrightarrow> btb_rel skip (fst bm) r \<and> snd bm = s_wrong (rr_stats r)"

lemma view_step_rel:
  assumes "view_rel skip bm r" "is_control x"
  shows "\<exists>r'. rtl_process r \<lparr>bt_pc = pc, bt_code = x, bt_nxt_pc = dnpc\<rparr> = Inr r'
    \<and> view_rel skip (rtl_view_step skip pc dnpc x bm) r'"
proof -
  obtain w b where m: "model_rtl_btb32 (fst bm) pc dnpc x (kind_of x) (dnpc \<noteq> pc + 4) skip = (w, b)"
    by fastforce
  show ?thesis
    using rtl_step_rel [OF _ assms(2) m, of r] assms(1) by (auto simp: view_rel_def rtl_view_step_def m)
qed

text \<open>The control transfers of a run, as the records the branch trace holds of them.\<close>

definition control_records :: "prof_event list \<Rightarrow> btrace_record list" where
  "control_records es = map (\<lambda>e. \<lparr>bt_pc = pe_pc e, bt_code = pe_inst e, bt_nxt_pc = pe_dnpc e\<rparr>)
     (filter (\<lambda>e. is_control (pe_inst e)) es)"

lemma run_rel:
  assumes "prof_run s es = Inr s'" "list_all (\<lambda>e. pe_snpc e = pe_pc e + 4) es"
    "view_rel False (fst (rtl_view s)) cur" "view_rel True (snd (rtl_view s)) skp"
  shows "\<exists>cur' skp'. rtl_replay cur (control_records es) = Inr cur' \<and> view_rel False (fst (rtl_view s')) cur'
    \<and> rtl_replay skp (control_records es) = Inr skp' \<and> view_rel True (snd (rtl_view s')) skp'"
  using assms
proof (induction es arbitrary: s cur skp)
  case Nil
  then show ?case by (simp add: control_records_def)
next
  case (Cons e es)
  let ?x = "pe_inst e"
  obtain t where t: "riscv_profile_record s (pe_pc e) (pe_pc e + 4) (pe_dnpc e) ?x (pe_rs1 e) (pe_rs2 e) = Inr t"
    "prof_run t es = Inr s'"
    using Cons.prems(1,2) by (auto simp: rbind_Inr_iff)
  have es: "list_all (\<lambda>e. pe_snpc e = pe_pc e + 4) es"
    using Cons.prems(2) by simp
  show ?case
  proof (cases "is_control ?x")
    case False
    then have "rtl_view t = rtl_view s" "control_records (e # es) = control_records es"
      using record_view [OF t(1)] by (simp_all add: control_records_def)
    then show ?thesis
      using Cons.IH [OF t(2) es, of cur skp] Cons.prems(3,4) by simp
  next
    case True
    let ?rec = "\<lparr>bt_pc = pe_pc e, bt_code = ?x, bt_nxt_pc = pe_dnpc e\<rparr>"
    have v: "fst (rtl_view t) = rtl_view_step False (pe_pc e) (pe_dnpc e) ?x (fst (rtl_view s))"
      "snd (rtl_view t) = rtl_view_step True (pe_pc e) (pe_dnpc e) ?x (snd (rtl_view s))"
      using record_view [OF t(1)] True by simp_all
    obtain cur1 where c: "rtl_process cur ?rec = Inr cur1" "view_rel False (fst (rtl_view t)) cur1"
      using view_step_rel [OF Cons.prems(3) True] v by metis
    obtain skp1 where k: "rtl_process skp ?rec = Inr skp1" "view_rel True (snd (rtl_view t)) skp1"
      using view_step_rel [OF Cons.prems(4) True] v by metis
    have "control_records (e # es) = ?rec # control_records es"
      using True by (simp add: control_records_def)
    then show ?thesis
      using Cons.IH [OF t(2) es c(2) k(2)] c(1) k(1) by simp
  qed
qed

section \<open>The same run, from its trace\<close>

lemma sequence_map_all2:
  "sequence_res (map f xs) = Inr ys \<Longrightarrow> list_all2 (\<lambda>x y. f x = Inr y) xs ys"
  by (induction xs arbitrary: ys) (auto simp: rbind_Inr_iff)

lemma main_loop_replay:
  assumes "btrace_pack_picks p = Inr recs" "main_loop p (algos, rtls) = Inr (algos', rtls')"
  shows "list_all2 (\<lambda>r r'. rtl_replay r recs = Inr r') rtls rtls'"
  using assms
proof (induction recs arbitrary: p algos rtls)
  case Nil
  then have "\<exists>p'. btrace_pack_pick p = Inr (None, p')"
    by (subst (asm) btrace_pack_picks.simps) (auto simp: rbind_Inr_iff split: sum.splits prod.splits option.splits)
  then show ?case
    using Nil.prems(2) by (subst (asm) main_loop.simps) (auto simp: list.rel_refl)
next
  case (Cons rec recs)
  obtain p' where p': "btrace_pack_pick p = Inr (Some rec, p')" "btrace_pack_picks p' = Inr recs"
    using Cons.prems(1)
    by (subst (asm) btrace_pack_picks.simps) (auto simp: rbind_Inr_iff split: sum.splits prod.splits option.splits)
  obtain algos1 rtls1 where r: "main_record (algos, rtls) rec = Inr (algos1, rtls1)"
    "main_loop p' (algos1, rtls1) = Inr (algos', rtls')"
    using Cons.prems(2) by (subst (asm) main_loop.simps) (auto simp: p' rbind_Inr_iff)
  have "list_all2 (\<lambda>r r'. rtl_process r rec = Inr r') rtls rtls1"
    using r(1) by (auto simp: main_record_def rbind_Inr_iff intro: sequence_map_all2)
  with Cons.IH [OF p'(2) r(2)] show ?case
    by (auto simp: list_all2_conv_all_nth)
qed

lemma prof_init_view: "rtl_view prof_init = ((empty_btb, 0), empty_btb, 0)"
  by (simp add: rtl_view_def prof_init_def clear_branches_def)

lemma new_view_rel:
  "RtlModelRunner_new (rtl_config 32 (btb_policy skip) [] 0 0) = Inr r \<Longrightarrow> view_rel skip (empty_btb, 0) r"
  by (auto simp: RtlModelRunner_new_def view_rel_def btb_rel_def ent_rel_def empty_btb_def empty_entry_def
      zero_stats_def split: if_splits)

lemma control_records_ok: "list_all control_record (control_records es)"
  by (auto simp: list_all_iff control_records_def control_record_def is_control_def kind_of_control)

lemma prof_run_length:
  "prof_run s es = Inr s' \<Longrightarrow> es \<noteq> [] \<Longrightarrow> unat (total (basic s)) + length es \<le> MAX_PHASES * PHASE_LEN"
proof (induction es arbitrary: s)
  case Nil
  then show ?case by simp
next
  case (Cons e es)
  obtain t where t: "riscv_profile_record s (pe_pc e) (pe_snpc e) (pe_dnpc e) (pe_inst e) (pe_rs1 e) (pe_rs2 e) = Inr t"
    "prof_run t es = Inr s'"
    using Cons.prems(1) by (auto simp: rbind_Inr_iff)
  then have lt: "unat (total (basic s)) < MAX_PHASES * PHASE_LEN"
    using record_ok_iff by blast
  then have "unat (total (basic t)) = Suc (unat (total (basic s)))"
    using record_total [OF t(1)] by (simp add: MAX_PHASES_def PHASE_LEN_def unat_word_ariths)
  then show ?case
    using Cons.IH [OF t(2)] lt by (cases es) simp_all
qed

text \<open>
  C2. The profiler and the branch simulator agree on the RTL branch target buffer. Take any profiled run
  in which every instruction is four bytes long, and the trace of its control transfers, packed into
  a file. The simulator reads that file without stopping, and the mispredictions it reports for its
  first two models, \<open>rtl-current\<close> and \<open>rtl-skip-conflicting-not-taken\<close>, are the counters
  \<open>rtl_btb32_miss\<close> and \<open>rtl_btb32_skip_not_taken_miss\<close> of the profile.
\<close>

theorem profiler_matches_branchsim:
  assumes "prof_run prof_init es = Inr s" "list_all (\<lambda>e. pe_snpc e = pe_pc e + 4) es"
  shows "\<exists>algos cur skp rtls. branchsim_main rtl_only rtl_index_search
      (Some (btrace_pack_close (foldl btrace_pack_add btrace_pack_create (control_records es))))
        = Inr (Some (algos, cur # skp # rtls))
    \<and> rr_config cur = rtl_config 32 Always [] 0 0 \<and> rr_config skp = rtl_config 32 SkipConflictingNotTaken [] 0 0
    \<and> rtl_btb32_miss (branches s) = s_wrong (rr_stats cur)
    \<and> rtl_btb32_skip_not_taken_miss (branches s) = s_wrong (rr_stats skp)"
proof -
  have "length es < 2 ^ 32"
    using prof_run_length [OF assms(1)] by (cases "es = []") (simp_all add: MAX_PHASES_def PHASE_LEN_def)
  then have len: "length (control_records es) < 2 ^ 32"
    by (simp add: control_records_def le_less_trans [OF length_filter_le])
  obtain p algos0 rtls0 algos rtls where m: "btrace_pack_picks p = Inr (control_records es)"
    "sequence_res (map RtlModelRunner_new (rtl_configs rtl_index_search)) = Inr rtls0"
    "main_loop p (algos0, rtls0) = Inr (algos, rtls)"
    "branchsim_main rtl_only rtl_index_search (Some (btrace_pack_close
       (foldl btrace_pack_add btrace_pack_create (control_records es)))) = Inr (Some (algos, rtls))"
    using branchsim_runs [OF control_records_ok len] by metis
  have "\<exists>cfgs. rtl_configs rtl_index_search = rtl_config 32 (btb_policy False) [] 0 0
      # rtl_config 32 (btb_policy True) [] 0 0 # cfgs"
    by (simp add: rtl_configs_def fixed_configs_def btb_policy_def)
  then obtain cur0 skp0 rest0 where r0: "rtls0 = cur0 # skp0 # rest0"
    "view_rel False (empty_btb, 0) cur0" "view_rel True (empty_btb, 0) skp0"
    using m(2) by (auto simp: rbind_Inr_iff dest!: new_view_rel)
  obtain cur skp where c: "rtl_replay cur0 (control_records es) = Inr cur" "view_rel False (fst (rtl_view s)) cur"
    "rtl_replay skp0 (control_records es) = Inr skp" "view_rel True (snd (rtl_view s)) skp"
    using run_rel [OF assms, of cur0 skp0] r0 by (auto simp: prof_init_view)
  have "\<exists>rest. rtls = cur # skp # rest"
    using main_loop_replay [OF m(1,3)] c(1,3) by (auto simp: r0(1) list_all2_Cons1)
  then show ?thesis
    using m(4) c(2,4) by (auto simp: view_rel_def btb_rel_def btb_policy_def rtl_view_def)
qed

theorem profiler_matches_branchsim_witness:
  "\<exists>s algos cur skp rtls.
     prof_run prof_init [\<lparr>pe_pc = 0x80000000, pe_snpc = 0x80000004, pe_dnpc = 0x80000000, pe_inst = 0x0000006f,
       pe_rs1 = 0, pe_rs2 = 0\<rparr>] = Inr s
     \<and> branchsim_main True False (Some (btrace_pack_close (foldl btrace_pack_add btrace_pack_create
          [\<lparr>bt_pc = 0x80000000, bt_code = 0x0000006f, bt_nxt_pc = 0x80000000\<rparr>])))
        = Inr (Some (algos, cur # skp # rtls))
     \<and> rtl_btb32_miss (branches s) = s_wrong (rr_stats cur)"
proof -
  let ?es = "[\<lparr>pe_pc = 0x80000000, pe_snpc = 0x80000004, pe_dnpc = 0x80000000, pe_inst = 0x0000006f,
    pe_rs1 = 0, pe_rs2 = 0\<rparr>]"
  obtain s where s: "prof_run prof_init ?es = Inr s"
    using prof_run_total [of prof_init ?es] by (auto simp: MAX_PHASES_def PHASE_LEN_def)
  have "control_records ?es = [\<lparr>bt_pc = 0x80000000, bt_code = 0x0000006f, bt_nxt_pc = 0x80000000\<rparr>]"
    by (simp add: control_records_def is_control_def kind_of_control is_jal_def)
  with profiler_matches_branchsim [OF s, of True False] s show ?thesis
    by (simp del: prof_run.simps) blast
qed

end
