(* ===== verification/Klib_Int64.thy ===== *)
theory Klib_Int64
  imports Prelude "HOL-Library.Signed_Division"
begin

text \<open>
  The 64-bit integer runtime of the bare-metal programs, \<open>abstract-machine/klib/src/int64.c\<close>: the compiler
  calls it for divisions and bit counts that RV32 has no instruction for. A \<open>udwords\<close> union is a 64-bit word
  with its two halves. The builtins \<open>__builtin_clz\<close> and \<open>__builtin_ctz\<close> are \<open>__clzsi2\<close> and \<open>__ctzsi2\<close> of the
  same file. A null \<open>rem\<close> only suppresses the store of the remainder; the model always returns it.
  \<open>None\<close> is a division by zero, which C leaves undefined.
\<close>

section \<open>Halves\<close>

definition dw_low :: "u64 \<Rightarrow> u32" where "dw_low w = ucast w"
definition dw_high :: "u64 \<Rightarrow> u32" where "dw_high w = ucast (drop_bit 32 w)"
definition dw_all :: "u32 \<Rightarrow> u32 \<Rightarrow> u64" where "dw_all high low = push_bit 32 (ucast high) OR ucast low"

section \<open>Bit counts\<close>

definition of_cond :: "bool \<Rightarrow> nat \<Rightarrow> nat" where
  "of_cond c n = (if c then 2 ^ n else 0)"

text \<open>\<open>-(c)\<close> for a truth value: all ones or zero.\<close>

definition neg_cond :: "bool \<Rightarrow> u32" where
  "neg_cond c = (if c then - 1 else 0)"

definition clzsi2 :: "u32 \<Rightarrow> u32" where
  "clzsi2 a =
     (let x = a;
          t = of_cond (x AND 0xFFFF0000 = 0) 4; x = drop_bit (16 - t) x; r = of_nat t;
          t = of_cond (x AND 0xFF00 = 0) 3; x = drop_bit (8 - t) x; r = r + of_nat t;
          t = of_cond (x AND 0xF0 = 0) 2; x = drop_bit (4 - t) x; r = r + of_nat t;
          t = of_cond (x AND 0xC = 0) 1; x = drop_bit (2 - t) x; r = r + of_nat t
      in r + ((2 - x) AND neg_cond (x AND 2 = 0)))"

definition ctzsi2 :: "u32 \<Rightarrow> u32" where
  "ctzsi2 a =
     (let x = a;
          t = of_cond (x AND 0x0000FFFF = 0) 4; x = drop_bit t x; r = of_nat t;
          t = of_cond (x AND 0x00FF = 0) 3; x = drop_bit t x; r = r + of_nat t;
          t = of_cond (x AND 0x0F = 0) 2; x = drop_bit t x; r = r + of_nat t;
          t = of_cond (x AND 0x3 = 0) 1; x = drop_bit t x; x = x AND 3; r = r + of_nat t
      in r + ((2 - drop_bit 1 x) AND neg_cond (x AND 1 = 0)))"

definition ctzdi2 :: "u64 \<Rightarrow> u32" where
  "ctzdi2 a =
     (let f = neg_cond (dw_low a = 0)
      in ctzsi2 ((dw_high a AND f) OR (dw_low a AND NOT f)) + (f AND 32))"

definition clzdi2 :: "u64 \<Rightarrow> u32" where
  "clzdi2 a =
     (let f = neg_cond (dw_high a = 0)
      in clzsi2 ((dw_high a AND NOT f) OR (dw_low a AND f)) + (f AND 32))"

section \<open>Division\<close>

text \<open>Division of two 32-bit values, as the C operators.\<close>

definition div32 :: "u32 \<Rightarrow> u32 \<Rightarrow> (u32 \<times> u32) option" where
  "div32 a b = (if b = 0 then None else Some (a div b, a mod b))"

record div_state =
  d_r :: u64
  d_q :: u64
  d_carry :: u32

definition div_step :: "u64 \<Rightarrow> div_state \<Rightarrow> div_state" where
  "div_step d st =
     (let rl = dw_low (d_r st); rh = dw_high (d_r st); ql = dw_low (d_q st); qh = dw_high (d_q st);
          rh = push_bit 1 rh OR drop_bit 31 rl;
          rl = push_bit 1 rl OR drop_bit 31 qh;
          qh = push_bit 1 qh OR drop_bit 31 ql;
          ql = push_bit 1 ql OR d_carry st;
          r = dw_all rh rl;
          s = signed_drop_bit 63 (d - r - 1)
      in \<lparr>d_r = r - (d AND s), d_q = dw_all qh ql, d_carry = ucast (s AND 1)\<rparr>)"

fun div_loop :: "nat \<Rightarrow> u64 \<Rightarrow> div_state \<Rightarrow> div_state" where
  "div_loop 0 d st = st"
| "div_loop (Suc sr) d st = div_loop sr d (div_step d st)"

text \<open>The general case: the quotient and the remainder from the shifted operands.\<close>

definition div_long :: "u32 \<Rightarrow> u64 \<Rightarrow> u64 \<Rightarrow> u64 \<Rightarrow> u64 \<times> u64" where
  "div_long sr d q r =
     (let st = div_loop (unat sr) d \<lparr>d_r = r, d_q = q, d_carry = 0\<rparr>
      in (push_bit 1 (d_q st) OR ucast (d_carry st), d_r st))"

text \<open>The three ways in which \<open>n << (64 - sr)\<close> and \<open>n >> sr\<close> are put together from halves.\<close>

definition shift_short :: "u64 \<Rightarrow> u32 \<Rightarrow> u64 \<times> u64" where
  "shift_short n sr =
     (dw_all (push_bit (32 - unat sr) (dw_low n)) 0,
      dw_all (drop_bit (unat sr) (dw_high n))
             (push_bit (32 - unat sr) (dw_high n) OR drop_bit (unat sr) (dw_low n)))"

definition shift_word :: "u64 \<Rightarrow> u64 \<times> u64" where
  "shift_word n = (dw_all (dw_low n) 0, dw_all 0 (dw_high n))"

definition shift_far :: "u64 \<Rightarrow> u32 \<Rightarrow> u64 \<times> u64" where
  "shift_far n sr =
     (dw_all (push_bit (64 - unat sr) (dw_high n) OR drop_bit (unat sr - 32) (dw_low n))
             (push_bit (64 - unat sr) (dw_low n)),
      dw_all 0 (drop_bit (unat sr - 32) (dw_high n)))"

definition udivmoddi4 :: "u64 \<Rightarrow> u64 \<Rightarrow> (u64 \<times> u64) option" where
  "udivmoddi4 n d =
     (let nh = dw_high n; nl = dw_low n; dh = dw_high d; dl = dw_low d in
      if nh = 0
      then if dh = 0 then map_option (\<lambda>(q, r). (ucast q, ucast r)) (div32 nl dl) else Some (0, ucast nl)
      else if dl = 0
      then if dh = 0 then map_option (\<lambda>(q, r). (ucast q, ucast r)) (div32 nh dl)
           else if nl = 0 then map_option (\<lambda>(q, r). (ucast q, dw_all r 0)) (div32 nh dh)
           else if dh AND (dh - 1) = 0
           then Some (ucast (drop_bit (unat (ctzsi2 dh)) nh), dw_all (nh AND (dh - 1)) nl)
           else let sr = clzsi2 dh - clzsi2 nh in
                if sr > 32 - 2 then Some (0, n)
                else let sr = sr + 1; (q, r) = shift_short n sr in Some (div_long sr d q r)
      else if dh = 0
      then if dl AND (dl - 1) = 0
           then if dl = 1 then Some (n, ucast (nl AND (dl - 1)))
                else let sr = ctzsi2 dl
                     in Some (dw_all (drop_bit (unat sr) nh)
                                (push_bit (32 - unat sr) nh OR drop_bit (unat sr) nl),
                              ucast (nl AND (dl - 1)))
           else let sr = 1 + 32 + clzsi2 dl - clzsi2 nh;
                    (q, r) = (if sr = 32 then shift_word n else if sr < 32 then shift_short n sr else shift_far n sr)
                in Some (div_long sr d q r)
      else let sr = clzsi2 dh - clzsi2 nh in
           if sr > 32 - 1 then Some (0, n)
           else let sr = sr + 1; (q, r) = (if sr = 32 then shift_word n else shift_short n sr)
                in Some (div_long sr d q r))"

definition udivdi3 :: "u64 \<Rightarrow> u64 \<Rightarrow> u64 option" where
  "udivdi3 a b = map_option fst (udivmoddi4 a b)"

definition umoddi3 :: "u64 \<Rightarrow> u64 \<Rightarrow> u64 option" where
  "umoddi3 a b = map_option snd (udivmoddi4 a b)"

definition divdi3 :: "u64 \<Rightarrow> u64 \<Rightarrow> u64 option" where
  "divdi3 a b =
     (let s_a = signed_drop_bit 63 a; s_b = signed_drop_bit 63 b;
          a = (a XOR s_a) - s_a; b = (b XOR s_b) - s_b; s_a = s_a XOR s_b
      in map_option (\<lambda>(q, r). (q XOR s_a) - s_a) (udivmoddi4 a b))"

definition divmoddi4 :: "u64 \<Rightarrow> u64 \<Rightarrow> (u64 \<times> u64) option" where
  "divmoddi4 a b = map_option (\<lambda>d. (d, a - d * b)) (divdi3 a b)"

definition moddi3 :: "u64 \<Rightarrow> u64 \<Rightarrow> u64 option" where
  "moddi3 a b =
     (let s = signed_drop_bit 63 b; b = (b XOR s) - s; s = signed_drop_bit 63 a; a = (a XOR s) - s
      in map_option (\<lambda>(q, r). (r XOR s) - s) (udivmoddi4 a b))"

section \<open>Leading and trailing zeros\<close>

text \<open>\<open>msb_at x k\<close>: the highest set bit of \<open>x\<close> is bit \<open>k\<close>.\<close>

definition msb_at :: "'a::len word \<Rightarrow> nat \<Rightarrow> bool" where
  "msb_at x k \<longleftrightarrow> 2 ^ k \<le> unat x \<and> unat x < 2 ^ Suc k"

lemma nat_msb: "0 < (n :: nat) \<Longrightarrow> \<exists>k. 2 ^ k \<le> n \<and> n < 2 ^ Suc k"
proof (induction n rule: less_induct)
  case (less n)
  show ?case
  proof (cases "n = 1")
    case True
    then show ?thesis by (intro exI [of _ 0]) simp
  next
    case False
    then obtain k where "2 ^ k \<le> n div 2" "n div 2 < 2 ^ Suc k"
      using less.IH [of "n div 2"] less.prems by auto
    then show ?thesis
      by (intro exI [of _ "Suc k"]) (simp; linarith)
  qed
qed

lemma msb_exists: "x \<noteq> 0 \<Longrightarrow> \<exists>k. msb_at x k \<and> k < LENGTH('a)" for x :: "'a::len word"
proof -
  assume "x \<noteq> 0"
  then have "0 < unat x" by (simp add: unat_gt_0)
  then obtain k where k: "2 ^ k \<le> unat x" "unat x < 2 ^ Suc k"
    using nat_msb by blast
  have "(2 :: nat) ^ k < 2 ^ LENGTH('a)"
    using k(1) unsigned_less [of x, where 'a = nat] by (rule le_less_trans)
  then show ?thesis
    using k by (auto simp: msb_at_def)
qed

lemma less_pow_drop: "unat x < 2 ^ n \<longleftrightarrow> drop_bit n x = 0" for x :: "'a::len word"
  by (simp add: unat_drop_bit div_eq_0_iff flip: unat_eq_0)

lemma high_mask:
  fixes x :: "'a::len word"
  assumes "unat x < 2 ^ (2 * w)"
  shows "x AND push_bit w (mask w) = 0 \<longleftrightarrow> unat x < 2 ^ w"
proof -
  have hi: "\<not> bit x n" if "2 * w \<le> n" for n
  proof -
    have "\<not> bit (drop_bit (2 * w) x) (n - 2 * w)"
      using assms unfolding less_pow_drop by simp
    then show ?thesis
      using that by (simp add: bit_drop_bit_eq)
  qed
  show ?thesis
    unfolding less_pow_drop
  proof
    assume z: "x AND push_bit w (mask w) = 0"
    show "drop_bit w x = 0"
    proof (rule bit_word_eqI)
      fix n assume "n < LENGTH('a)"
      have "\<not> bit (x AND push_bit w (mask w)) (w + n)"
        by (simp add: z)
      then show "bit (drop_bit w x) n = bit 0 n"
        using hi [of "w + n"] by (auto simp: bit_simps dest: bit_imp_le_length)
    qed
  next
    assume z: "drop_bit w x = 0"
    show "x AND push_bit w (mask w) = 0"
    proof (rule bit_word_eqI)
      fix n assume "n < LENGTH('a)"
      have "\<not> bit (drop_bit w x) (n - w)"
        by (simp add: z)
      then show "bit (x AND push_bit w (mask w)) n = bit 0 n"
        by (auto simp: bit_simps)
    qed
  qed
qed

text \<open>One halving step of \<open>clzsi2\<close> on a value of \<open>2 * w\<close> bits.\<close>

lemma clz_halve:
  fixes x :: u32
  assumes "msb_at x k" "k < 2 * w" "M = push_bit w (mask w)" "t = (if x AND M = 0 then w else 0)"
  shows "msb_at (drop_bit (w - t) x) (k - (w - t)) \<and> k - (w - t) < w \<and> w - t \<le> k"
proof -
  have "(2 :: nat) ^ Suc k \<le> 2 ^ (2 * w)"
    using assms(2) by (intro power_increasing) simp_all
  then have "unat x < 2 ^ (2 * w)"
    using assms(1) unfolding msb_at_def by linarith
  then have t: "t = (if unat x < 2 ^ w then w else 0)"
    using high_mask [of x w] by (simp add: assms(3,4))
  show ?thesis
  proof (cases "unat x < 2 ^ w")
    case True
    then have "(2 :: nat) ^ k < 2 ^ w"
      using assms(1) unfolding msb_at_def by (meson le_less_trans)
    then have "k < w"
      by simp
    then show ?thesis
      using True assms(1) by (simp add: t)
  next
    case False
    then have "(2 :: nat) ^ w < 2 ^ Suc k"
      using assms(1) unfolding msb_at_def by (meson le_less_trans not_less)
    then have wk: "w \<le> k"
      using power_less_imp_less_exp [of "2 :: nat" w "Suc k"] by simp
    have "2 ^ (k - w) \<le> unat x div 2 ^ w \<and> unat x div 2 ^ w < 2 ^ Suc (k - w)"
      using assms(1) wk
      by (simp add: msb_at_def less_eq_div_iff_mult_less_eq div_less_iff_less_mult flip: power_add power_Suc)
    then show ?thesis
      using False wk assms(2) by (simp add: t msb_at_def unat_drop_bit)
  qed
qed

lemma masks32:
  "(0xFFFF0000 :: u32) = push_bit 16 (mask 16)" "(0xFF00 :: u32) = push_bit 8 (mask 8)"
  "(0xF0 :: u32) = push_bit 4 (mask 4)" "(0xC :: u32) = push_bit 2 (mask 2)"
  by (simp_all add: mask_eq_exp_minus_1 push_bit_eq_mult)

lemma clz_last:
  fixes x :: u32
  assumes "msb_at x k" "k < 2"
  shows "(2 - x) AND neg_cond (x AND 2 = 0) = of_nat (1 - k)"
proof -
  have "unat x \<in> {1, 2, 3}"
    using assms by (auto simp: msb_at_def less_2_cases_iff)
  moreover have "x = of_nat (unat x)"
    by simp
  ultimately have "x = of_nat 1 \<or> x = of_nat 2 \<or> x = of_nat 3"
    by (elim insertE) (simp_all only: singleton_iff empty_iff, simp_all)
  then have "x \<in> {1, 2, 3}"
    by simp
  then show ?thesis
    using assms by (auto simp: msb_at_def neg_cond_def less_2_cases_iff)
qed

lemma clzsi2_msb:
  assumes x: "msb_at x k" "k < 32"
  shows "clzsi2 x = of_nat (31 - k)"
proof -
  define t1 x1 where "t1 = of_cond (x AND 0xFFFF0000 = 0) 4" and "x1 = drop_bit (16 - t1) x"
  define t2 x2 where "t2 = of_cond (x1 AND 0xFF00 = 0) 3" and "x2 = drop_bit (8 - t2) x1"
  define t3 x3 where "t3 = of_cond (x2 AND 0xF0 = 0) 2" and "x3 = drop_bit (4 - t3) x2"
  define t4 x4 where "t4 = of_cond (x3 AND 0xC = 0) 1" and "x4 = drop_bit (2 - t4) x3"
  have t: "t1 = (if x AND 0xFFFF0000 = 0 then 16 else 0)" "t2 = (if x1 AND 0xFF00 = 0 then 8 else 0)"
    "t3 = (if x2 AND 0xF0 = 0 then 4 else 0)" "t4 = (if x3 AND 0xC = 0 then 2 else 0)"
    by (simp_all add: t1_def t2_def t3_def t4_def of_cond_def)
  have 1: "msb_at x1 (k - (16 - t1))" "k - (16 - t1) < 16" "16 - t1 \<le> k"
    using clz_halve [OF x(1) _ masks32(1) t(1)] x(2) unfolding x1_def by simp_all
  let ?k1 = "k - (16 - t1)"
  have 2: "msb_at x2 (?k1 - (8 - t2))" "?k1 - (8 - t2) < 8" "8 - t2 \<le> ?k1"
    using clz_halve [OF 1(1) _ masks32(2) t(2)] 1(2) unfolding x2_def by simp_all
  let ?k2 = "?k1 - (8 - t2)"
  have 3: "msb_at x3 (?k2 - (4 - t3))" "?k2 - (4 - t3) < 4" "4 - t3 \<le> ?k2"
    using clz_halve [OF 2(1) _ masks32(3) t(3)] 2(2) unfolding x3_def by simp_all
  let ?k3 = "?k2 - (4 - t3)"
  have 4: "msb_at x4 (?k3 - (2 - t4))" "?k3 - (2 - t4) < 2" "2 - t4 \<le> ?k3"
    using clz_halve [OF 3(1) _ masks32(4) t(4)] 3(2) unfolding x4_def by simp_all
  let ?k4 = "?k3 - (2 - t4)"
  have le: "t1 \<le> 16" "t2 \<le> 8" "t3 \<le> 4" "t4 \<le> 2"
    by (simp_all add: t)
  have "clzsi2 x = of_nat t1 + of_nat t2 + of_nat t3 + of_nat t4 + of_nat (1 - ?k4)"
    unfolding clzsi2_def Let_def t1_def [symmetric] x1_def [symmetric] t2_def [symmetric] x2_def [symmetric]
      t3_def [symmetric] x3_def [symmetric] t4_def [symmetric] x4_def [symmetric] clz_last [OF 4(1,2)] ..
  also have "\<dots> = of_nat (t1 + t2 + t3 + t4 + (1 - ?k4))"
    by simp
  also have "t1 + t2 + t3 + t4 + (1 - ?k4) = 31 - k"
  proof -
    have back_t: "a - (w - t) + w = a + t" if "w - t \<le> a" "t \<le> w" for a w t :: nat
      using that by linarith
    have tot: "t1 + t2 + t3 + t4 + (1 - d) = 31 - k"
      if "a + 16 = k + t1" "b + 8 = a + t2" "c + 4 = b + t3" "d + 2 = c + t4" "d < 2" for a b c d
      using that by linarith
    show ?thesis
      by (rule tot [OF back_t [OF 1(3) le(1)] back_t [OF 2(3) le(2)] back_t [OF 3(3) le(3)] back_t [OF 4(3) le(4)] 4(2)])
  qed
  finally show ?thesis .
qed

text \<open>\<open>lsb_at x k\<close>: the lowest set bit of \<open>x\<close> is bit \<open>k\<close>.\<close>

definition lsb_at :: "'a::len word \<Rightarrow> nat \<Rightarrow> bool" where
  "lsb_at x k \<longleftrightarrow> bit x k \<and> (\<forall>j < k. \<not> bit x j)"

lemma lsb_exists: "x \<noteq> 0 \<Longrightarrow> \<exists>k. lsb_at x k \<and> k < LENGTH('a)" for x :: "'a::len word"
proof -
  assume "x \<noteq> 0"
  then have "\<exists>k. bit x k"
    by (metis bit_0_eq bit_word_eqI bot_apply bot_bool_def)
  then have "lsb_at x (LEAST k. bit x k)"
    unfolding lsb_at_def by (metis LeastI_ex not_less_Least)
  then show ?thesis
    using bit_imp_le_length by (auto simp: lsb_at_def)
qed

lemma ctz_halve:
  fixes x :: u32
  assumes "lsb_at x k" "k < 2 * w" "M = mask w" "t = (if x AND M = 0 then w else 0)"
  shows "lsb_at (drop_bit t x) (k - t) \<and> k - t < w \<and> t \<le> k"
proof -
  have "x AND mask w = 0 \<longleftrightarrow> w \<le> k"
  proof
    assume z: "x AND mask w = 0"
    have "\<not> bit (x AND mask w) k"
      by (simp add: z)
    then show "w \<le> k"
      using assms(1) by (auto simp: lsb_at_def bit_simps dest: bit_imp_le_length)
  next
    assume "w \<le> k"
    then show "x AND mask w = 0"
      using assms(1) by (intro bit_word_eqI) (auto simp: lsb_at_def bit_simps)
  qed
  then show ?thesis
    using assms by (auto simp: lsb_at_def bit_simps)
qed

lemma ctz_last:
  fixes x :: u32
  assumes "lsb_at x k" "k < 2"
  shows "(2 - drop_bit 1 (x AND 3)) AND neg_cond ((x AND 3) AND 1 = 0) = of_nat k"
proof -
  have m: "(3 :: u32) = mask 2" "(1 :: u32) = mask 1"
    by (simp_all add: mask_eq_exp_minus_1)
  show ?thesis
  proof (cases "k = 0")
    case True
    then have "bit ((x AND 3) AND 1) 0"
      using assms(1) unfolding m by (simp add: lsb_at_def bit_simps)
    then have "(x AND 3) AND 1 \<noteq> 0"
      by (metis bit_0_eq bot_apply bot_bool_def)
    then show ?thesis
      using True by (simp add: neg_cond_def)
  next
    case False
    then have k: "k = 1"
      using assms(2) by simp
    have "x AND mask 2 = push_bit 1 (mask 1)"
    proof (rule bit_word_eqI)
      fix n assume "n < LENGTH(32)"
      show "bit (x AND mask 2) n = bit (push_bit 1 (mask 1) :: u32) n"
        using assms(1) unfolding k lsb_at_def bit_and_iff bit_push_bit_iff bit_mask_iff
        by (cases "n = 0"; cases "n = 1") auto
    qed
    then have x: "x AND 3 = 2"
      unfolding m(1) [symmetric] by simp
    show ?thesis
      unfolding x k by (simp add: neg_cond_def)
  qed
qed

lemma ctzsi2_lsb:
  assumes x: "lsb_at x k" "k < 32"
  shows "ctzsi2 x = of_nat k"
proof -
  define t1 x1 where "t1 = of_cond (x AND 0xFFFF = 0) 4" and "x1 = drop_bit t1 x"
  define t2 x2 where "t2 = of_cond (x1 AND 0xFF = 0) 3" and "x2 = drop_bit t2 x1"
  define t3 x3 where "t3 = of_cond (x2 AND 0xF = 0) 2" and "x3 = drop_bit t3 x2"
  define t4 x4 where "t4 = of_cond (x3 AND 3 = 0) 1" and "x4 = drop_bit t4 x3"
  have t: "t1 = (if x AND 0xFFFF = 0 then 16 else 0)" "t2 = (if x1 AND 0xFF = 0 then 8 else 0)"
    "t3 = (if x2 AND 0xF = 0 then 4 else 0)" "t4 = (if x3 AND 3 = 0 then 2 else 0)"
    by (simp_all add: t1_def t2_def t3_def t4_def of_cond_def)
  have m: "(0xFFFF :: u32) = mask 16" "(0xFF :: u32) = mask 8" "(0xF :: u32) = mask 4" "(3 :: u32) = mask 2"
    by (simp_all add: mask_eq_exp_minus_1)
  have 1: "lsb_at x1 (k - t1)" "k - t1 < 16" "t1 \<le> k"
    using ctz_halve [OF x(1) _ m(1) t(1)] x(2) unfolding x1_def by simp_all
  have 2: "lsb_at x2 (k - t1 - t2)" "k - t1 - t2 < 8" "t2 \<le> k - t1"
    using ctz_halve [OF 1(1) _ m(2) t(2)] 1(2) unfolding x2_def by simp_all
  have 3: "lsb_at x3 (k - t1 - t2 - t3)" "k - t1 - t2 - t3 < 4" "t3 \<le> k - t1 - t2"
    using ctz_halve [OF 2(1) _ m(3) t(3)] 2(2) unfolding x3_def by simp_all
  have 4: "lsb_at x4 (k - t1 - t2 - t3 - t4)" "k - t1 - t2 - t3 - t4 < 2" "t4 \<le> k - t1 - t2 - t3"
    using ctz_halve [OF 3(1) _ m(4) t(4)] 3(2) unfolding x4_def by simp_all
  have "ctzsi2 x = of_nat t1 + of_nat t2 + of_nat t3 + of_nat t4 + of_nat (k - t1 - t2 - t3 - t4)"
    unfolding ctzsi2_def Let_def t1_def [symmetric] x1_def [symmetric] t2_def [symmetric] x2_def [symmetric]
      t3_def [symmetric] x3_def [symmetric] t4_def [symmetric] x4_def [symmetric] ctz_last [OF 4(1,2)] ..
  also have "\<dots> = of_nat (t1 + t2 + t3 + t4 + (k - t1 - t2 - t3 - t4))"
    by simp
  also have "t1 + t2 + t3 + t4 + (k - t1 - t2 - t3 - t4) = k"
    using 1(3) 2(3) 3(3) 4(3) by simp
  finally show ?thesis .
qed

section \<open>Halves and shifts\<close>

lemma bit_dw_all: "bit (dw_all h l) n \<longleftrightarrow> (if n < 32 then bit l n else bit h (n - 32))"
  by (auto simp: dw_all_def bit_simps dest: bit_imp_le_length)

lemma bit_dw_low: "bit (dw_low w) n \<longleftrightarrow> n < 32 \<and> bit w n"
  by (auto simp: dw_low_def bit_simps)

lemma bit_dw_high: "bit (dw_high w) n \<longleftrightarrow> n < 32 \<and> bit w (n + 32)"
  by (auto simp: dw_high_def bit_simps add.commute)

lemmas dw_bits = bit_dw_all bit_dw_low bit_dw_high

lemma dw_all_halves [simp]: "dw_all (dw_high w) (dw_low w) = w"
  by (rule bit_word_eqI) (auto simp: dw_bits)

lemma bit_less_64: "bit (w :: u64) n \<Longrightarrow> n < 64"
  using bit_imp_le_length [of w n] by simp

lemma u64_eqI: "(\<And>n. n < 64 \<Longrightarrow> bit a n = bit b n) \<Longrightarrow> a = (b :: u64)"
  by (rule bit_word_eqI) simp

lemma push_halves:
  assumes "m \<le> 32"
  shows "dw_all (push_bit (32 - m) (dw_low n)) 0 = push_bit (64 - m) n"
proof (rule bit_word_eqI)
  fix i assume "i < LENGTH(64)"
  then have i: "i < 64" by simp
  have e: "i - 32 - (32 - m) = i - (64 - m)"
    using assms by linarith
  show "bit (dw_all (push_bit (32 - m) (dw_low n)) 0) i = bit (push_bit (64 - m) n) i"
    unfolding bit_dw_all bit_push_bit_iff bit_dw_low e using i assms by auto
qed

lemma drop_halves:
  assumes "m \<le> 32"
  shows "dw_all (drop_bit m (dw_high n)) (push_bit (32 - m) (dw_high n) OR drop_bit m (dw_low n)) = drop_bit m n"
proof (rule bit_word_eqI)
  fix i
  have e: "32 - m \<le> i \<Longrightarrow> i - (32 - m) + 32 = m + i" "32 \<le> i \<Longrightarrow> m + (i - 32) + 32 = m + i"
    using assms by linarith+
  show "bit (dw_all (drop_bit m (dw_high n)) (push_bit (32 - m) (dw_high n) OR drop_bit m (dw_low n))) i
      = bit (drop_bit m n) i"
    unfolding bit_dw_all bit_push_bit_iff bit_drop_bit_eq bit_or_iff bit_dw_low bit_dw_high comp_def
    using e assms bit_less_64 [of n "m + i"] by (auto simp: add.commute)
qed

lemma push_far:
  assumes "m < 32"
  shows "dw_all (push_bit m (dw_high n) OR drop_bit (32 - m) (dw_low n)) (push_bit m (dw_low n)) = push_bit m n"
proof (rule bit_word_eqI)
  fix i assume "i < LENGTH(64)"
  then have i: "i < 64" by simp
  have e: "m \<le> i - 32 \<Longrightarrow> i - 32 - m + 32 = i - m \<or> m = 0" "32 \<le> i \<Longrightarrow> 32 - m + (i - 32) = i - m"
    using assms by linarith+
  show "bit (dw_all (push_bit m (dw_high n) OR drop_bit (32 - m) (dw_low n)) (push_bit m (dw_low n))) i
      = bit (push_bit m n) i"
    unfolding bit_dw_all bit_push_bit_iff bit_drop_bit_eq bit_or_iff bit_dw_low bit_dw_high comp_def
    using e assms i by auto
qed

lemma shift_short_eq:
  "unat sr < 32 \<Longrightarrow> shift_short n sr = (push_bit (64 - unat sr) n, drop_bit (unat sr) n)"
  by (simp add: shift_short_def push_halves drop_halves)

lemma shift_word_eq: "shift_word n = (push_bit 32 n, drop_bit 32 n)"
proof -
  have "dw_all (dw_low n) 0 = push_bit 32 n"
    by (rule u64_eqI) (auto simp: dw_bits bit_push_bit_iff)
  moreover have "dw_all 0 (dw_high n) = drop_bit 32 n"
    by (rule u64_eqI) (auto simp: dw_bits bit_drop_bit_eq add.commute dest: bit_less_64)
  ultimately show ?thesis
    by (simp add: shift_word_def)
qed

lemma shift_far_eq:
  assumes "32 < unat sr" "unat sr < 64"
  shows "shift_far n sr = (push_bit (64 - unat sr) n, drop_bit (unat sr) n)"
proof -
  have e: "unat sr - 32 = 32 - (64 - unat sr)" "64 - unat sr < 32"
    using assms by linarith+
  have "dw_all 0 (drop_bit (unat sr - 32) (dw_high n)) = drop_bit (unat sr) n"
    using assms by (intro u64_eqI) (auto simp: dw_bits bit_drop_bit_eq dest: bit_less_64)
  then show ?thesis
    using push_far [OF e(2), of n] by (simp add: shift_far_def e(1))
qed

section \<open>The division loop\<close>

lemma div_step_words:
  "div_step d st =
     (let r = push_bit 1 (d_r st) OR drop_bit 63 (d_q st); s = signed_drop_bit 63 (d - r - 1)
      in \<lparr>d_r = r - (d AND s), d_q = push_bit 1 (d_q st) OR ucast (d_carry st), d_carry = ucast (s AND 1)\<rparr>)"
proof -
  have 1: "dw_all (push_bit 1 (dw_high r) OR drop_bit 31 (dw_low r)) (push_bit 1 (dw_low r) OR drop_bit 31 (dw_high q))
      = push_bit 1 r OR drop_bit 63 q" for r q
  proof (rule u64_eqI)
    fix i :: nat assume i: "i < 64"
    consider "i = 0" | "0 < i" "i < 32" | "i = 32" | "32 < i" by linarith
    then show "bit (dw_all (push_bit 1 (dw_high r) OR drop_bit 31 (dw_low r))
        (push_bit 1 (dw_low r) OR drop_bit 31 (dw_high q))) i = bit (push_bit 1 r OR drop_bit 63 q) i"
      using i bit_less_64 [of q "63 + i"]
      by cases (auto simp: dw_bits bit_or_iff bit_push_bit_iff bit_drop_bit_eq simp del: push_bit_Suc)
  qed
  have 2: "dw_all (push_bit 1 (dw_high q) OR drop_bit 31 (dw_low q)) (push_bit 1 (dw_low q) OR c)
      = push_bit 1 q OR ucast c" for q and c :: u32
  proof (rule u64_eqI)
    fix i :: nat assume i: "i < 64"
    consider "i = 0" | "0 < i" "i < 32" | "i = 32" | "32 < i" by linarith
    then show "bit (dw_all (push_bit 1 (dw_high q) OR drop_bit 31 (dw_low q)) (push_bit 1 (dw_low q) OR c)) i
        = bit (push_bit 1 q OR ucast c) i"
      using i by cases (auto simp: dw_bits bit_or_iff bit_push_bit_iff bit_drop_bit_eq bit_ucast_iff
          simp del: push_bit_Suc dest: bit_imp_le_length)
  qed
  show ?thesis
    unfolding div_step_def Let_def 1 unfolding 2 ..
qed

lemma unat_shift_in:
  fixes r q :: u64
  shows "2 * unat r + unat q div 2 ^ 63 < 2 ^ 64 \<Longrightarrow>
    unat (push_bit 1 r OR drop_bit 63 q) = 2 * unat r + unat q div 2 ^ 63"
proof -
  assume lt: "2 * unat r + unat q div 2 ^ 63 < 2 ^ 64"
  have "push_bit 1 r OR drop_bit 63 q = push_bit 1 r + drop_bit 63 q"
  proof (rule disjunctive_add [symmetric])
    fix n
    show "\<not> bit (push_bit 1 r) n \<or> \<not> bit (drop_bit 63 q) n"
      unfolding bit_push_bit_iff bit_drop_bit_eq comp_def using bit_less_64 [of q "63 + n"] by (cases n) auto
  qed
  also have "\<dots> = of_nat (2 * unat r + unat q div 2 ^ 63)"
    unfolding unat_drop_bit [of 63 q, symmetric] by (simp add: push_bit_eq_mult)
  finally have e: "push_bit 1 r OR drop_bit 63 q = of_nat (2 * unat r + unat q div 2 ^ 63)" .
  show ?thesis
    unfolding e unat_of_nat using lt by (simp add: take_bit_nat_eq_self)
qed

lemma bit_01: "unat c < 2 \<Longrightarrow> c = 0 \<or> c = 1" for c :: "'a::len word"
proof -
  assume "unat c < 2"
  then have "unat c = 0 \<or> unat c = 1"
    by linarith
  then show ?thesis
    unfolding word_unat_eq_iff by simp
qed

lemma unat_shift_carry:
  fixes q :: u64 and c :: u32
  assumes "unat c < 2"
  shows "unat (push_bit 1 q OR ucast c) = (2 * unat q + unat c) mod 2 ^ 64"
proof -
  have c: "(ucast c :: u64) = of_nat (unat c)"
    by simp
  have "push_bit 1 q OR ucast c = push_bit 1 q + ucast c"
  proof (rule disjunctive_add [symmetric])
    fix n
    show "\<not> bit (push_bit 1 q) n \<or> \<not> bit (ucast c :: u64) n"
      unfolding bit_push_bit_iff using bit_01 [OF assms] by (cases n) (auto simp: bit_1_iff)
  qed
  also have "\<dots> = of_nat (2 * unat q + unat c)"
    unfolding c by (simp add: push_bit_eq_mult)
  finally have e: "push_bit 1 q OR ucast c = of_nat (2 * unat q + unat c)" .
  show ?thesis
    unfolding e unat_of_nat by (simp add: take_bit_eq_mod)
qed

lemma sign_mask: "signed_drop_bit 63 (w :: u64) = (if 2 ^ 63 \<le> unat w then - 1 else 0)"
proof -
  have "bit w 63 \<longleftrightarrow> 2 ^ 63 \<le> unat w"
  proof -
    have "bit w 63 = bit (unat w) 63"
      by (simp add: bit_unsigned_iff)
    then have "bit w 63 \<longleftrightarrow> odd (unat w div 2 ^ 63)"
      unfolding bit_iff_odd [of "unat w"] .
    moreover have "unat w div 2 ^ 63 < 2"
      using unsigned_less [of w, where 'a = nat] by (simp add: div_less_iff_less_mult)
    ultimately show ?thesis
      by (auto simp: less_2_cases_iff div_eq_0_iff not_less)
  qed
  moreover have "signed_drop_bit 63 w = (if bit w 63 then - 1 else 0)"
    by (rule u64_eqI) (auto simp: bit_signed_drop_bit_iff not_le)
  ultimately show ?thesis
    by simp
qed

text \<open>The sign of \<open>d - r - 1\<close> compares \<open>r\<close> with \<open>d\<close>, as long as the difference fits into 63 bits.\<close>

lemma compare_mask:
  fixes d r :: u64
  assumes "unat d \<le> 2 ^ 63 \<or> 2 ^ 63 \<le> unat r" "unat r < 2 * unat d"
  shows "signed_drop_bit 63 (d - r - 1) = (if unat d \<le> unat r then - 1 else 0)"
proof -
  have lt: "unat d < 2 ^ 64" "unat r < 2 ^ 64"
    using unsigned_less [of d, where 'a = nat] unsigned_less [of r, where 'a = nat] by simp_all
  have p: "(2 :: nat) ^ 64 = 2 * 2 ^ 63"
    by simp
  let ?m = "2 ^ 64 + unat d - unat r - 1"
  have "of_nat ?m = (of_nat (2 ^ 64) + d - r - 1 :: u64)"
    using lt by (simp add: of_nat_diff)
  then have "d - r - 1 = of_nat ?m"
    by simp
  then have u: "unat (d - r - 1) = ?m mod 2 ^ 64"
    by (simp add: unat_of_nat take_bit_eq_mod)
  have "2 ^ 63 \<le> ?m mod 2 ^ 64 \<longleftrightarrow> unat d \<le> unat r"
  proof (cases "unat d \<le> unat r")
    case True
    then have "?m mod 2 ^ 64 = ?m"
      using lt by (intro mod_less) linarith
    moreover have "2 ^ 63 \<le> ?m"
      using assms(1)
    proof
      assume "unat d \<le> 2 ^ 63"
      then show ?thesis using assms(2) p True by linarith
    next
      assume "2 ^ 63 \<le> unat r"
      have "2 ^ 63 \<le> unat d \<or> unat d < 2 ^ 63" by linarith
      then show ?thesis using assms(2) p True lt by linarith
    qed
    ultimately show ?thesis
      using True by simp
  next
    case False
    then have "?m = 2 ^ 64 + (unat d - unat r - 1)"
      by linarith
    then have "?m mod 2 ^ 64 = unat d - unat r - 1"
      using lt by (simp only: mod_add_self1) (intro mod_less, linarith)
    moreover have "unat d - unat r - 1 < 2 ^ 63"
      using assms(1) p False lt by linarith
    ultimately show ?thesis
      using False by simp
  qed
  then show ?thesis
    by (simp add: sign_mask u)
qed

lemma div_step_nat:
  fixes d st
  defines "r \<equiv> 2 * unat (d_r st) + unat (d_q st) div 2 ^ 63"
  assumes "r < 2 ^ 64" "r < 2 * unat d" "unat d \<le> 2 ^ 63 \<or> 2 ^ 63 \<le> r" "unat (d_carry st) < 2"
  shows "unat (d_r (div_step d st)) = (if unat d \<le> r then r - unat d else r)"
    "unat (d_q (div_step d st)) = (2 * unat (d_q st) + unat (d_carry st)) mod 2 ^ 64"
    "unat (d_carry (div_step d st)) = (if unat d \<le> r then 1 else 0)"
proof -
  define rw where "rw = push_bit 1 (d_r st) OR drop_bit 63 (d_q st)"
  have r: "unat rw = r"
    using unat_shift_in [of "d_r st" "d_q st"] assms(2) by (simp only: r_def rw_def)
  have s: "signed_drop_bit 63 (d - rw - 1) = (if unat d \<le> r then - 1 else 0)"
    using compare_mask [of d rw] assms(3,4) by (simp only: r)
  have e: "div_step d st = \<lparr>d_r = (if unat d \<le> r then rw - d else rw),
      d_q = push_bit 1 (d_q st) OR ucast (d_carry st), d_carry = (if unat d \<le> r then 1 else 0)\<rparr>"
    unfolding div_step_words Let_def rw_def [symmetric] s by simp
  have "unat (rw - d) = r - unat d" if "unat d \<le> r"
    using unat_sub [of d rw] that by (simp add: word_le_nat_alt r)
  then show "unat (d_r (div_step d st)) = (if unat d \<le> r then r - unat d else r)"
    by (simp add: e r)
  show "unat (d_q (div_step d st)) = (2 * unat (d_q st) + unat (d_carry st)) mod 2 ^ 64"
    using unat_shift_carry [OF assms(5), of "d_q st"] by (simp add: e)
  show "unat (d_carry (div_step d st)) = (if unat d \<le> r then 1 else 0)"
    by (simp add: e)
qed

text \<open>
  The invariant of the loop with \<open>s\<close> bits to go, for a dividend \<open>N\<close> and a divisor \<open>D\<close>: the remainder and
  the quotient \<open>X\<close> of the bits of \<open>N\<close> seen so far. The bits to come are at the top of \<open>q\<close>, the quotient
  without its last bit at the bottom; the last bit is the carry.
\<close>

definition div_inv :: "nat \<Rightarrow> nat \<Rightarrow> nat \<Rightarrow> div_state \<Rightarrow> bool" where
  "div_inv N D s st \<longleftrightarrow> (let X = N div 2 ^ s div D in
     unat (d_r st) = N div 2 ^ s mod D \<and> unat (d_carry st) = X mod 2
     \<and> unat (d_q st) = N mod 2 ^ s * 2 ^ (64 - s) + X div 2 \<and> X div 2 < 2 ^ (64 - s))"

lemma top_bit:
  fixes N X :: nat
  assumes "s < 63" "X < 2 ^ (63 - s)"
  shows "(N mod 2 ^ Suc s * 2 ^ (63 - s) + X) div 2 ^ 63 = N div 2 ^ s mod 2"
proof -
  have e: "(2 :: nat) ^ 63 = 2 ^ (63 - s) * 2 ^ s"
    using assms(1) by (simp flip: power_add)
  have "(N mod 2 ^ Suc s * 2 ^ (63 - s) + X) div 2 ^ (63 - s) = N mod 2 ^ Suc s"
    using assms(2) by simp
  then have "(N mod 2 ^ Suc s * 2 ^ (63 - s) + X) div 2 ^ 63 = N mod 2 ^ Suc s div 2 ^ s"
    unfolding e div_mult2_eq by (simp only:)
  also have "\<dots> = N div 2 ^ s mod 2"
    unfolding mod_pow_Suc by simp
  finally show ?thesis .
qed

lemma shifted_quotient:
  fixes N X :: nat
  assumes "s < 63" "X < 2 ^ (64 - s)"
  shows "(2 * (N mod 2 ^ Suc s * 2 ^ (63 - s) + X div 2) + X mod 2) mod 2 ^ 64
    = N mod 2 ^ s * 2 ^ (64 - s) + X"
proof -
  have e: "(2 :: nat) ^ 64 = 2 ^ s * 2 ^ (64 - s)" "2 * (2 :: nat) ^ (63 - s) = 2 ^ (64 - s)"
    using assms(1) by (simp_all flip: power_add power_Suc add: Suc_diff_le)
  have "2 * (N mod 2 ^ Suc s * 2 ^ (63 - s) + X div 2) + X mod 2 = N mod 2 ^ Suc s * (2 * 2 ^ (63 - s)) + X"
    by (simp add: algebra_simps)
  also have "\<dots> = 2 ^ 64 * (N div 2 ^ s mod 2) + (N mod 2 ^ s * 2 ^ (64 - s) + X)"
    unfolding e mod_pow_Suc by (simp add: algebra_simps)
  finally have "(2 * (N mod 2 ^ Suc s * 2 ^ (63 - s) + X div 2) + X mod 2) mod 2 ^ 64
      = (N mod 2 ^ s * 2 ^ (64 - s) + X) mod 2 ^ 64"
    by (simp only: mod_mult_self4)
  moreover have "N mod 2 ^ s * 2 ^ (64 - s) + X < 2 ^ 64"
  proof -
    have "N mod 2 ^ s + 1 \<le> 2 ^ s"
      by (simp add: Suc_leI)
    then have "(N mod 2 ^ s + 1) * 2 ^ (64 - s) \<le> 2 ^ s * 2 ^ (64 - s)"
      by (rule mult_le_mono1)
    then show ?thesis
      using assms(2) unfolding e(1) by (simp add: algebra_simps)
  qed
  ultimately show ?thesis
    by (simp only: mod_less)
qed

lemma div_inv_step:
  assumes inv: "div_inv N (unat d) (Suc s) st" and s: "s < 63" and N: "N < 2 ^ 64" and d: "d \<noteq> 0"
    and c: "unat d \<le> 2 ^ 63 \<or> s = 0 \<and> 2 ^ 63 \<le> N"
  shows "div_inv N (unat d) s (div_step d st)"
proof -
  let ?D = "unat d"
  let ?Y = "N div 2 ^ Suc s"
  let ?X = "?Y div ?D"
  let ?b = "N div 2 ^ s mod 2"
  let ?r = "2 * (?Y mod ?D) + ?b"
  have D: "0 < ?D"
    using d by (simp add: unat_gt_0)
  have i: "unat (d_r st) = ?Y mod ?D" "unat (d_carry st) = ?X mod 2"
    "unat (d_q st) = N mod 2 ^ Suc s * 2 ^ (63 - s) + ?X div 2" "?X div 2 < 2 ^ (63 - s)"
    using inv by (simp_all only: div_inv_def Let_def diff_Suc_Suc numeral_eq_Suc, simp_all)
  have top: "unat (d_q st) div 2 ^ 63 = ?b"
    unfolding i(3) by (rule top_bit [OF s i(4)])
  have y: "N div 2 ^ s = 2 * ?Y + ?b"
    unfolding power_Suc2 div_mult2_eq by simp
  have "?b < 2"
    by simp
  note digit = long_division_digit [OF D this, of ?Y, folded y]
  have r: "?r < 2 ^ 64 \<and> (?D \<le> 2 ^ 63 \<or> 2 ^ 63 \<le> ?r)"
  proof (cases "?D \<le> 2 ^ 63")
    case True
    then show ?thesis
      using digit(3) by auto
  next
    case False
    then have sN: "s = 0" "2 ^ 63 \<le> N"
      using c by auto
    then have "?Y mod ?D = N div 2"
      using False N by auto
    then have "?r = N"
      using sN(1) by simp
    then show ?thesis
      using sN(2) N by simp
  qed
  have e: "2 * unat (d_r st) + unat (d_q st) div 2 ^ 63 = ?r"
    unfolding i(1) top ..
  have c2: "unat (d_carry st) < 2"
    by (simp add: i(2))
  note step = div_step_nat [of st d, unfolded e, OF conjunct1 [OF r] digit(3) conjunct2 [OF r] c2]
  have "?X < 2 ^ (64 - s)"
  proof -
    have "64 - s = Suc (63 - s)"
      using s by simp
    then show ?thesis
      using i(4) by simp
  qed
  note q = shifted_quotient [OF s this, of N]
  have "N div 2 ^ s div ?D div 2 = ?X"
    unfolding digit(1) by simp
  then show ?thesis
    unfolding div_inv_def Let_def step
    using digit(1,2) q i(2,3) \<open>?X < 2 ^ (64 - s)\<close> by simp
qed

lemma div_loop_inv:
  assumes "div_inv N (unat d) s st" "s \<le> 63" "N < 2 ^ 64" "d \<noteq> 0" "unat d \<le> 2 ^ 63 \<or> s \<le> 1 \<and> 2 ^ 63 \<le> N"
  shows "div_inv N (unat d) 0 (div_loop s d st)"
  using assms
proof (induction s arbitrary: st)
  case 0
  then show ?case by simp
next
  case (Suc s)
  have "div_inv N (unat d) s (div_step d st)"
    using Suc.prems by (intro div_inv_step) auto
  then show ?case
    using Suc.IH [of "div_step d st"] Suc.prems by auto
qed

lemma unat_push_top:
  fixes n :: u64
  assumes "m \<le> 64"
  shows "unat (push_bit (64 - m) n) = unat n mod 2 ^ m * 2 ^ (64 - m)"
proof -
  have "unat (push_bit (64 - m) n) = take_bit 64 (push_bit (64 - m) (unat n))"
    by (simp add: unsigned_push_bit_eq)
  also have "\<dots> = unat n * 2 ^ (64 - m) mod (2 ^ m * 2 ^ (64 - m))"
    using assms by (simp add: take_bit_eq_mod push_bit_eq_mult flip: power_add)
  also have "\<dots> = unat n mod 2 ^ m * 2 ^ (64 - m)"
    by (simp only: mult_mod_left)
  finally show ?thesis .
qed

lemma u64_less: "unat (w :: u64) < 2 ^ 64"
  using unsigned_less [of w, where 'a = nat] by simp

lemma div_long_correct:
  fixes n d :: u64
  assumes n: "msb_at n kn" and d: "msb_at d kd" and sr: "kd \<le> kn" "unat sr = kn - kd + 1" "unat sr \<le> 63"
  shows "div_long sr d (push_bit (64 - unat sr) n) (drop_bit (unat sr) n) = (n div d, n mod d)"
proof -
  let ?N = "unat n"
  let ?D = "unat d"
  let ?st = "\<lparr>d_r = drop_bit (unat sr) n, d_q = push_bit (64 - unat sr) n, d_carry = 0\<rparr>"
  have d0: "d \<noteq> 0" "0 < ?D"
    using d by (auto simp: msb_at_def unat_gt_0)
  have "kd + unat sr = Suc kn"
    using sr(1,2) by simp
  then have "?N < 2 ^ kd * 2 ^ unat sr"
    using n unfolding msb_at_def power_add [symmetric] by simp
  then have "?N div 2 ^ unat sr < 2 ^ kd"
    by (simp add: div_less_iff_less_mult)
  then have lt: "?N div 2 ^ unat sr < ?D"
    using d unfolding msb_at_def by linarith
  have "div_inv ?N ?D (unat sr) ?st"
    using lt sr(3) by (simp add: div_inv_def unat_drop_bit unat_push_top)
  moreover have "?D \<le> 2 ^ 63 \<or> unat sr \<le> 1 \<and> 2 ^ 63 \<le> ?N"
  proof (cases "?D \<le> 2 ^ 63")
    case False
    then have "(2 :: nat) ^ 63 < 2 ^ Suc kd"
      using d unfolding msb_at_def by linarith
    then have "63 < Suc kd"
      by (rule power_less_imp_less_exp [rotated]) simp
    moreover have "(2 :: nat) ^ kn < 2 ^ 64"
      using n u64_less [of n] unfolding msb_at_def by linarith
    then have "kn < 64"
      by (rule power_less_imp_less_exp [rotated]) simp
    ultimately have "kd = 63" "kn = 63"
      using sr(1) by linarith+
    then show ?thesis
      using n sr(2) by (simp add: msb_at_def)
  qed simp
  ultimately have inv: "div_inv ?N ?D 0 (div_loop (unat sr) d ?st)"
    using sr(3) u64_less d0(1) by (intro div_loop_inv) auto
  let ?e = "div_loop (unat sr) d ?st"
  have e: "unat (d_r ?e) = ?N mod ?D" "unat (d_carry ?e) = ?N div ?D mod 2" "unat (d_q ?e) = ?N div ?D div 2"
    using inv by (simp_all add: div_inv_def Let_def)
  have "unat (push_bit 1 (d_q ?e) OR ucast (d_carry ?e)) = ?N div ?D"
  proof -
    have "?N div ?D < 2 ^ 64"
      using u64_less [of n] by (meson div_le_dividend le_less_trans)
    then show ?thesis
      using unat_shift_carry [of "d_carry ?e" "d_q ?e"] unfolding e by simp
  qed
  then show ?thesis
    unfolding div_long_def Let_def prod.inject word_unat_eq_iff using e(1)
    by (simp add: unat_div unat_mod_distrib)
qed

section \<open>The cases of the division\<close>

lemma unat_ucast_64: "unat (ucast (w :: u32) :: u64) = unat w"
proof -
  have "unat w < 2 ^ LENGTH(32)"
    by (rule unsigned_less)
  then show ?thesis
    by (simp add: unsigned_ucast_eq take_bit_nat_eq_self)
qed

lemma unat_dw_all: "unat (dw_all h l) = unat h * 2 ^ 32 + unat l"
proof -
  have lt: "unat h < 2 ^ LENGTH(32)" "unat l < 2 ^ LENGTH(32)"
    by (rule unsigned_less)+
  have "dw_all h l = push_bit 32 (ucast h) + ucast l"
    unfolding dw_all_def
    by (rule disjunctive_add [symmetric]) (auto simp: bit_push_bit_iff bit_ucast_iff dest: bit_imp_le_length)
  also have "\<dots> = of_nat (unat h * 2 ^ 32 + unat l)"
    by (simp add: push_bit_eq_mult)
  finally have e: "dw_all h l = of_nat (unat h * 2 ^ 32 + unat l)" .
  show ?thesis
    unfolding e unat_of_nat using lt by (simp add: take_bit_nat_eq_self)
qed

lemma unat_halves: "unat w = unat (dw_high w) * 2 ^ 32 + unat (dw_low w)"
  using unat_dw_all [of "dw_high w" "dw_low w"] by simp

lemma low_less: "unat (l :: u32) < 2 ^ 32"
  using unsigned_less [of l, where 'a = nat] by simp

lemma msb_high: "msb_at (dw_high w) k \<Longrightarrow> msb_at w (k + 32)"
proof -
  assume "msb_at (dw_high w) k"
  then have h: "2 ^ k \<le> unat (dw_high w)" "unat (dw_high w) + 1 \<le> 2 ^ Suc k"
    by (auto simp: msb_at_def)
  have "2 ^ k * 2 ^ 32 \<le> unat (dw_high w) * 2 ^ 32" "(unat (dw_high w) + 1) * 2 ^ 32 \<le> 2 ^ Suc k * 2 ^ 32"
    using h by (auto intro: mult_le_mono1 simp del: power_Suc)
  then show ?thesis
    using low_less [of "dw_low w"] unfolding msb_at_def unat_halves [of w] power_add power_Suc by auto
qed

lemma msb_low: "dw_high w = 0 \<Longrightarrow> msb_at (dw_low w) k \<Longrightarrow> msb_at w k"
  using unat_halves [of w] by (simp add: msb_at_def)

lemma msb_less: "msb_at n kn \<Longrightarrow> msb_at d kd \<Longrightarrow> kn < kd \<Longrightarrow> unat n < unat d"
proof -
  assume a: "msb_at n kn" "msb_at d kd" "kn < kd"
  have "(2 :: nat) ^ Suc kn \<le> 2 ^ kd"
    using a(3) by (intro power_increasing) simp_all
  then show ?thesis
    using a(1,2) unfolding msb_at_def by linarith
qed

lemma clz_diff:
  assumes "msb_at d kd" "msb_at n kn" "kd < 32" "kn < 32"
  shows "unat (clzsi2 d - clzsi2 n) = (if kd \<le> kn then kn - kd else 2 ^ 32 - (kd - kn))"
proof -
  have "clzsi2 d - clzsi2 n = of_nat (31 - kd) - of_nat (31 - kn)"
    using assms by (simp only: clzsi2_msb)
  also have "\<dots> = of_nat (2 ^ 32 + kn - kd)"
    using assms(3,4) by (simp add: of_nat_diff)
  finally have e: "clzsi2 d - clzsi2 n = of_nat (2 ^ 32 + kn - kd)" .
  show ?thesis
  proof (cases "kd \<le> kn")
    case True
    then have eq: "2 ^ 32 + kn - kd = 2 ^ 32 + (kn - kd)"
      by simp
    have "kn - kd < 2 ^ 32"
      using assms(4) by simp
    then have m: "(2 ^ 32 + (kn - kd)) mod 2 ^ 32 = kn - kd"
      by (simp only: mod_add_self1 mod_less)
    have "LENGTH(32) = (32 :: nat)"
      by simp
    then show ?thesis
      unfolding e eq unat_of_nat take_bit_eq_mod using True m by (simp only: if_True)
  next
    case False
    then show ?thesis
      unfolding e unat_of_nat take_bit_eq_mod using assms(3) by simp
  qed
qed

lemma msb_bit: "msb_at x k \<Longrightarrow> bit x k" for x :: "'a::len word"
proof -
  assume k: "msb_at x k"
  then have "unat x div 2 ^ k = 1"
    by (auto simp: msb_at_def intro!: div_nat_eqI)
  then have "bit (unat x) k"
    by (simp add: bit_iff_odd)
  then show ?thesis
    by (simp add: bit_unsigned_iff)
qed

lemma power_of_2:
  fixes x :: u32
  assumes "x AND (x - 1) = 0" "msb_at x k"
  shows "unat x = 2 ^ k"
proof (rule ccontr)
  assume "unat x \<noteq> 2 ^ k"
  then have gt: "2 ^ k < unat x"
    using assms(2) by (simp add: msb_at_def)
  then have "x \<noteq> 0"
    by auto
  then have "unat (x - 1) = unat x - 1"
    by (simp add: unat_minus_one)
  then have "msb_at (x - 1) k"
    using gt assms(2) by (auto simp: msb_at_def)
  then have "bit (x AND (x - 1)) k"
    using msb_bit assms(2) by (auto simp: bit_and_iff)
  then show False
    by (simp add: assms(1))
qed

end
