(* ===== verification/Klib_Div.thy ===== *)
theory Klib_Div
  imports Klib_Int64
begin

text \<open>
  Correctness of the 64-bit division of \<open>abstract-machine/klib/src/int64.c\<close>: every case of \<open>__udivmoddi4\<close>
  returns the quotient and the remainder, and the signed entry points built on it truncate towards zero.
\<close>

section \<open>Unsigned division, case by case\<close>

lemma div_pairI:
  "unat q = unat n div unat d \<Longrightarrow> unat r = unat n mod unat d \<Longrightarrow> (q, r) = (n div d, n mod d)"
  for q r n d :: u64
  by (simp add: word_unat_eq_iff unat_div unat_mod_distrib)

lemma div_less_pair: "unat n < unat d \<Longrightarrow> (0, n) = (n div d, n mod d)" for n d :: u64
  by (rule div_pairI) simp_all

lemma word_pow2: "unat x = 2 ^ k \<Longrightarrow> k < 32 \<Longrightarrow> x = 2 ^ k" for x :: u32
  unfolding word_unat_eq_iff by (simp add: unat_pow2)

lemma ctz_pow2: "unat x = 2 ^ k \<Longrightarrow> k < 32 \<Longrightarrow> unat (ctzsi2 x) = k"
proof -
  assume k: "unat x = 2 ^ k" "k < 32"
  have "lsb_at x k"
    unfolding word_pow2 [OF k] using k(2) by (simp add: lsb_at_def bit_simps)
  then have "ctzsi2 x = of_nat k"
    using k(2) by (rule ctzsi2_lsb)
  then show ?thesis
    using k(2) by (simp add: unat_of_nat take_bit_nat_eq_self)
qed

lemma and_pow2_minus_1:
  fixes w x :: u32
  assumes "unat x = 2 ^ k" "k < 32"
  shows "unat (w AND (x - 1)) = unat w mod 2 ^ k"
proof -
  have "w AND (x - 1) = take_bit k w"
    unfolding word_pow2 [OF assms] by (simp add: take_bit_eq_mask mask_eq_exp_minus_1)
  then have "unat (w AND (x - 1)) = take_bit k (unat w)"
    by (simp only: unsigned_take_bit_eq)
  then show ?thesis
    by (simp only: take_bit_eq_mod)
qed

lemma shifted_div:
  fixes h l m :: nat
  assumes "l < 2 ^ 32" "0 < m"
  shows "(h * 2 ^ 32 + l) div (m * 2 ^ 32) = h div m" "(h * 2 ^ 32 + l) mod (m * 2 ^ 32) = h mod m * 2 ^ 32 + l"
proof -
  have d: "(h * 2 ^ 32 + l) div 2 ^ 32 = h" and r: "(h * 2 ^ 32 + l) mod 2 ^ 32 = l"
    using assms(1) by simp_all
  have c: "m * 2 ^ 32 = 2 ^ 32 * m"
    by (rule mult.commute)
  show "(h * 2 ^ 32 + l) div (m * 2 ^ 32) = h div m"
    unfolding c div_mult2_eq d ..
  show "(h * 2 ^ 32 + l) mod (m * 2 ^ 32) = h mod m * 2 ^ 32 + l"
    unfolding c mod_mult2_eq d r by simp
qed

lemma msb_halves:
  assumes "dw_high w \<noteq> 0"
  obtains k where "msb_at (dw_high w) k" "k < 32" "msb_at w (k + 32)"
  using msb_exists [OF assms] msb_high by auto

text \<open>The two cases that compare the high halves.\<close>

lemma div_high_case:
  assumes "dw_high n \<noteq> 0" "dw_high d \<noteq> 0"
  defines "sr \<equiv> clzsi2 (dw_high d) - clzsi2 (dw_high n)"
  shows "sr > 31 \<Longrightarrow> unat n < unat d"
    "\<not> sr > 31 \<Longrightarrow> unat (sr + 1) \<le> 32 \<and> 0 < unat (sr + 1)
       \<and> div_long (sr + 1) d (push_bit (64 - unat (sr + 1)) n) (drop_bit (unat (sr + 1)) n) = (n div d, n mod d)"
proof -
  obtain kn where n: "msb_at (dw_high n) kn" "kn < 32" "msb_at n (kn + 32)"
    using msb_halves [OF assms(1)] by metis
  obtain kd where d: "msb_at (dw_high d) kd" "kd < 32" "msb_at d (kd + 32)"
    using msb_halves [OF assms(2)] by metis
  have sr: "unat sr = (if kd \<le> kn then kn - kd else 2 ^ 32 - (kd - kn))"
    unfolding sr_def by (rule clz_diff [OF d(1) n(1) d(2) n(2)])
  have gt: "sr > 31 \<longleftrightarrow> kn < kd"
    using n(2) d(2) by (auto simp: word_less_nat_alt sr)
  show "sr > 31 \<Longrightarrow> unat n < unat d"
    using msb_less [OF n(3) d(3)] gt by simp
  assume "\<not> sr > 31"
  then have le: "kd \<le> kn"
    using gt by simp
  then have "unat sr = kn - kd"
    by (simp add: sr)
  then have s1: "unat (sr + 1) = kn - kd + 1"
    using n(2) by (simp add: unat_word_ariths)
  then show "unat (sr + 1) \<le> 32 \<and> 0 < unat (sr + 1)
       \<and> div_long (sr + 1) d (push_bit (64 - unat (sr + 1)) n) (drop_bit (unat (sr + 1)) n) = (n div d, n mod d)"
    using div_long_correct [OF n(3) d(3), of "sr + 1"] le n(2) by simp
qed

lemma not_pow2_msb: "msb_at x k \<Longrightarrow> x AND (x - 1) \<noteq> 0 \<Longrightarrow> 0 < k" for x :: u32
  using bit_01 [of x] by (cases k) (auto simp: msb_at_def)

text \<open>A divisor below 2^32 that is no power of two.\<close>

lemma div_low_case:
  assumes "dw_high n \<noteq> 0" "dw_high d = 0" "dw_low d \<noteq> 0" "dw_low d AND (dw_low d - 1) \<noteq> 0"
  defines "sr \<equiv> 1 + 32 + clzsi2 (dw_low d) - clzsi2 (dw_high n)"
  shows "0 < unat sr \<and> unat sr < 64
     \<and> div_long sr d (push_bit (64 - unat sr) n) (drop_bit (unat sr) n) = (n div d, n mod d)"
proof -
  obtain kn where n: "msb_at (dw_high n) kn" "kn < 32" "msb_at n (kn + 32)"
    using msb_halves [OF assms(1)] by metis
  obtain kd where d: "msb_at (dw_low d) kd" "kd < 32" "msb_at d kd"
    using msb_exists [OF assms(3)] msb_low [OF assms(2)] by auto
  have "kd \<noteq> 0"
    using not_pow2_msb [OF d(1) assms(4)] by simp
  have "sr = 33 + (clzsi2 (dw_low d) - clzsi2 (dw_high n))"
    by (simp add: sr_def)
  then have "unat sr = (33 + unat (clzsi2 (dw_low d) - clzsi2 (dw_high n))) mod 2 ^ 32"
    by (simp add: unat_word_ariths)
  moreover have "(33 + (if kd \<le> kn then kn - kd else 2 ^ 32 - (kd - kn))) mod 2 ^ 32 = kn + 32 - kd + 1"
  proof (cases "kd \<le> kn")
    case False
    then have e: "33 + (2 ^ 32 - (kd - kn)) = 2 ^ 32 + (kn + 32 - kd + 1)"
      using d(2) by simp
    have "kn + 32 - kd + 1 < 2 ^ 32"
      using n(2) by simp
    then show ?thesis
      unfolding if_not_P [OF False] e mod_add_self1 by (rule mod_less)
  qed (use n(2) in simp)
  ultimately have sr: "unat sr = kn + 32 - kd + 1"
    unfolding clz_diff [OF d(1) n(1) d(2) n(2)] by (rule trans)
  then show ?thesis
    using div_long_correct [OF n(3) d(3) _ sr] n(2) d(2) \<open>kd \<noteq> 0\<close> by simp
qed

lemma unat_low_word: "dw_high w = 0 \<Longrightarrow> unat w = unat (dw_low w)"
  using unat_halves [of w] by simp

lemma unat_high_word: "dw_low w = 0 \<Longrightarrow> unat w = unat (dw_high w) * 2 ^ 32"
  using unat_halves [of w] by simp

text \<open>A power of two in the high and in the low half.\<close>

lemma div_pow2_high:
  assumes "dw_low d = 0" "dw_high d \<noteq> 0" "dw_high d AND (dw_high d - 1) = 0"
  shows "(ucast (drop_bit (unat (ctzsi2 (dw_high d))) (dw_high n)), dw_all (dw_high n AND (dw_high d - 1)) (dw_low n))
    = (n div d, n mod d)"
proof -
  obtain k where k: "unat (dw_high d) = 2 ^ k" "k < 32"
    using msb_halves [OF assms(2)] power_of_2 [OF assms(3)] by metis
  note d = unat_high_word [OF assms(1), unfolded k(1)]
  show ?thesis
    by (rule div_pairI)
       (simp_all only: unat_ucast_64 unat_drop_bit ctz_pow2 [OF k] unat_dw_all and_pow2_minus_1 [OF k] d
         unat_halves [of n] shifted_div [OF low_less, of "2 ^ k"] zero_less_power zero_less_numeral)
qed

lemma div_pow2_low:
  assumes "dw_high d = 0" "dw_low d \<noteq> 0" "dw_low d AND (dw_low d - 1) = 0"
  defines "sr \<equiv> unat (ctzsi2 (dw_low d))"
  shows "(dw_all (drop_bit sr (dw_high n)) (push_bit (32 - sr) (dw_high n) OR drop_bit sr (dw_low n)),
      ucast (dw_low n AND (dw_low d - 1))) = (n div d, n mod d)"
proof -
  obtain k where m: "msb_at (dw_low d) k" "k < 32"
    using msb_exists [OF assms(2)] by auto
  have k: "unat (dw_low d) = 2 ^ k"
    by (rule power_of_2 [OF assms(3) m(1)])
  have sr: "sr = k"
    unfolding sr_def by (rule ctz_pow2 [OF k m(2)])
  have "(2 :: nat) ^ k dvd 2 ^ 32"
    using m(2) by (intro le_imp_power_dvd) simp
  then have "unat n mod 2 ^ k = unat (dw_low n) mod 2 ^ k"
    unfolding unat_halves [of n] by (metis dvd_mult mod_add_left_eq add_0 mod_0_imp_dvd dvd_imp_mod_0)
  then show ?thesis
    using m(2) drop_halves [of k n] unfolding sr
    by (intro div_pairI) (simp_all add: unat_ucast_64 unat_drop_bit and_pow2_minus_1 [OF k]
        unat_low_word [OF assms(1)] k)
qed

lemma shift_eq:
  assumes "unat sr < 64"
  shows "(if sr = 32 then shift_word n else if sr < 32 then shift_short n sr else shift_far n sr)
    = (push_bit (64 - unat sr) n, drop_bit (unat sr) n)"
proof -
  have "sr = 32 \<longleftrightarrow> unat sr = 32" "sr < 32 \<longleftrightarrow> unat sr < 32"
    by (simp_all add: word_unat_eq_iff word_less_nat_alt)
  then show ?thesis
    using assms shift_short_eq [of sr n] shift_far_eq [of sr n] by (auto simp: shift_word_eq)
qed

lemma shift_eq_32:
  "unat sr \<le> 32 \<Longrightarrow> (if sr = 32 then shift_word n else shift_short n sr) = (push_bit (64 - unat sr) n, drop_bit (unat sr) n)"
  using shift_eq [of sr n] by (auto simp: word_unat_eq_iff word_less_nat_alt)

text \<open>Without its low half the divisor is a power of two or the difference of the counts is below 31.\<close>

lemma div_high_range:
  assumes "dw_high n \<noteq> 0" "dw_high d AND (dw_high d - 1) \<noteq> 0"
  shows "clzsi2 (dw_high d) - clzsi2 (dw_high n) > 30 \<longleftrightarrow> clzsi2 (dw_high d) - clzsi2 (dw_high n) > 31"
proof -
  obtain kn where n: "msb_at (dw_high n) kn" "kn < 32"
    using msb_exists [OF assms(1)] by auto
  have "dw_high d \<noteq> 0"
    using assms(2) by auto
  then obtain kd where d: "msb_at (dw_high d) kd" "kd < 32"
    using msb_exists by fastforce
  have "0 < kd"
    by (rule not_pow2_msb [OF d(1) assms(2)])
  then show ?thesis
    using n(2) d(2) unfolding word_less_nat_alt clz_diff [OF d(1) n(1) d(2) n(2)] by auto
qed

section \<open>Unsigned division\<close>

lemma udivmoddi4_eq:
  assumes "d \<noteq> 0"
  shows "udivmoddi4 n d = Some (n div d, n mod d)"
proof -
  have nz: "dw_high d = 0 \<Longrightarrow> dw_low d \<noteq> 0"
    using assms dw_all_halves [of d] unfolding dw_all_def by auto
  consider (ll) "dw_high n = 0" "dw_high d = 0" | (lh) "dw_high n = 0" "dw_high d \<noteq> 0"
    | (h0) "dw_high n \<noteq> 0" "dw_low d = 0" "dw_high d \<noteq> 0" "dw_low n = 0"
    | (hp) "dw_high n \<noteq> 0" "dw_low d = 0" "dw_high d \<noteq> 0" "dw_low n \<noteq> 0" "dw_high d AND (dw_high d - 1) = 0"
    | (hh) "dw_high n \<noteq> 0" "dw_low d = 0" "dw_high d \<noteq> 0" "dw_low n \<noteq> 0" "dw_high d AND (dw_high d - 1) \<noteq> 0"
    | (l1) "dw_high n \<noteq> 0" "dw_high d = 0" "dw_low d = 1"
    | (lp) "dw_high n \<noteq> 0" "dw_high d = 0" "dw_low d \<noteq> 0" "dw_low d \<noteq> 1" "dw_low d AND (dw_low d - 1) = 0"
    | (l) "dw_high n \<noteq> 0" "dw_high d = 0" "dw_low d \<noteq> 0" "dw_low d AND (dw_low d - 1) \<noteq> 0"
    | (h) "dw_high n \<noteq> 0" "dw_high d \<noteq> 0" "dw_low d \<noteq> 0"
    using nz by blast
  then show ?thesis
  proof cases
    case ll
    then have "(ucast (dw_low n div dw_low d), ucast (dw_low n mod dw_low d)) = (n div d, n mod d)"
      by (intro div_pairI) (simp_all add: unat_ucast_64 unat_div unat_mod_distrib unat_low_word)
    then show ?thesis
      using ll nz by (simp add: udivmoddi4_def div32_def)
  next
    case lh
    have "unat n < unat d"
    proof -
      have "1 \<le> unat (dw_high d)"
        using lh(2) by (simp add: unat_gt_0 Suc_leI)
      then have "2 ^ 32 \<le> unat d"
        unfolding unat_halves [of d] by simp
      then show ?thesis
        using low_less [of "dw_low n"] unat_low_word [OF lh(1)] by simp
    qed
    moreover have "ucast (dw_low n) = n"
      unfolding word_unat_eq_iff using unat_low_word [OF lh(1)] by (simp add: unat_ucast_64)
    ultimately show ?thesis
      using lh div_less_pair [of n d] by (simp add: udivmoddi4_def)
  next
    case h0
    have "0 < unat (dw_high d)"
      using h0(3) by (simp add: unat_gt_0)
    then have "(ucast (dw_high n div dw_high d), dw_all (dw_high n mod dw_high d) 0) = (n div d, n mod d)"
      using shifted_div [of 0 "unat (dw_high d)" "unat (dw_high n)"]
      by (intro div_pairI) (simp_all add: unat_ucast_64 unat_div unat_mod_distrib unat_dw_all
          unat_high_word [OF h0(2)] unat_high_word [OF h0(4)])
    then show ?thesis
      using h0 by (simp add: udivmoddi4_def div32_def)
  next
    case hp
    then show ?thesis
      using div_pow2_high [of d n] by (simp add: udivmoddi4_def)
  next
    case hh
    let ?sr = "clzsi2 (dw_high d) - clzsi2 (dw_high n)"
    note range = div_high_range [OF hh(1,5)] and long = div_high_case [OF hh(1,3)]
    show ?thesis
    proof (cases "?sr > 30")
      case True
      then show ?thesis
        using hh range long(1) div_less_pair [of n d] by (simp add: udivmoddi4_def Let_def)
    next
      case False
      then have "unat ?sr \<le> 30"
        by (simp add: word_less_nat_alt)
      then have "unat (?sr + 1) < 32"
        by (simp add: unat_word_ariths)
      then show ?thesis
        using False hh range long(2) by (simp add: udivmoddi4_def Let_def shift_short_eq)
    qed
  next
    case l1
    then have "(n, ucast (dw_low n AND (dw_low d - 1))) = (n div d, n mod d)"
      by (intro div_pairI) (simp_all add: unat_low_word)
    then show ?thesis
      using l1 by (simp add: udivmoddi4_def)
  next
    case lp
    then show ?thesis
      using div_pow2_low [of d n] by (simp add: udivmoddi4_def Let_def)
  next
    case l
    let ?sr = "1 + 32 + clzsi2 (dw_low d) - clzsi2 (dw_high n)"
    note long = div_low_case [OF l]
    have "(if ?sr = 32 then shift_word n else if ?sr < 32 then shift_short n ?sr else shift_far n ?sr)
        = (push_bit (64 - unat ?sr) n, drop_bit (unat ?sr) n)"
      using long by (intro shift_eq) simp
    then show ?thesis
      using l long unfolding udivmoddi4_def Let_def by (simp only: if_False if_True simp_thms prod.case)
  next
    case h
    let ?sr = "clzsi2 (dw_high d) - clzsi2 (dw_high n)"
    note long = div_high_case [OF h(1,2)]
    show ?thesis
    proof (cases "?sr > 31")
      case True
      then show ?thesis
        using h long(1) div_less_pair [of n d] by (simp add: udivmoddi4_def Let_def)
    next
      case False
      have "(if ?sr + 1 = 32 then shift_word n else shift_short n (?sr + 1))
          = (push_bit (64 - unat (?sr + 1)) n, drop_bit (unat (?sr + 1)) n)"
        using long(2) [OF False] by (intro shift_eq_32) simp
      then show ?thesis
        using False h long(2) [OF False] unfolding udivmoddi4_def Let_def
        by (simp only: if_False simp_thms prod.case) simp
    qed
  qed
qed

lemma udivmoddi4_zero: "udivmoddi4 n 0 = None"
  by (simp add: udivmoddi4_def dw_high_def dw_low_def div32_def Let_def)

text \<open>
  C11. The 64-bit division of the runtime library is division: for every divisor other than 0 \<open>__udivmoddi4\<close>
  returns the quotient and the remainder of the two unsigned operands, through whichever of its special
  cases or its shift-and-subtract loop it goes, and \<open>__udivdi3\<close> and \<open>__umoddi3\<close> return the two
  halves of the result. Only a zero divisor reaches a division by zero.
\<close>

theorem udivmoddi4_correct:
  "udivmoddi4 a b = (if b = 0 then None else Some (a div b, a mod b))
   \<and> udivdi3 a b = (if b = 0 then None else Some (a div b))
   \<and> umoddi3 a b = (if b = 0 then None else Some (a mod b))"
  by (simp add: udivmoddi4_eq udivmoddi4_zero udivdi3_def umoddi3_def)

section \<open>Signed division\<close>

lemma sign_cond: "signed_drop_bit 63 (w :: u64) = (if sint w < 0 then - 1 else 0)"
proof -
  have "bit w 63 \<longleftrightarrow> sint w < 0"
    using bit_last_iff [of w] by simp
  moreover have "signed_drop_bit 63 w = (if bit w 63 then - 1 else 0)"
    by (rule u64_eqI) (auto simp: bit_signed_drop_bit_iff not_le)
  ultimately show ?thesis
    by simp
qed

lemma cond_negate: "(w XOR (if c then - 1 else 0)) - (if c then - 1 else 0) = (if c then - w else w)" for w :: u64
  by (simp add: not_eq_complement)

lemma divdi3_eq:
  assumes "b \<noteq> 0"
  shows "divdi3 a b = Some (word_of_int (sint a sdiv sint b))"
proof -
  have b: "(if sint b < 0 then - b else b) \<noteq> 0"
    using assms by simp
  have x: "(if c then - 1 else 0) XOR (if d then - 1 else 0) = (if c \<noteq> d then - 1 else 0 :: u64)" for c d
    by auto
  show ?thesis
    unfolding divdi3_def Let_def sign_cond cond_negate x udivmoddi4_eq [OF b] option.map prod.case abs_div_words
    by (auto simp: signed_divide_int_def sgn_if)
qed

lemma moddi3_eq:
  assumes "b \<noteq> 0"
  shows "moddi3 a b = Some (word_of_int (sint a smod sint b))"
proof -
  have b: "(if sint b < 0 then - b else b) \<noteq> 0"
    using assms by simp
  show ?thesis
    unfolding moddi3_def Let_def sign_cond cond_negate udivmoddi4_eq [OF b] option.map prod.case abs_div_words
    by (auto simp: signed_modulo_int_def sgn_if)
qed

lemma sint_exact: "- (2 ^ 63) \<le> k \<Longrightarrow> k < 2 ^ 63 \<Longrightarrow> sint (word_of_int k :: u64) = k"
  by (simp add: signed_of_int signed_take_bit_int_eq_self)

lemma sint_bounds: "- (2 ^ 63) \<le> sint (w :: u64)" "sint (w :: u64) < 2 ^ 63"
  using sint_greater_eq [of w] sint_less [of w] by simp_all

lemma sdiv_exact:
  fixes a b :: u64
  assumes "a \<noteq> 2 ^ 63 \<or> b \<noteq> - 1"
  shows "sint (word_of_int (sint a sdiv sint b) :: u64) = sint a sdiv sint b"
proof (rule sint_exact)
  have r: "- \<bar>sint a\<bar> \<le> sint a sdiv sint b" "sint a sdiv sint b \<le> \<bar>sint a\<bar>"
    using sdiv_int_range [of "sint a" "sint b"] by auto
  show "- (2 ^ 63) \<le> sint a sdiv sint b"
    using r(1) sint_bounds [of a] by linarith
  have "sint a sdiv sint b \<noteq> 2 ^ 63"
  proof
    assume e: "sint a sdiv sint b = 2 ^ 63"
    then have a: "sint a = - (2 ^ 63)"
      using r(2) sint_bounds [of a] by linarith
    then have "sint b = - 1"
      using e int_sdiv_negated_is_minus1 [of "sint a" "sint b"] by simp
    then have "word_of_int (sint b) = (word_of_int (- 1) :: u64)" "word_of_int (sint a) = (word_of_int (- (2 ^ 63)) :: u64)"
      using a by simp_all
    then have "b = - 1" "a = 2 ^ 63"
      by simp_all
    then show False
      using assms by simp
  qed
  then show "sint a sdiv sint b < 2 ^ 63"
    using r(2) sint_bounds [of a] by linarith
qed

lemma smod_exact:
  fixes a b :: u64
  assumes "b \<noteq> 0"
  shows "sint (word_of_int (sint a smod sint b) :: u64) = sint a smod sint b"
proof (rule sint_exact)
  have "sint b \<noteq> 0"
    using assms by (metis signed_0 signed_word_eqI)
  then have "- \<bar>sint b\<bar> + 1 \<le> sint a smod sint b" "sint a smod sint b \<le> \<bar>sint b\<bar> - 1"
    using smod_int_range [of "sint b" "sint a"] by auto
  then show "- (2 ^ 63) \<le> sint a smod sint b" "sint a smod sint b < 2 ^ 63"
    using sint_bounds [of b] by linarith+
qed

lemma divmoddi4_eq:
  assumes "b \<noteq> 0"
  shows "divmoddi4 a b = Some (word_of_int (sint a sdiv sint b), word_of_int (sint a smod sint b))"
proof -
  have "word_of_int (sint a smod sint b) = (word_of_int (sint a - sint a sdiv sint b * sint b) :: u64)"
    by (simp only: minus_sdiv_mult_eq_smod)
  also have "\<dots> = a - word_of_int (sint a sdiv sint b) * b"
    by simp
  finally show ?thesis
    by (simp add: divmoddi4_def divdi3_eq [OF assms])
qed

text \<open>
  C12. The signed entry points truncate towards zero as C demands: \<open>__divdi3\<close> returns the quotient \<open>sdiv\<close> of the two
  signed values, \<open>__moddi3\<close> the remainder \<open>smod\<close>, which takes the sign of the dividend, and \<open>__divmoddi4\<close> both.
  The results are exact except for the one quotient that 64 bits cannot hold, the smallest value
  divided by -1, which wraps around to the smallest value.
\<close>

theorem signed_division:
  assumes "b \<noteq> 0"
  shows "divdi3 a b = Some (word_of_int (sint a sdiv sint b))
    \<and> moddi3 a b = Some (word_of_int (sint a smod sint b))
    \<and> divmoddi4 a b = Some (word_of_int (sint a sdiv sint b), word_of_int (sint a smod sint b))
    \<and> (a \<noteq> 2 ^ 63 \<or> b \<noteq> - 1 \<longrightarrow> sint (the (divdi3 a b)) = sint a sdiv sint b)
    \<and> sint (the (moddi3 a b)) = sint a smod sint b
    \<and> divdi3 (2 ^ 63) (- 1) = Some (2 ^ 63)"
  using assms sdiv_exact [of a b] smod_exact [of b a] divdi3_eq [of "- 1" "2 ^ 63"]
  by (simp add: divdi3_eq moddi3_eq divmoddi4_eq)

theorem signed_division_witness:
  "divdi3 (- 7) 2 = Some (- 3) \<and> moddi3 (- 7) 2 = Some (- 1) \<and> divmoddi4 (- 7) 2 = Some (- 3, - 1)"
proof -
  have "(2 :: u64) \<noteq> 0"
    by simp
  from signed_division [OF this, of "- 7"] show ?thesis
    by (simp add: signed_divide_int_def signed_modulo_int_def)
qed

section \<open>Bit counts\<close>

lemma unat_u32_of_nat: "n < 2 ^ 32 \<Longrightarrow> unat (of_nat n :: u32) = n"
  by (simp add: unat_of_nat take_bit_nat_eq_self)

lemma clzdi2_msb: "msb_at a k \<Longrightarrow> k < 64 \<Longrightarrow> unat (clzdi2 a) = 63 - k"
proof -
  assume a: "msb_at a k" "k < 64"
  show ?thesis
  proof (cases "dw_high a = 0")
    case True
    have m: "msb_at (dw_low a) k"
      using a(1) unat_low_word [OF True] by (simp add: msb_at_def)
    have "(2 :: nat) ^ k < 2 ^ 32"
      using m low_less [of "dw_low a"] unfolding msb_at_def by linarith
    then have k: "k < 32"
      by (rule power_less_imp_less_exp [rotated]) simp
    have "clzdi2 a = of_nat (31 - k + 32)"
      using True clzsi2_msb [OF m k] by (simp add: clzdi2_def neg_cond_def)
    then show ?thesis
      using k unat_u32_of_nat [of "31 - k + 32"] by simp
  next
    case False
    obtain j where j: "msb_at (dw_high a) j" "j < 32" "msb_at a (j + 32)"
      using msb_halves [OF False] by metis
    have "k = j + 32"
      using msb_less [OF a(1) j(3)] msb_less [OF j(3) a(1)] by (metis less_irrefl nat_neq_iff)
    moreover have "clzdi2 a = of_nat (31 - j)"
      using False clzsi2_msb [OF j(1,2)] by (simp add: clzdi2_def neg_cond_def)
    ultimately show ?thesis
      using j(2) unat_u32_of_nat [of "31 - j"] by simp
  qed
qed

lemma lsb_unique: "lsb_at a j \<Longrightarrow> lsb_at a k \<Longrightarrow> j = k"
  unfolding lsb_at_def by (metis nat_neq_iff)

lemma ctzdi2_lsb: "lsb_at a k \<Longrightarrow> unat (ctzdi2 a) = k"
proof -
  assume a: "lsb_at a k"
  have k: "k < 64"
    using a bit_less_64 by (auto simp: lsb_at_def)
  show ?thesis
  proof (cases "dw_low a = 0")
    case False
    then obtain j where j: "lsb_at (dw_low a) j" "j < 32"
      using lsb_exists by fastforce
    have "lsb_at a j"
      using j by (auto simp: lsb_at_def bit_dw_low)
    then have "j = k"
      using a by (rule lsb_unique)
    moreover have "ctzdi2 a = of_nat j"
      using False ctzsi2_lsb [OF j] by (simp add: ctzdi2_def neg_cond_def)
    ultimately show ?thesis
      using j(2) unat_u32_of_nat [of j] by simp
  next
    case True
    then have l: "\<not> bit a i" if "i < 32" for i
      using bit_dw_low [of a i] that by simp
    then have k32: "32 \<le> k"
      using a by (auto simp: lsb_at_def not_le [symmetric])
    then have j: "lsb_at (dw_high a) (k - 32)"
      using a k by (auto simp: lsb_at_def bit_dw_high)
    have "ctzdi2 a = of_nat (k - 32 + 32)"
      using True k ctzsi2_lsb [OF j] by (simp add: ctzdi2_def neg_cond_def)
    then show ?thesis
      using k k32 unat_u32_of_nat [of k] by simp
  qed
qed

text \<open>
  C13. The bit counts stay in range and are exact: for a value other than 0 \<open>__clzdi2\<close> and \<open>__ctzdi2\<close>
  are below 64, bit \<open>63 - __clzdi2\<close> is the highest and bit \<open>__ctzdi2\<close> the lowest set bit.
\<close>

theorem bit_counts:
  assumes "a \<noteq> 0"
  shows "unat (clzdi2 a) < 64 \<and> 2 ^ (63 - unat (clzdi2 a)) \<le> unat a \<and> unat a < 2 ^ (64 - unat (clzdi2 a))
    \<and> unat (ctzdi2 a) < 64 \<and> bit a (unat (ctzdi2 a)) \<and> list_all (\<lambda>j. \<not> bit a j) [0..<unat (ctzdi2 a)]"
proof -
  obtain k where k: "msb_at a k" "k < 64"
    using msb_exists [OF assms] by auto
  obtain j where j: "lsb_at a j" "j < 64"
    using lsb_exists [OF assms] by auto
  have "64 - (63 - k) = Suc k"
    using k(2) by simp
  then show ?thesis
    unfolding clzdi2_msb [OF k] ctzdi2_lsb [OF j(1)]
    using k j by (auto simp: msb_at_def lsb_at_def list_all_iff)
qed

theorem bit_counts_witness: "2 ^ (63 - unat (clzdi2 0x1000000010)) \<le> unat (0x1000000010 :: u64)
  \<and> bit (0x1000000010 :: u64) (unat (ctzdi2 0x1000000010))"
proof -
  have "(0x1000000010 :: u64) \<noteq> 0"
    by simp
  from bit_counts [OF this] show ?thesis
    by blast
qed

end
