(* ===== verification/Core_State.thy ===== *)
theory Core_State
  imports Xaccel_Scan
begin

text \<open>
  The state-machine benchmark of CoreMark, \<open>jyd-tests/coremark-official/src/core_state.c\<close>:
  \<open>core_init_state\<close> fills a block with number tokens, \<open>core_bench_state\<close> scans it, corrupts every
  \<open>step\<close>-th byte, scans it again and undoes the corruption. The lemmas show that the scans end inside the
  block, and for which seeds the block is restored. Byte memory is a function from the address, as in
  the theory of the scanner.
\<close>

section \<open>The benchmark\<close>

text \<open>The loop \<open>while (*p != 0)\<close> over the tokens; the arrays \<open>final_counts\<close> and \<open>track_counts\<close>.\<close>

partial_function (option) scan_input ::
  "(u32 \<Rightarrow> u8) \<Rightarrow> u32 \<Rightarrow> counts \<Rightarrow> counts \<Rightarrow> (counts \<times> counts) option" where
  "scan_input mem p final_counts track_counts =
     (if mem p = 0 then Some (final_counts, track_counts)
      else Option.bind (core_state_transition mem p track_counts) (\<lambda>(fstate, p, track_counts).
             scan_input mem p (inc (unat fstate) final_counts) track_counts))"

text \<open>The loop that exclusive-ors a seed into every \<open>step\<close>-th byte that is not a comma.\<close>

definition corrupt_byte :: "u8 \<Rightarrow> u8 \<Rightarrow> u8" where
  "corrupt_byte seed b = (if b \<noteq> 0x2c then b XOR seed else b)"

partial_function (option) corrupt :: "u8 \<Rightarrow> u32 \<Rightarrow> u32 \<Rightarrow> u32 \<Rightarrow> (u32 \<Rightarrow> u8) \<Rightarrow> (u32 \<Rightarrow> u8) option" where
  "corrupt seed step lim p mem =
     (if p < lim then corrupt seed step lim (p + step) (mem(p := corrupt_byte seed (mem p)))
      else Some mem)"

definition core_bench_state ::
  "u32 \<Rightarrow> u32 \<Rightarrow> u16 \<Rightarrow> u16 \<Rightarrow> u16 \<Rightarrow> u16 \<Rightarrow> (u32 \<Rightarrow> u8) \<Rightarrow> (u16 \<times> (u32 \<Rightarrow> u8)) option" where
  "core_bench_state blksize memblock seed1 seed2 step crc mem =
     Option.bind (scan_input mem memblock (\<lambda>_. 0) (\<lambda>_. 0)) (\<lambda>(final_counts, track_counts).
     Option.bind (corrupt (ucast seed1) (scast step) (memblock + blksize) memblock mem) (\<lambda>mem.
     Option.bind (scan_input mem memblock final_counts track_counts) (\<lambda>(final_counts, track_counts).
     Option.bind (corrupt (ucast seed2) (scast step) (memblock + blksize) memblock mem) (\<lambda>mem.
     Some (foldl (\<lambda>crc i. crcu32 (track_counts i) (crcu32 (final_counts i) crc)) crc [0..<8], mem)))))"

section \<open>The input\<close>

definition ascii :: "string \<Rightarrow> u8 list" where
  "ascii s = map of_char s"

definition intpat :: "u8 list list" where
  "intpat = map ascii [''5012'', ''1234'', ''-874'', ''+122'']"

definition floatpat :: "u8 list list" where
  "floatpat = map ascii [''35.54400'', ''.1234500'', ''-110.700'', ''+0.64400'']"

definition scipat :: "u8 list list" where
  "scipat = map ascii [''5.500e+3'', ''-.123e-2'', ''-87e+832'', ''+0.6e-12'']"

definition errpat :: "u8 list list" where
  "errpat = map ascii [''T0.3e-1F'', ''-T.T++Tq'', ''1T3.4e4z'', ''34.0e-T^'']"

text \<open>The \<open>switch (seed & 0x7)\<close>: the new \<open>buf\<close> and \<open>next\<close>.\<close>

definition init_pick :: "u16 \<Rightarrow> u8 list \<times> u32" where
  "init_pick seed =
     (let k = seed AND 7; i = unat (signed_drop_bit 3 seed AND 3)
      in if k \<le> 2 then (intpat ! i, 4)
         else if k \<le> 4 then (floatpat ! i, 8)
         else if k \<le> 6 then (scipat ! i, 8)
         else (errpat ! i, 8))"

definition copy_buf :: "u32 \<Rightarrow> u32 \<Rightarrow> u8 list \<Rightarrow> (u32 \<Rightarrow> u8) \<Rightarrow> (u32 \<Rightarrow> u8)" where
  "copy_buf q next buf mem = foldl (\<lambda>mem i. mem(q + of_nat i := buf ! i)) mem [0..<unat next]"

partial_function (option) init_loop ::
  "u32 \<Rightarrow> u32 \<Rightarrow> u16 \<Rightarrow> u32 \<Rightarrow> u32 \<Rightarrow> u8 list \<Rightarrow> (u32 \<Rightarrow> u8) \<Rightarrow> (u32 \<times> (u32 \<Rightarrow> u8)) option" where
  "init_loop p size' seed total' next buf mem =
     (if total' + next + 1 < size'
      then let (total', mem) =
                 (if next > 0 then (total' + (next + 1), (copy_buf (p + total') next buf mem)(p + total' + next := 0x2c))
                  else (total', mem));
               seed = seed + 1;
               (buf, next) = init_pick seed
           in init_loop p size' seed total' next buf mem
      else Some (total', mem))"

definition core_init_state :: "u32 \<Rightarrow> u16 \<Rightarrow> u32 \<Rightarrow> (u32 \<Rightarrow> u8) \<Rightarrow> (u32 \<Rightarrow> u8) option" where
  "core_init_state size' seed p mem =
     map_option (\<lambda>(total', mem). foldl (\<lambda>mem i. mem(p + of_nat i := 0)) mem [unat total'..<unat size'])
       (init_loop p (size' - 1) seed 0 0 [] mem)"

section \<open>The scans end at a NUL byte\<close>

lemma core_state_loop_ends:
  assumes "mem (str + of_nat k) = 0" "\<forall>i \<le> k. mem' (str + of_nat i) = mem (str + of_nat i)"
  shows "\<exists>s d u. core_state_loop mem str state t = Some (s, str + of_nat d, u)
    \<and> core_state_loop mem' str state t = Some (s, str + of_nat d, u)
    \<and> d \<le> k \<and> (mem str \<noteq> 0 \<longrightarrow> state \<noteq> 1 \<longrightarrow> 0 < d)"
  using assms
proof (induction k arbitrary: str state t)
  case 0
  then show ?case by (auto simp: core_loop_unfold [of _ str] intro!: exI [of _ 0])
next
  case (Suc k)
  let ?s = "fst (core_switch state (mem str) t)" and ?t = "snd (core_switch state (mem str) t)"
  have same: "mem' str = mem str"
    using spec [OF Suc.prems(2), of 0] by simp
  have "mem (str + 1 + of_nat k) = 0"
    using Suc.prems(1) by (simp add: add.assoc)
  moreover have "mem' (str + 1 + of_nat i) = mem (str + 1 + of_nat i)" if "i \<le> k" for i
    using spec [OF Suc.prems(2), of "Suc i"] that by (simp add: add.assoc)
  ultimately have "mem (str + 1 + of_nat k) = 0" "\<forall>i \<le> k. mem' (str + 1 + of_nat i) = mem (str + 1 + of_nat i)"
    by blast+
  from Suc.IH [OF this, of ?s ?t] obtain s d u where d:
    "core_state_loop mem (str + 1) ?s ?t = Some (s, str + 1 + of_nat d, u)"
    "core_state_loop mem' (str + 1) ?s ?t = Some (s, str + 1 + of_nat d, u)" "d \<le> k"
    by blast
  consider "mem str = 0 \<or> state = 1" | "mem str = 0x2c" "state \<noteq> 1" | "mem str \<noteq> 0" "state \<noteq> 1" "mem str \<noteq> 0x2c"
    by blast
  then show ?case
  proof cases
    case 1
    then show ?thesis
      using same by (auto simp: core_loop_unfold [of _ str] intro!: exI [of _ 0])
  next
    case 2
    then show ?thesis
      using same by (auto simp: core_loop_unfold [of _ str] intro!: exI [of _ 1])
  next
    case 3
    then show ?thesis
      using same d by (auto simp: core_loop_unfold [of _ str] add.assoc intro!: exI [of _ "Suc d"])
  qed
qed

lemma scan_input_ends:
  assumes "mem (p + of_nat k) = 0" "\<forall>i \<le> k. mem' (p + of_nat i) = mem (p + of_nat i)"
  shows "\<exists>r. scan_input mem p final track = Some r \<and> scan_input mem' p final track = Some r"
  using assms
proof (induction k arbitrary: p final track rule: less_induct)
  case (less k)
  have same: "mem' p = mem p"
    using spec [OF less.prems(2), of 0] by simp
  show ?case
  proof (cases "mem p = 0")
    case True
    then show ?thesis
      using same by (simp add: scan_input.simps [of _ p])
  next
    case False
    obtain s d u where d: "core_state_loop mem p 0 track = Some (s, p + of_nat d, u)"
        "core_state_loop mem' p 0 track = Some (s, p + of_nat d, u)" "d \<le> k" "0 < d"
      using core_state_loop_ends [OF less.prems, of 0 track] False by auto
    have "mem (p + of_nat d + of_nat (k - d)) = 0"
      using less.prems(1) d(3) by (simp add: add.assoc flip: of_nat_add)
    moreover have "\<forall>i \<le> k - d. mem' (p + of_nat d + of_nat i) = mem (p + of_nat d + of_nat i)"
    proof (intro allI impI)
      fix i assume "i \<le> k - d"
      then show "mem' (p + of_nat d + of_nat i) = mem (p + of_nat d + of_nat i)"
        using spec [OF less.prems(2), of "d + i"] d(3) by (simp add: add.assoc)
    qed
    ultimately have "\<exists>r. scan_input mem (p + of_nat d) (inc (unat s) final) u = Some r
        \<and> scan_input mem' (p + of_nat d) (inc (unat s) final) u = Some r"
      using less.IH [of "k - d" "p + of_nat d"] d by simp
    then show ?thesis
      using False same d by (simp add: scan_input.simps [of _ p] core_state_transition_def)
  qed
qed

section \<open>Corruption\<close>

definition corrupted :: "u8 \<Rightarrow> nat \<Rightarrow> u32 \<Rightarrow> u32 \<Rightarrow> (u32 \<Rightarrow> u8) \<Rightarrow> u32 \<Rightarrow> u8" where
  "corrupted seed step p lim mem a =
     (if p \<le> a \<and> a < lim \<and> (unat a - unat p) mod step = 0 then corrupt_byte seed (mem a) else mem a)"

lemma corrupt_corrupted:
  assumes "0 < unat step" "unat lim + unat step < 2 ^ 32"
  shows "corrupt seed step lim p mem = Some (corrupted seed (unat step) p lim mem)"
proof (induction "unat lim - unat p" arbitrary: p mem rule: less_induct)
  case less
  show ?case
  proof (cases "p < lim")
    case False
    then show ?thesis
      by (auto simp: corrupt.simps [of _ _ _ p] corrupted_def fun_eq_iff)
  next
    case True
    then have le: "unat p < unat lim"
      by (simp add: word_less_nat_alt)
    have np: "unat (p + step) = unat p + unat step"
      using le assms(2) by (simp add: unat_word_ariths)
    let ?m = "mem(p := corrupt_byte seed (mem p))"
    have "corrupt seed step lim p mem = Some (corrupted seed (unat step) (p + step) lim ?m)"
      using True less.hyps [of "p + step" ?m] le np assms(1) by (simp add: corrupt.simps [of _ _ _ p])
    also have "corrupted seed (unat step) (p + step) lim ?m = corrupted seed (unat step) p lim mem"
    proof
      fix a
      have "unat p \<le> unat a \<Longrightarrow> unat a - unat p < unat step \<Longrightarrow> (unat a - unat p) mod unat step = 0 \<longleftrightarrow> a = p"
        by (auto simp: word_unat_eq_iff)
      moreover have "unat p + unat step \<le> unat a \<Longrightarrow>
          (unat a - unat p) mod unat step = (unat a - (unat p + unat step)) mod unat step"
        using le_mod_geq [of "unat step" "unat a - unat p"] by (simp add: diff_diff_add)
      ultimately show "corrupted seed (unat step) (p + step) lim ?m a = corrupted seed (unat step) p lim mem a"
        using True assms(1) unfolding corrupted_def word_le_nat_alt word_less_nat_alt np
        by (cases "unat a < unat p"; cases "unat p + unat step \<le> unat a"; cases "a = p") auto
    qed
    finally show ?thesis .
  qed
qed

lemma corrupt_byte_twice:
  assumes "b = 0x2c XOR seed \<longrightarrow> seed = 0"
  shows "corrupt_byte seed (corrupt_byte seed b) = b"
proof -
  have "b XOR seed = 0x2c \<Longrightarrow> b = 0x2c XOR seed"
    by (metis xor.assoc xor_self_eq xor.right_neutral)
  then show ?thesis
    using assms by (auto simp: corrupt_byte_def xor.assoc)
qed

lemma corrupted_twice:
  assumes "\<And>a. p \<le> a \<Longrightarrow> a < lim \<Longrightarrow> mem a = 0x2c XOR seed \<Longrightarrow> seed = 0"
  shows "corrupted seed step p lim (corrupted seed step p lim mem) = mem"
  using assms by (auto simp: corrupted_def fun_eq_iff corrupt_byte_twice)

text \<open>
  The second corruption undoes the first only when no byte turns into a comma: the digit 0 and equal seeds
  0x1c leave a comma.
\<close>

lemma corrupt_not_undone: "corrupt_byte 0x1c (corrupt_byte 0x1c 0x30) = 0x2c"
  by (simp add: corrupt_byte_def)

text \<open>Of two adjacent NUL bytes, a step of at least two leaves one.\<close>

lemma corrupted_keeps_nul:
  assumes "2 \<le> step" "mem a = 0" "mem (a + 1) = 0" "p \<le> a" "unat a + 1 < 2 ^ 32"
  shows "corrupted seed step p lim mem a = 0 \<or> corrupted seed step p lim mem (a + 1) = 0"
proof -
  have a: "unat (a + 1) = unat a + 1" "unat p \<le> unat a"
    using assms(4,5) by (simp_all add: unat_word_ariths word_le_nat_alt)
  have "\<not> ((unat a - unat p) mod step = 0 \<and> (unat a + 1 - unat p) mod step = 0)"
    using assms(1) a(2) by (auto simp: Suc_diff_le mod_Suc split: if_splits)
  then show ?thesis
    using assms(2,3) a by (auto simp: corrupted_def)
qed

definition state_block :: "u32 \<Rightarrow> u32 \<Rightarrow> (u32 \<Rightarrow> u8) \<Rightarrow> bool" where
  "state_block blksize memblock mem \<longleftrightarrow> unat memblock + unat blksize + 256 \<le> 2 ^ 32
     \<and> (\<exists>k. Suc k < unat blksize \<and> mem (memblock + of_nat k) = 0 \<and> mem (memblock + of_nat (Suc k)) = 0)"

lemma sint_small:
  assumes "unat (d :: u16) < 256"
  shows "sint d = int (unat d)"
proof -
  have "int (unat d) < 256"
    using assms by linarith
  then have u: "uint d < 256" "0 \<le> uint d"
    by (simp_all only: uint_nat of_nat_0_le_iff)
  have "signed_take_bit 15 (uint d) = uint d"
    using u(1) by (intro signed_take_bit_int_eq_self order_trans [OF _ u(2)]) simp_all
  then show ?thesis
    by (simp add: sint_uint)
qed

lemma unat_step: "unat (scast step :: u32) = unat step" if "unat (step :: u16) < 256"
proof -
  have "(scast step :: u32) = of_nat (unat step)"
    using sint_small [OF that] by (simp add: scast_eq)
  then show ?thesis
    using that by (simp add: unsigned_ucast_eq take_bit_nat_eq_self)
qed

lemma core_bench_state_runs:
  assumes "state_block blksize memblock mem" "2 \<le> unat step" "unat step < 256"
  shows "\<exists>crc'. core_bench_state blksize memblock seed1 seed2 step crc mem =
    Some (crc', corrupted (ucast seed2) (unat step) memblock (memblock + blksize)
      (corrupted (ucast seed1) (unat step) memblock (memblock + blksize) mem))"
proof -
  obtain k where k: "Suc k < unat blksize" "mem (memblock + of_nat k) = 0" "mem (memblock + of_nat (Suc k)) = 0"
    and room: "unat memblock + unat blksize + 256 \<le> 2 ^ 32"
    using assms(1) by (auto simp: state_block_def)
  let ?lim = "memblock + blksize"
  let ?mem = "corrupted (ucast seed1) (unat step) memblock ?lim mem"
  have lim: "unat ?lim + unat (scast step :: u32) < 2 ^ 32" "0 < unat (scast step :: u32)"
    using room assms(2,3) by (simp_all add: unat_step unat_word_ariths)
  have a: "unat (memblock + of_nat k) = unat memblock + k"
    using room k(1) by (simp add: unat_word_ariths unat_of_nat take_bit_eq_mod)
  have "?mem (memblock + of_nat k) = 0 \<or> ?mem (memblock + of_nat k + 1) = 0"
    using corrupted_keeps_nul [of "unat step" mem "memblock + of_nat k" memblock] k room a assms(2)
    by (simp add: word_le_nat_alt ac_simps)
  then have "\<exists>k'. ?mem (memblock + of_nat k') = 0"
  proof
    assume "?mem (memblock + of_nat k + 1) = 0"
    then have "?mem (memblock + of_nat (k + 1)) = 0"
      by (simp only: of_nat_add of_nat_1 add.assoc)
    then show ?thesis by (rule exI)
  qed (rule exI)
  then obtain k' where "?mem (memblock + of_nat k') = 0" ..
  then have "\<exists>r. scan_input ?mem memblock final track = Some r" for final track
    using scan_input_ends [of ?mem memblock k' ?mem] by blast
  moreover obtain f t where "scan_input mem memblock (\<lambda>_. 0) (\<lambda>_. 0) = Some (f, t)"
    using scan_input_ends [of mem memblock k mem] k(2) by fastforce
  ultimately obtain f t f' t' where scans: "scan_input mem memblock (\<lambda>_. 0) (\<lambda>_. 0) = Some (f, t)"
      "scan_input ?mem memblock f t = Some (f', t')"
    by fastforce
  show ?thesis
    unfolding core_bench_state_def scans(1) bind.bind_lunit prod.case
      corrupt_corrupted [OF lim(2,1)] unat_step [OF assms(3)] scans(2)
    by blast
qed

section \<open>The tokens of the input\<close>

definition patterns :: "u8 list list" where
  "patterns = intpat @ floatpat @ scipat @ errpat"

definition token_bytes :: "u8 list list \<Rightarrow> u8 list" where
  "token_bytes ts = concat (map (\<lambda>t. t @ [0x2c]) ts)"

lemma token_bytes_snoc: "token_bytes (ts @ [t]) = token_bytes ts @ t @ [0x2c]"
  by (simp add: token_bytes_def)

lemma of_nat_u32_eq: "i < 2 ^ 32 \<Longrightarrow> j < 2 ^ 32 \<Longrightarrow> (of_nat i :: u32) = of_nat j \<longleftrightarrow> i = j"
  by (simp add: word_of_nat_eq_iff take_bit_nat_eq_self)

lemma fold_writes:
  assumes "n \<le> 2 ^ 32" "j < 2 ^ 32"
  shows "foldl (\<lambda>mem i. mem(q + of_nat i := f i)) mem [m..<n] (q + of_nat j :: u32) =
    (if m \<le> j \<and> j < n then f j else mem (q + of_nat j))"
  using assms(1)
proof (induction n)
  case 0
  then show ?case by simp
next
  case (Suc n)
  then show ?case
    using of_nat_u32_eq [of j n] assms(2) by auto
qed

lemma init_pick_token:
  assumes "init_pick seed = (buf, next)"
  shows "buf \<in> set patterns" "length buf = unat next" "0 < next" "unat next \<le> 8"
proof -
  have "unat (signed_drop_bit 3 seed AND 3) < 4"
    using unat_and_mask_less [of 2 "signed_drop_bit 3 seed"] by (simp add: mask_eq_exp_minus_1)
  then have "unat (signed_drop_bit 3 seed AND 3) \<in> {0, 1, 2, 3}"
    by auto
  with assms show "buf \<in> set patterns" "length buf = unat next" "0 < next" "unat next \<le> 8"
    by (auto simp: init_pick_def Let_def patterns_def intpat_def floatpat_def scipat_def errpat_def
        ascii_def split: if_splits)
qed

lemma copy_buf_writes:
  "copy_buf (p + t) next buf mem =
     foldl (\<lambda>mem i. mem(p + of_nat i := buf ! (i - unat t))) mem [unat t..<unat next + unat t]"
  by (simp add: copy_buf_def foldl_map ac_simps flip: map_add_upt)

lemma put_token:
  assumes "unat t + unat next + 1 < 2 ^ 32" "j < 2 ^ 32"
  shows "((copy_buf (p + t) next buf mem)(p + t + next := 0x2c)) (p + of_nat j) =
    (if unat t \<le> j \<and> j < unat t + unat next then buf ! (j - unat t)
     else if j = unat t + unat next then 0x2c else mem (p + of_nat j))"
proof -
  have at: "p + t + next = p + of_nat (unat t + unat next)"
    by (simp add: add.assoc)
  have "p + of_nat j = p + t + next \<longleftrightarrow> j = unat t + unat next"
    unfolding at using of_nat_u32_eq [of j "unat t + unat next"] assms by simp
  then show ?thesis
    using fold_writes [of "unat next + unat t" j p _ mem "unat t"] assms
    by (auto simp: copy_buf_writes add.commute)
qed

lemma put_token_bytes:
  assumes "unat t + unat next + 1 < 2 ^ 32" "length buf = unat next"
  shows "bytes_at ((copy_buf (p + t) next buf mem)(p + t + next := 0x2c)) p (unat t + unat next + 1) =
    bytes_at mem p (unat t) @ buf @ [0x2c]"
  by (rule nth_equalityI)
     (use assms in \<open>auto simp: bytes_at_def put_token nth_append not_less simp del: fun_upd_apply upt_Suc\<close>)

lemma bytes_at_cong:
  "(\<And>i. i < n \<Longrightarrow> mem (p + of_nat i) = mem' (p + of_nat i)) \<Longrightarrow> bytes_at mem p n = bytes_at mem' p n"
  by (simp add: bytes_at_def)

lemma init_loop_tokens:
  assumes "unat lim < 2 ^ 32 - 16" "unat t < unat lim" "unat nx \<le> 8" "length buf = unat nx"
    "0 < nx \<longrightarrow> buf \<in> set patterns" "bytes_at mem p (unat t) = token_bytes ts" "set ts \<subseteq> set patterns"
  shows "\<exists>t' mem' ts'. init_loop p lim seed t nx buf mem = Some (t', mem') \<and> unat t' < unat lim
    \<and> bytes_at mem' p (unat t') = token_bytes ts' \<and> set ts' \<subseteq> set patterns
    \<and> (\<forall>i. unat lim \<le> i \<longrightarrow> i < 2 ^ 32 \<longrightarrow> mem' (p + of_nat i) = mem (p + of_nat i))"
  using assms(2-)
proof (induction "2 * (unat lim - unat t) + (if nx = 0 then 1 else 0)" arbitrary: t nx buf mem ts seed rule: less_induct)
  case less
  have sum: "unat (t + nx + 1) = unat t + unat nx + 1" "unat (t + (nx + 1)) = unat t + unat nx + 1"
    using less.prems(1,2) assms(1) by (simp_all add: unat_word_ariths)
  show ?case
  proof (cases "t + nx + 1 < lim")
    case False
    then show ?thesis
      using less.prems by (auto simp: init_loop.simps [of _ _ _ t])
  next
    case True
    obtain buf' nx' where pick: "init_pick (seed + 1) = (buf', nx')"
      by fastforce
    note tok = init_pick_token [OF pick]
    show ?thesis
    proof (cases "nx = 0")
      case True
      then have "init_loop p lim seed t nx buf mem = init_loop p lim (seed + 1) t nx' buf' mem"
        using \<open>t + nx + 1 < lim\<close> by (simp add: init_loop.simps [of _ _ _ t] pick)
      then show ?thesis
        using less.hyps [of t nx' buf' mem ts] less.prems True tok by fastforce
    next
      case False
      define m where "m = (copy_buf (p + t) nx buf mem)(p + t + nx := 0x2c)"
      have step: "init_loop p lim seed t nx buf mem = init_loop p lim (seed + 1) (t + (nx + 1)) nx' buf' m"
        using \<open>t + nx + 1 < lim\<close> False by (simp add: init_loop.simps [of _ _ _ t] pick word_gt_0 m_def)
      have below: "unat t + unat nx + 1 < unat lim"
        using \<open>t + nx + 1 < lim\<close> sum by (simp add: word_less_nat_alt)
      have bytes: "bytes_at m p (unat (t + (nx + 1))) = token_bytes (ts @ [buf])"
        unfolding sum(2) m_def using put_token_bytes [of t nx buf p mem] less.prems(3,5) below assms(1)
        by (simp add: token_bytes_snoc)
      have toks: "set (ts @ [buf]) \<subseteq> set patterns"
        using less.prems(4,6) False by (simp add: word_gt_0)
      have meas: "2 * (unat lim - unat (t + (nx + 1))) + (if nx' = 0 then 1 else 0)
          < 2 * (unat lim - unat t) + (if nx = 0 then 1 else 0)"
        using below sum(2) False tok(3) by (auto simp: word_gt_0)
      have lt: "unat (t + (nx + 1)) < unat lim"
        using below sum(2) by simp
      have other: "m (p + of_nat i) = mem (p + of_nat i)" if "unat lim \<le> i" "i < 2 ^ 32" for i
        using put_token [of t nx i p buf mem] below that assms(1) by (simp add: m_def)
      from less.hyps [OF meas lt tok(4,2) _ bytes toks] tok(1) obtain t' mem' ts' where
        "init_loop p lim (seed + 1) (t + (nx + 1)) nx' buf' m = Some (t', mem')" "unat t' < unat lim"
        "bytes_at mem' p (unat t') = token_bytes ts'" "set ts' \<subseteq> set patterns"
        "\<forall>i. unat lim \<le> i \<longrightarrow> i < 2 ^ 32 \<longrightarrow> mem' (p + of_nat i) = m (p + of_nat i)"
        by blast
      then show ?thesis
        using step other by auto
    qed
  qed
qed

lemma init_state_tokens:
  assumes "2 \<le> unat n" "unat n < 2 ^ 32 - 16"
  obtains mem' ts z where "core_init_state n seed p mem = Some mem'"
    "bytes_at mem' p (unat n) = token_bytes ts @ replicate z 0" "set ts \<subseteq> set patterns" "2 \<le> z"
    "\<And>i. unat n \<le> i \<Longrightarrow> i < 2 ^ 32 \<Longrightarrow> mem' (p + of_nat i) = mem (p + of_nat i)"
proof -
  have n1: "unat (n - 1) = unat n - 1"
    using assms(1) by (intro unat_minus_one) (auto simp: word_unat_eq_iff)
  have "\<exists>t' mem' ts'. init_loop p (n - 1) seed 0 0 [] mem = Some (t', mem') \<and> unat t' < unat (n - 1)
      \<and> bytes_at mem' p (unat t') = token_bytes ts' \<and> set ts' \<subseteq> set patterns
      \<and> (\<forall>i. unat (n - 1) \<le> i \<longrightarrow> i < 2 ^ 32 \<longrightarrow> mem' (p + of_nat i) = mem (p + of_nat i))"
    by (rule init_loop_tokens [where ts = "[]"])
       (use assms n1 in \<open>simp_all add: bytes_at_def token_bytes_def\<close>)
  then obtain t m ts where loop: "init_loop p (n - 1) seed 0 0 [] mem = Some (t, m)" "unat t < unat (n - 1)"
      "bytes_at m p (unat t) = token_bytes ts" "set ts \<subseteq> set patterns"
      "\<forall>i. unat (n - 1) \<le> i \<longrightarrow> i < 2 ^ 32 \<longrightarrow> m (p + of_nat i) = mem (p + of_nat i)"
    by blast
  define m' where "m' = foldl (\<lambda>mem i. mem(p + of_nat i := 0)) m [unat t..<unat n]"
  have fill: "m' (p + of_nat j) = (if unat t \<le> j \<and> j < unat n then 0 else m (p + of_nat j))" if "j < 2 ^ 32" for j
    unfolding m'_def using fold_writes [of "unat n" j p "\<lambda>_. 0" m "unat t"] that assms(2) by simp
  have "bytes_at m' p (unat n) = bytes_at m p (unat t) @ replicate (unat n - unat t) 0"
    by (rule nth_equalityI)
       (use loop(2) n1 assms(2) in \<open>auto simp: bytes_at_def fill nth_append not_less\<close>)
  then show thesis
    using that [of m' ts "unat n - unat t"] loop n1 fill
    by (auto simp: core_init_state_def m'_def)
qed

definition alphabet :: "u8 list" where
  "alphabet = 0 # 0x2c # concat patterns"

lemma init_state_alphabet:
  assumes "bytes_at mem p n = token_bytes ts @ replicate z 0" "set ts \<subseteq> set patterns" "i < n"
  shows "mem (p + of_nat i) \<in> set alphabet"
proof -
  have "mem (p + of_nat i) \<in> set (bytes_at mem p n)"
    using assms(3) by (auto simp: bytes_at_def)
  then show ?thesis
    using assms(2) unfolding assms(1) by (auto simp: token_bytes_def alphabet_def split: if_splits)
qed

lemma init_state_nuls:
  assumes "bytes_at mem p n = bs @ replicate z 0" "2 \<le> z"
  shows "\<exists>k. Suc k < n \<and> mem (p + of_nat k) = 0 \<and> mem (p + of_nat (Suc k)) = 0"
proof -
  have n: "n = length bs + z"
    using arg_cong [OF assms(1), of length] by (simp add: bytes_at_def)
  have "mem (p + of_nat i) = (bs @ replicate z 0) ! i" if "i < n" for i
    using that unfolding assms(1) [symmetric] by (simp add: bytes_at_def)
  from this [of "length bs"] this [of "Suc (length bs)"] n assms(2) show ?thesis
    by (intro exI [of _ "length bs"]) (auto simp: nth_append)
qed

lemma init_state_block:
  assumes "2 \<le> unat n" "unat p + unat n + 256 \<le> 2 ^ 32"
    "(ucast seed :: u8) = 0 \<or> 0x2c XOR (ucast seed :: u8) \<notin> set alphabet"
  obtains m where "core_init_state n seed p mem = Some m" "state_block n p m"
    "\<And>a. p \<le> a \<Longrightarrow> a < p + n \<Longrightarrow> m a = 0x2c XOR ucast seed \<Longrightarrow> (ucast seed :: u8) = 0"
proof -
  have n: "unat n < 2 ^ 32 - 16"
    using assms(2) by simp
  obtain m ts z where m: "core_init_state n seed p mem = Some m"
      "bytes_at m p (unat n) = token_bytes ts @ replicate z 0" "set ts \<subseteq> set patterns" "2 \<le> z"
    by (rule init_state_tokens [OF assms(1) n, of seed p mem]) blast
  have block: "state_block n p m"
    using assms(2) init_state_nuls [OF m(2,4)] by (simp add: state_block_def)
  have clean: "(ucast seed :: u8) = 0" if "p \<le> a" "a < p + n" "m a = 0x2c XOR ucast seed" for a
  proof -
    have "unat (p + n) = unat p + unat n"
      using assms(2) by (simp add: unat_word_ariths)
    then have "m (p + of_nat (unat a - unat p)) \<in> set alphabet"
      using that by (intro init_state_alphabet [OF m(2,3)]) (auto simp: word_less_nat_alt word_le_nat_alt)
    moreover have "p + of_nat (unat a - unat p) = a"
      using that(1) by (simp add: word_le_nat_alt of_nat_diff)
    ultimately show ?thesis
      using assms(3) that(3) by auto
  qed
  show thesis
    using that [OF m(1) block clean] .
qed



end
