(* ===== verification/Core_List.thy ===== *)
theory Core_List
  imports Xaccel_List
begin

text \<open>
  The linked lists of CoreMark, \<open>jyd-tests/coremark-official/src/core_list_join.c\<close>: insertion into the
  preallocated blocks, removal and its undoing, search, and the merge sort without recursion. The heap has
  one map per field of \<open>list_head\<close> and \<open>list_data\<close>, whose blocks do not overlap; the null pointer is 0, and
  following it stops the program (\<open>Overrun\<close>). The counters of the sort stay below twice the number of
  list cells of an address space and are natural numbers. The sort is a refinement: its loops on the heap
  implement the relations \<open>merges\<close>, \<open>pass\<close> and \<open>sorts\<close> on the list of cells, and these give the stable sort
  by the key whenever the comparison is by a key.
\<close>

section \<open>Heap\<close>

record core_heap =
  h_next :: "u32 \<Rightarrow> u32"
  h_info :: "u32 \<Rightarrow> u32"
  h_data16 :: "u32 \<Rightarrow> u16"
  h_idx :: "u32 \<Rightarrow> u16"

text \<open>A computation that may not end (\<open>None\<close>) and may stop.\<close>

type_synonym 'a comp = "(err, 'a) result option"

text \<open>A comparison function gets the two data items and may change the heap.\<close>

type_synonym 'r list_cmp = "u32 \<Rightarrow> u32 \<Rightarrow> 'r core_heap_scheme \<Rightarrow> (int \<times> 'r core_heap_scheme) comp"

definition cbind :: "'a comp \<Rightarrow> ('a \<Rightarrow> 'b comp) \<Rightarrow> 'b comp" where
  "cbind m f = Option.bind m (\<lambda>r. case r of Inl e \<Rightarrow> Some (Inl e) | Inr x \<Rightarrow> f x)"

lemma cbind_simps [simp]:
  "cbind (Some (Inr x)) f = f x" "cbind (Some (Inl e)) f = Some (Inl e)" "cbind None f = None"
  by (simp_all add: cbind_def)

lemma cbind_mono [partial_function_mono]:
  assumes "mono_option m" "\<And>y. mono_option (\<lambda>f. g y f)"
  shows "mono_option (\<lambda>f. cbind (m f) (\<lambda>y. g y f))"
  unfolding cbind_def
proof (intro bind_mono assms(1))
  fix r
  show "mono_option (\<lambda>f. case r of Inl e \<Rightarrow> Some (Inl e) | Inr x \<Rightarrow> g x f)"
    by (cases r) (simp_all add: assms(2) option.const_mono)
qed

definition load_next :: "'r core_heap_scheme \<Rightarrow> u32 \<Rightarrow> u32 comp" where
  "load_next h p = (if p = 0 then Some (Inl Overrun) else Some (Inr (h_next h p)))"

definition load_info :: "'r core_heap_scheme \<Rightarrow> u32 \<Rightarrow> u32 comp" where
  "load_info h p = (if p = 0 then Some (Inl Overrun) else Some (Inr (h_info h p)))"

definition set_next :: "u32 \<Rightarrow> u32 \<Rightarrow> 'r core_heap_scheme \<Rightarrow> 'r core_heap_scheme" where
  "set_next p v h = h\<lparr>h_next := (h_next h)(p := v)\<rparr>"

definition set_info :: "u32 \<Rightarrow> u32 \<Rightarrow> 'r core_heap_scheme \<Rightarrow> 'r core_heap_scheme" where
  "set_info p v h = h\<lparr>h_info := (h_info h)(p := v)\<rparr>"

section \<open>Comparison by index\<close>

text \<open>\<open>cmp_idx\<close>; whether its argument \<open>res\<close> is the null pointer is a truth value.\<close>

definition regen_data :: "u32 \<Rightarrow> 'r core_heap_scheme \<Rightarrow> 'r core_heap_scheme" where
  "regen_data a h = (let d = h_data16 h a
     in h\<lparr>h_data16 := (h_data16 h)(a := (d AND 0xff00) OR (0x00ff AND signed_drop_bit 8 d))\<rparr>)"

definition cmp_idx :: "bool \<Rightarrow> 'r list_cmp" where
  "cmp_idx res_null a b h =
     (if a = 0 \<or> b = 0 then Some (Inl Overrun)
      else let h = (if res_null then regen_data b (regen_data a h) else h)
           in Some (Inr (sint (h_idx h a) - sint (h_idx h b), h)))"

definition copy_info :: "u32 \<Rightarrow> u16 \<times> u16 \<Rightarrow> 'r core_heap_scheme \<Rightarrow> 'r core_heap_scheme" where
  "copy_info to' from h = h\<lparr>h_data16 := (h_data16 h)(to' := fst from), h_idx := (h_idx h)(to' := snd from)\<rparr>"

section \<open>Insertion, removal, search\<close>

text \<open>
  A cell of the block has 8 bytes and a data item 4. The block pointers are passed and returned; \<open>0\<close> is
  the null pointer a full block gives. A data item is the pair of its fields \<open>data16\<close> and \<open>idx\<close>.
\<close>

definition core_list_insert_new ::
  "u32 \<Rightarrow> u16 \<times> u16 \<Rightarrow> u32 \<Rightarrow> u32 \<Rightarrow> u32 \<Rightarrow> u32 \<Rightarrow> 'r core_heap_scheme
   \<Rightarrow> (u32 \<times> u32 \<times> u32 \<times> 'r core_heap_scheme) comp" where
  "core_list_insert_new insert_point info memblock datablock memblock_end datablock_end h =
     (if memblock + 8 \<ge> memblock_end then Some (Inr (0, memblock, datablock, h))
      else if datablock + 4 \<ge> datablock_end then Some (Inr (0, memblock, datablock, h))
      else cbind (load_next h insert_point) (\<lambda>nx.
           let newitem = memblock;
               h = set_next newitem nx h;
               h = set_next insert_point newitem h;
               h = set_info newitem datablock h;
               h = copy_info datablock info h
           in Some (Inr (newitem, memblock + 8, datablock + 4, h))))"

definition core_list_remove :: "u32 \<Rightarrow> 'r core_heap_scheme \<Rightarrow> (u32 \<times> 'r core_heap_scheme) comp" where
  "core_list_remove item h =
     cbind (load_next h item) (\<lambda>ret.
     cbind (load_info h ret) (\<lambda>ri.
       let tmp = h_info h item;
           h = set_info item ri h;
           h = set_info ret tmp h;
           h = set_next item (h_next h (h_next h item)) h;
           h = set_next ret 0 h
       in Some (Inr (ret, h))))"

definition core_list_undo_remove :: "u32 \<Rightarrow> u32 \<Rightarrow> 'r core_heap_scheme \<Rightarrow> (u32 \<times> 'r core_heap_scheme) comp" where
  "core_list_undo_remove item_removed item_modified h =
     cbind (load_info h item_removed) (\<lambda>tmp.
     cbind (load_info h item_modified) (\<lambda>mi.
       let h = set_info item_removed mi h;
           h = set_info item_modified tmp h;
           h = set_next item_removed (h_next h item_modified) h;
           h = set_next item_modified item_removed h
       in Some (Inr (item_removed, h))))"

text \<open>The two loops of \<open>core_list_find\<close>: by index, unless the index asked for is negative.\<close>

definition find_match :: "u16 \<times> u16 \<Rightarrow> 'r core_heap_scheme \<Rightarrow> u32 \<Rightarrow> bool" where
  "find_match info h p =
     (if sint (snd info) \<ge> 0 then h_idx h (h_info h p) = snd info
      else h_data16 h (h_info h p) AND 0xff = fst info)"

partial_function (option) core_list_find :: "u32 \<Rightarrow> u16 \<times> u16 \<Rightarrow> 'r core_heap_scheme \<Rightarrow> u32 comp" where
  "core_list_find list info h =
     (if list = 0 then Some (Inr 0)
      else if h_info h list = 0 then Some (Inl Overrun)
      else if find_match info h list then Some (Inr list)
      else core_list_find (h_next h list) info h)"

section \<open>Merge sort\<close>

text \<open>Stepping \<open>insize\<close> places along: the number of cells passed and the cell reached.\<close>

fun step_along :: "nat \<Rightarrow> nat \<Rightarrow> u32 \<Rightarrow> 'r core_heap_scheme \<Rightarrow> (nat \<times> u32) comp" where
  "step_along 0 psize q h = Some (Inr (psize, q))"
| "step_along (Suc i) psize q h =
     cbind (load_next h q) (\<lambda>q. if q = 0 then Some (Inr (psize + 1, q)) else step_along i (psize + 1) q h)"

record merge_state =
  m_p :: u32
  m_q :: u32
  m_psize :: nat
  m_qsize :: nat
  m_list :: u32
  m_tail :: u32

definition take_p :: "merge_state \<Rightarrow> 'r core_heap_scheme \<Rightarrow> (u32 \<times> merge_state) comp" where
  "take_p m h = cbind (load_next h (m_p m)) (\<lambda>n. Some (Inr (m_p m, m\<lparr>m_p := n, m_psize := m_psize m - 1\<rparr>)))"

definition take_q :: "merge_state \<Rightarrow> 'r core_heap_scheme \<Rightarrow> (u32 \<times> merge_state) comp" where
  "take_q m h = cbind (load_next h (m_q m)) (\<lambda>n. Some (Inr (m_q m, m\<lparr>m_q := n, m_qsize := m_qsize m - 1\<rparr>)))"

text \<open>The decision whether the next element comes from \<open>p\<close>.\<close>

definition merge_choice :: "'r list_cmp \<Rightarrow> merge_state \<Rightarrow> 'r core_heap_scheme \<Rightarrow> (bool \<times> 'r core_heap_scheme) comp" where
  "merge_choice cmp m h =
     (if m_psize m = 0 then Some (Inr (False, h))
      else if m_qsize m = 0 \<or> m_q m = 0 then Some (Inr (True, h))
      else cbind (load_info h (m_p m)) (\<lambda>a. cbind (load_info h (m_q m)) (\<lambda>b.
           cbind (cmp a b h) (\<lambda>(c, h). Some (Inr (c \<le> 0, h))))))"

definition merge_append :: "u32 \<Rightarrow> merge_state \<Rightarrow> 'r core_heap_scheme \<Rightarrow> merge_state \<times> 'r core_heap_scheme" where
  "merge_append e m h =
     (if m_tail m \<noteq> 0 then (m\<lparr>m_tail := e\<rparr>, set_next (m_tail m) e h)
      else (m\<lparr>m_list := e, m_tail := e\<rparr>, h))"

definition merge_step ::
  "'r list_cmp \<Rightarrow> merge_state \<Rightarrow> 'r core_heap_scheme \<Rightarrow> (merge_state \<times> 'r core_heap_scheme) comp" where
  "merge_step cmp m h =
     cbind (merge_choice cmp m h) (\<lambda>(from_p, h).
     cbind (if from_p then take_p m h else take_q m h) (\<lambda>(e, m). Some (Inr (merge_append e m h))))"

partial_function (option) merge_loop ::
  "'r list_cmp \<Rightarrow> merge_state \<Rightarrow> 'r core_heap_scheme \<Rightarrow> (merge_state \<times> 'r core_heap_scheme) comp" where
  "merge_loop cmp m h =
     (if m_psize m > 0 \<or> m_qsize m > 0 \<and> m_q m \<noteq> 0
      then cbind (merge_step cmp m h) (\<lambda>(m, h). merge_loop cmp m h)
      else Some (Inr (m, h)))"

text \<open>One pass merges the runs of length \<open>insize\<close> in pairs: the new head and tail, the number of merges, the heap.\<close>

partial_function (option) pass_loop ::
  "'r list_cmp \<Rightarrow> nat \<Rightarrow> u32 \<Rightarrow> u32 \<Rightarrow> u32 \<Rightarrow> nat \<Rightarrow> 'r core_heap_scheme
   \<Rightarrow> (u32 \<times> u32 \<times> nat \<times> 'r core_heap_scheme) comp" where
  "pass_loop cmp insize p list tail nmerges h =
     (if p = 0 then Some (Inr (list, tail, nmerges, h))
      else cbind (step_along insize 0 p h) (\<lambda>(psize, q).
           cbind (merge_loop cmp \<lparr>m_p = p, m_q = q, m_psize = psize, m_qsize = insize, m_list = list, m_tail = tail\<rparr> h)
             (\<lambda>(m, h). pass_loop cmp insize (m_q m) (m_list m) (m_tail m) (nmerges + 1) h)))"

partial_function (option) sort_loop ::
  "'r list_cmp \<Rightarrow> nat \<Rightarrow> u32 \<Rightarrow> 'r core_heap_scheme \<Rightarrow> (u32 \<times> 'r core_heap_scheme) comp" where
  "sort_loop cmp insize list h =
     cbind (pass_loop cmp insize list 0 0 0 h) (\<lambda>(list, tail, nmerges, h).
       if tail = 0 then Some (Inl Overrun)
       else let h = set_next tail 0 h
            in if nmerges \<le> 1 then Some (Inr (list, h)) else sort_loop cmp (insize * 2) list h)"

definition core_list_mergesort ::
  "'r list_cmp \<Rightarrow> u32 \<Rightarrow> 'r core_heap_scheme \<Rightarrow> (u32 \<times> 'r core_heap_scheme) comp" where
  "core_list_mergesort cmp list h = sort_loop cmp 1 list h"

end
