(* ===== verification/Merge_Spec.thy ===== *)
theory Merge_Spec
  imports Main "HOL-Library.Multiset"
begin

text \<open>
  What a bottom-up merge sort does to a list, as relations: \<open>merges\<close> interleaves two runs by the decisions of a
  comparison, \<open>pass\<close> merges the runs of one length in pairs, \<open>sorts\<close> repeats passes with doubled length until
  one run is left. The decisions are a relation, so that a comparison whose answers depend on a state is
  covered: \<open>d x y True\<close> allows the first element to be \<open>x\<close>, \<open>d x y False\<close> allows it to be \<open>y\<close>. When the
  decisions are those of a key, the result is the stable sort by that key.
\<close>

inductive merges :: "('a \<Rightarrow> 'a \<Rightarrow> bool \<Rightarrow> bool) \<Rightarrow> 'a list \<Rightarrow> 'a list \<Rightarrow> 'a list \<Rightarrow> bool" for d where
  merges_left: "merges d xs [] xs"
| merges_right: "merges d [] ys ys"
| merges_p: "d x y True \<Longrightarrow> merges d xs (y # ys) zs \<Longrightarrow> merges d (x # xs) (y # ys) (x # zs)"
| merges_q: "d x y False \<Longrightarrow> merges d (x # xs) ys zs \<Longrightarrow> merges d (x # xs) (y # ys) (y # zs)"

inductive pass :: "('a \<Rightarrow> 'a \<Rightarrow> bool \<Rightarrow> bool) \<Rightarrow> nat \<Rightarrow> 'a list \<Rightarrow> 'a list \<Rightarrow> bool" for d k where
  pass_end: "pass d k [] []"
| pass_merge: "as \<noteq> [] \<Longrightarrow> merges d (take k as) (take k (drop k as)) zs \<Longrightarrow> pass d k (drop (2 * k) as) bs
    \<Longrightarrow> pass d k as (zs @ bs)"

inductive sorts :: "('a \<Rightarrow> 'a \<Rightarrow> bool \<Rightarrow> bool) \<Rightarrow> nat \<Rightarrow> 'a list \<Rightarrow> 'a list \<Rightarrow> bool" for d where
  sorts_last: "pass d k as bs \<Longrightarrow> length as \<le> 2 * k \<Longrightarrow> sorts d k as bs"
| sorts_more: "pass d k as bs \<Longrightarrow> 2 * k < length as \<Longrightarrow> sorts d (2 * k) bs cs \<Longrightarrow> sorts d k as cs"

inductive_simps merges_Nil_left: "merges d [] ys zs"
inductive_simps merges_Nil_right: "merges d xs [] zs"
inductive_cases pass_ConsE: "pass d k (a # as) bs"
inductive_cases pass_NilE: "pass d k [] bs"

section \<open>Every sort is a permutation\<close>

lemma merges_mset: "merges d xs ys zs \<Longrightarrow> mset zs = mset xs + mset ys"
  by (induction rule: merges.induct) auto

lemma merges_length: "merges d xs ys zs \<Longrightarrow> length zs = length xs + length ys"
  using merges_mset [of d xs ys zs] by (metis size_mset size_union)

lemma merges_set: "merges d xs ys zs \<Longrightarrow> set zs = set xs \<union> set ys"
  using merges_mset [of d xs ys zs] by (metis set_mset_mset set_mset_union)

lemma take_drop_2: "as = take k as @ take k (drop k as) @ drop (2 * k) as"
  by (metis append_take_drop_id drop_drop mult_2)

lemma pass_mset: "pass d k as bs \<Longrightarrow> mset bs = mset as"
proof (induction rule: pass.induct)
  case (pass_merge as zs bs)
  have "mset as = mset (take k as) + mset (take k (drop k as)) + mset (drop (2 * k) as)"
    using arg_cong [OF take_drop_2 [of as k], of mset] by (simp only: mset_append add.assoc)
  then show ?case
    using merges_mset [OF pass_merge.hyps(2)] pass_merge.IH by simp
qed simp

lemma sorts_mset: "sorts d k as bs \<Longrightarrow> mset bs = mset as"
  by (induction rule: sorts.induct) (auto dest: pass_mset)

lemma pass_length: "pass d k as bs \<Longrightarrow> length bs = length as"
  using pass_mset [of d k as bs] by (metis size_mset)

section \<open>Decisions by a key give the stable sort\<close>

definition by_key :: "('a \<Rightarrow> 'k::linorder) \<Rightarrow> 'a \<Rightarrow> 'a \<Rightarrow> bool \<Rightarrow> bool" where
  "by_key f x y t \<longleftrightarrow> t = (f x \<le> f y)"

lemma merges_sorted:
  "merges (by_key f) xs ys zs \<Longrightarrow> sorted (map f xs) \<Longrightarrow> sorted (map f ys) \<Longrightarrow> sorted (map f zs)"
proof (induction rule: merges.induct)
  case (merges_p x y xs ys zs)
  have "set zs = set xs \<union> set (y # ys)"
    using merges_set [OF merges_p.hyps(2)] .
  then show ?case
    using merges_p by (auto simp: by_key_def)
next
  case (merges_q x y xs ys zs)
  have "set zs = set (x # xs) \<union> set ys"
    using merges_set [OF merges_q.hyps(2)] .
  then show ?case
    using merges_q by (fastforce simp: by_key_def)
qed auto

lemma merges_filter:
  "merges (by_key f) xs ys zs \<Longrightarrow> sorted (map f xs) \<Longrightarrow>
   filter (\<lambda>x. f x = k) zs = filter (\<lambda>x. f x = k) xs @ filter (\<lambda>x. f x = k) ys"
proof (induction rule: merges.induct)
  case (merges_q x y xs ys zs)
  then have "f y = k \<Longrightarrow> filter (\<lambda>x. f x = k) (x # xs) = []"
    by (fastforce simp: by_key_def filter_empty_conv)
  then show ?case
    using merges_q by auto
qed auto

lemma merges_sort_key:
  assumes "merges (by_key f) (sort_key f xs) (sort_key f ys) zs"
  shows "zs = sort_key f (xs @ ys)"
proof (rule properties_for_sort_key [symmetric])
  show "mset zs = mset (xs @ ys)"
    using merges_mset [OF assms] by simp
  show "sorted (map f zs)"
    using merges_sorted [OF assms] by simp
  show "filter (\<lambda>x. f k = f x) zs = filter (\<lambda>x. f k = f x) (xs @ ys)" for k
    using merges_filter [OF assms, of "f k"] by (simp add: sort_key_stable eq_commute [of "f k"])
qed

text \<open>A list whose runs of length \<open>k\<close> are sorted.\<close>

function run_sort :: "('a \<Rightarrow> 'k::linorder) \<Rightarrow> nat \<Rightarrow> 'a list \<Rightarrow> 'a list" where
  "run_sort f k as = (if as = [] \<or> k = 0 then as else sort_key f (take k as) @ run_sort f k (drop k as))"
  by pat_completeness auto
termination
  by (relation "measure (\<lambda>(f, k, as). length as)") auto

declare run_sort.simps [simp del]

lemma run_sort_Nil [simp]: "run_sort f k [] = []"
  by (simp add: run_sort.simps)

lemma run_sort_runs:
  assumes "0 < k"
  shows "take k (run_sort f k as) = sort_key f (take k as)" "drop k (run_sort f k as) = run_sort f k (drop k as)"
proof -
  have "take k (run_sort f k as) = sort_key f (take k as) \<and> drop k (run_sort f k as) = run_sort f k (drop k as)"
    using assms by (cases "k \<le> length as") (simp_all add: run_sort.simps [of f k as])
  then show "take k (run_sort f k as) = sort_key f (take k as)"
      "drop k (run_sort f k as) = run_sort f k (drop k as)"
    by blast+
qed

lemma run_sort_all: "length as \<le> k \<Longrightarrow> run_sort f k as = sort_key f as"
  by (cases "as = []"; cases "k = 0") (simp_all add: run_sort.simps [of f k as])

lemma run_sort_1: "run_sort f (Suc 0) as = as"
  by (induction as) (simp_all add: run_sort.simps [of f "Suc 0"])

lemma length_run_sort [simp]: "length (run_sort f k as) = length as"
  by (induction f k as rule: run_sort.induct) (subst run_sort.simps, auto)

lemma pass_run_sort:
  assumes "0 < k" "pass (by_key f) k (run_sort f k as) bs"
  shows "bs = run_sort f (2 * k) as"
  using assms(2)
proof (induction "length as" arbitrary: as bs rule: less_induct)
  case less
  show ?case
  proof (cases "as = []")
    case True
    then show ?thesis
      using less.prems by (auto simp: run_sort.simps elim: pass_NilE)
  next
    case False
    then have ne: "run_sort f k as \<noteq> []"
      by (metis length_0_conv length_run_sort)
    from less.prems ne obtain zs cs where
      "merges (by_key f) (take k (run_sort f k as)) (take k (drop k (run_sort f k as))) zs"
      and rest: "pass (by_key f) k (drop (2 * k) (run_sort f k as)) cs" and bs: "bs = zs @ cs"
      by (cases rule: pass.cases) auto
    then have "merges (by_key f) (sort_key f (take k as)) (sort_key f (take k (drop k as))) zs"
      by (simp only: run_sort_runs [OF assms(1)])
    then have "zs = sort_key f (take (2 * k) as)"
      using merges_sort_key by (metis mult_2 take_add)
    moreover have "drop (2 * k) (run_sort f k as) = run_sort f k (drop (2 * k) as)"
      by (metis drop_drop mult_2 run_sort_runs(2) [OF assms(1)])
    then have "cs = run_sort f (2 * k) (drop (2 * k) as)"
      using less.hyps [of "drop (2 * k) as" cs] rest False assms(1) by simp
    ultimately show ?thesis
      using False bs assms(1) by (simp add: run_sort.simps [of f "2 * k" as])
  qed
qed

theorem sorts_sort_key:
  assumes "sorts (by_key f) k (run_sort f k as) bs" "0 < k"
  shows "bs = sort_key f as"
proof -
  have "sorts d k cs bs \<Longrightarrow> d = by_key f \<Longrightarrow> 0 < k \<Longrightarrow> cs = run_sort f k as \<Longrightarrow> bs = sort_key f as" for d k cs
  proof (induction rule: sorts.induct)
    case (sorts_last k cs bs)
    then show ?case
      using pass_run_sort [of k f as bs] by (simp add: run_sort_all)
  next
    case (sorts_more k cs ds bs)
    then show ?case
      using pass_run_sort [of k f as ds] by simp
  qed
  then show ?thesis
    using assms by blast
qed

section \<open>What the comparisons have seen\<close>

text \<open>\<open>runs_seen P k as\<close>: every element of a run with at least two elements satisfies \<open>P\<close>.\<close>

function runs_seen :: "('a \<Rightarrow> bool) \<Rightarrow> nat \<Rightarrow> 'a list \<Rightarrow> bool" where
  "runs_seen P k as =
     (if as = [] \<or> k = 0 then True
      else (2 \<le> length (take k as) \<longrightarrow> list_all P (take k as)) \<and> runs_seen P k (drop k as))"
  by pat_completeness auto
termination
  by (relation "measure (\<lambda>(P, k, as). length as)") auto

declare runs_seen.simps [simp del]

lemma runs_seen_Nil [simp]: "runs_seen P k []"
  by (simp add: runs_seen.simps)

lemma runs_seen_first: "runs_seen P k as \<Longrightarrow> 0 < k \<Longrightarrow> 2 \<le> length (take k as) \<Longrightarrow> list_all P (take k as)"
  by (cases "as = []") (simp_all add: runs_seen.simps [of P k as])

lemma runs_seen_rest: "runs_seen P k as \<Longrightarrow> runs_seen P k (drop k as)"
  by (cases "as = []"; cases "k = 0") (simp_all add: runs_seen.simps [of P k as])

lemma runs_seen_step:
  "(2 \<le> length (take k as) \<Longrightarrow> list_all P (take k as)) \<Longrightarrow> runs_seen P k (drop k as) \<Longrightarrow> runs_seen P k as"
  by (subst runs_seen.simps) simp

lemma runs_seen_1: "runs_seen P (Suc 0) as"
  by (induction as) (simp_all add: runs_seen.simps [of P "Suc 0"])

lemma runs_seen_mono:
  assumes "\<And>x. P x \<Longrightarrow> Q x"
  shows "runs_seen P k as \<Longrightarrow> runs_seen Q k as"
proof (induction "length as" arbitrary: as rule: less_induct)
  case less
  show ?case
  proof (cases "as = [] \<or> k = 0")
    case True
    then show ?thesis
      by (subst runs_seen.simps) simp
  next
    case False
    then have rest: "runs_seen Q k (drop k as)"
      using less.hyps [of "drop k as"] runs_seen_rest [OF less.prems] by simp
    have "list_all Q (take k as)" if "2 \<le> length (take k as)"
      using runs_seen_first [OF less.prems] that False assms by (blast intro: list.pred_mono_strong)
    then show ?thesis
      using rest by (rule runs_seen_step)
  qed
qed

end
