(* ===== verification/Core_Sort.thy ===== *)
theory Core_Sort
  imports Core_List Merge_Spec
begin

text \<open>
  The merge sort of CoreMark refines the relations of the theory of merging: on a finite list of cells it
  returns, for every comparison that returns, and the list it returns is one the relation \<open>sorts\<close> allows.
  The comparison is an interface, the locale \<open>list_compare\<close>; with the comparison of the indices the result
  is the stable sort.
\<close>

section \<open>Paths\<close>

text \<open>A path leads through the cells of a list and says nothing of the last cell's \<open>next\<close>.\<close>

fun path :: "(u32 \<Rightarrow> u32) \<Rightarrow> u32 \<Rightarrow> u32 list \<Rightarrow> bool" where
  "path nxt p [] \<longleftrightarrow> True"
| "path nxt p (a # as) \<longleftrightarrow> p = a \<and> a \<noteq> 0 \<and> path nxt (nxt a) as"

lemma path_upd [simp]: "a \<notin> set as \<Longrightarrow> path (nxt(a := x)) p as \<longleftrightarrow> path nxt p as"
  by (induction as arbitrary: p) auto

lemma path_snoc:
  "path nxt p (as @ [a]) \<longleftrightarrow> path nxt p as \<and> a \<noteq> 0 \<and> (if as = [] then p else nxt (last as)) = a"
  by (induction as arbitrary: p) auto

lemma path_upd_last: "distinct as \<Longrightarrow> path (nxt(last as := x)) p as \<longleftrightarrow> path nxt p as"
proof (cases as rule: rev_cases)
  case (snoc bs b)
  assume "distinct as"
  with snoc have "b \<notin> set bs" "bs \<noteq> [] \<Longrightarrow> last bs \<noteq> b"
    by auto
  with snoc show ?thesis
    by (simp add: path_snoc)
qed simp

lemma chain_path: "chain nxt p (as @ bs) \<Longrightarrow> path nxt p as"
  by (induction as arbitrary: p) auto

lemma path_chain: "path nxt p as \<Longrightarrow> as \<noteq> [] \<Longrightarrow> nxt (last as) = 0 \<Longrightarrow> chain nxt p as"
proof (induction as arbitrary: p)
  case (Cons a as)
  then show ?case by (cases as) auto
qed simp

lemma chain_hd: "chain nxt p as \<Longrightarrow> p = 0 \<longleftrightarrow> as = []"
  by (cases as) auto

definition built :: "(u32 \<Rightarrow> u32) \<Rightarrow> u32 \<Rightarrow> u32 \<Rightarrow> u32 list \<Rightarrow> bool" where
  "built nxt list tail out \<longleftrightarrow>
     (if out = [] then list = 0 \<and> tail = 0 else path nxt list out \<and> tail = last out)"

lemma set_next_sel [simp]:
  "h_next (set_next p v h) = (h_next h)(p := v)" "h_info (set_next p v h) = h_info h"
  "h_data16 (set_next p v h) = h_data16 h" "h_idx (set_next p v h) = h_idx h"
  by (simp_all add: set_next_def)

lemma built_tail: "built nxt list tail out \<Longrightarrow> tail = 0 \<longleftrightarrow> out = []"
  by (cases out rule: rev_cases) (auto simp: built_def path_snoc)

lemma built_append:
  assumes "built (h_next h) (m_list m) (m_tail m) out" "e \<noteq> 0" "e \<notin> set out" "distinct out"
    "merge_append e m h = (m', h')"
  shows "built (h_next h') (m_list m') (m_tail m') (out @ [e])"
    "m_p m' = m_p m" "m_q m' = m_q m" "m_psize m' = m_psize m" "m_qsize m' = m_qsize m"
    "h' = h \<or> out \<noteq> [] \<and> h' = set_next (last out) e h"
proof -
  have t: "m_tail m = 0 \<longleftrightarrow> out = []"
    using built_tail [OF assms(1)] .
  show "m_p m' = m_p m" "m_q m' = m_q m" "m_psize m' = m_psize m" "m_qsize m' = m_qsize m"
    using assms(5) by (auto simp: merge_append_def split: if_splits)
  show "h' = h \<or> out \<noteq> [] \<and> h' = set_next (last out) e h"
    using assms(1,5) t by (auto simp: merge_append_def built_def split: if_splits)
  show "built (h_next h') (m_list m') (m_tail m') (out @ [e])"
  proof (cases "out = []")
    case True
    then show ?thesis
      using assms(2,5) t by (auto simp: merge_append_def built_def)
  next
    case False
    then show ?thesis
      using assms t by (auto simp: merge_append_def built_def path_snoc path_upd_last)
  qed
qed

lemma step_along_chain:
  assumes "chain (h_next h) q qs" "qs \<noteq> []"
  shows "\<exists>q'. step_along k n q h = Some (Inr (n + length (take k qs), q')) \<and> chain (h_next h) q' (drop k qs)"
  using assms
proof (induction k arbitrary: n q qs)
  case (Suc k)
  then obtain y ys where qs: "qs = y # ys" "q = y" "y \<noteq> 0" "chain (h_next h) (h_next h y) ys"
    by (cases qs) auto
  show ?case
  proof (cases "ys = []")
    case True
    then show ?thesis
      using qs by (simp add: load_next_def)
  next
    case False
    then show ?thesis
      using Suc.IH [OF qs(4) False, of "n + 1"] qs chain_hd [OF qs(4)] by (simp add: load_next_def)
  qed
qed simp

text \<open>The number of merges of a pass over \<open>n\<close> cells.\<close>

definition nruns :: "nat \<Rightarrow> nat \<Rightarrow> nat" where
  "nruns k n = (if n = 0 then 0 else Suc ((n - 1) div (2 * k)))"

lemma nruns_step: "0 < k \<Longrightarrow> 0 < n \<Longrightarrow> nruns k n = Suc (nruns k (n - 2 * k))"
  by (auto simp: nruns_def le_div_geq not_le)

lemma nruns_le_1: "0 < k \<Longrightarrow> nruns k n \<le> 1 \<longleftrightarrow> n \<le> 2 * k"
  by (auto simp: nruns_def div_eq_0_iff)

section \<open>The comparison as an interface\<close>

text \<open>
  A comparison of two of the items of a list returns on heaps with an invariant, keeps it and the \<open>next\<close> fields, and decides as the relation
  \<open>dec\<close> on the data items allows. \<open>mark\<close> is what a comparison establishes of the items it has seen, and
  never takes back.
\<close>

locale list_compare =
  fixes cmp :: "'r list_cmp"
    and inv :: "'r core_heap_scheme \<Rightarrow> bool"
    and info :: "u32 \<Rightarrow> u32"
    and dec :: "u32 \<Rightarrow> u32 \<Rightarrow> bool \<Rightarrow> bool"
    and mark :: "u32 \<Rightarrow> 'r core_heap_scheme \<Rightarrow> bool"
    and items :: "u32 set"
  assumes cmp_runs: "inv h \<Longrightarrow> a \<in> items \<Longrightarrow> b \<in> items \<Longrightarrow>
      \<exists>c h'. cmp a b h = Some (Inr (c, h')) \<and> inv h' \<and> h_next h' = h_next h \<and> dec a b (c \<le> 0)
        \<and> mark a h' \<and> mark b h' \<and> (\<forall>x. mark x h \<longrightarrow> mark x h')"
    and inv_info: "inv h \<Longrightarrow> h_info h = info"
    and inv_next: "inv h \<Longrightarrow> inv (set_next p v h)"
    and mark_next: "mark x h \<Longrightarrow> mark x (set_next p v h)"
begin

definition decides :: "u32 \<Rightarrow> u32 \<Rightarrow> bool \<Rightarrow> bool" where
  "decides a b t = dec (info a) (info b) t"

definition grows :: "'r core_heap_scheme \<Rightarrow> 'r core_heap_scheme \<Rightarrow> u32 set \<Rightarrow> bool" where
  "grows h h' A \<longleftrightarrow> (\<forall>x. mark x h \<longrightarrow> mark x h') \<and> (\<forall>a. a \<notin> A \<longrightarrow> h_next h' a = h_next h a)"

definition merging :: "merge_state \<Rightarrow> 'r core_heap_scheme \<Rightarrow> u32 list \<Rightarrow> u32 list \<Rightarrow> u32 list \<Rightarrow> bool" where
  "merging m h out xs qs \<longleftrightarrow> built (h_next h) (m_list m) (m_tail m) out
     \<and> path (h_next h) (m_p m) xs \<and> m_psize m = length xs \<and> chain (h_next h) (m_q m) qs
     \<and> distinct (out @ xs @ qs) \<and> inv h \<and> (\<forall>a \<in> set (xs @ qs). info a \<in> items)"

lemma grows_trans: "grows h h' A \<Longrightarrow> grows h' h'' B \<Longrightarrow> A \<subseteq> C \<Longrightarrow> B \<subseteq> C \<Longrightarrow> grows h h'' C"
  unfolding grows_def by (metis subsetD)

lemma append_merging:
  assumes "built (h_next h) (m_list m) (m_tail m) out" "path (h_next h) (m_p m) xs" "m_psize m = length xs"
    "chain (h_next h) (m_q m) qs" "distinct (out @ e # xs @ qs)" "inv h" "\<forall>a \<in> set (xs @ qs). info a \<in> items" "e \<noteq> 0"
    "merge_append e m h = (m', h')"
  shows "merging m' h' (out @ [e]) xs qs" "grows h h' (set out)" "m_qsize m' = m_qsize m"
proof -
  note b = built_append [OF assms(1,8) _ _ assms(9)]
  have d: "e \<notin> set out" "distinct out"
    using assms(5) by auto
  from b(6) [OF d] show g: "grows h h' (set out)"
    by (auto simp: grows_def mark_next)
  show "m_qsize m' = m_qsize m"
    using b(5) [OF d] .
  from b(6) [OF d] show "merging m' h' (out @ [e]) xs qs"
  proof
    assume "h' = h"
    then show ?thesis
      using b(1-5) [OF d] assms by (auto simp: merging_def)
  next
    assume h': "out \<noteq> [] \<and> h' = set_next (last out) e h"
    then have "last out \<notin> set xs" "last out \<notin> set qs"
      using assms(5) by (auto dest: last_in_set)
    then show ?thesis
      using b(1-5) [OF d] assms h' by (auto simp: merging_def inv_next)
  qed
qed

lemma take_p_merging:
  assumes "merging m h out (x # xs) qs"
  shows "\<exists>m' h'. cbind (take_p m h) (\<lambda>(e, m). Some (Inr (merge_append e m h))) = Some (Inr (m', h'))
    \<and> merging m' h' (out @ [x]) xs qs \<and> m_qsize m' = m_qsize m \<and> grows h h' (set out)"
proof -
  define m1 where "m1 = m\<lparr>m_p := h_next h x, m_psize := m_psize m - 1\<rparr>"
  obtain m' h' where a: "merge_append x m1 h = (m', h')"
    by fastforce
  have p: "m_p m = x" "x \<noteq> 0"
    using assms by (auto simp: merging_def)
  have "merging m' h' (out @ [x]) xs qs \<and> grows h h' (set out) \<and> m_qsize m' = m_qsize m1"
    using append_merging [of h m1 out xs qs x m' h'] assms a p by (auto simp: merging_def m1_def)
  then show ?thesis
    using a p by (simp add: take_p_def load_next_def m1_def)
qed

lemma take_q_merging:
  assumes "merging m h out xs (y # qs)"
  shows "\<exists>m' h'. cbind (take_q m h) (\<lambda>(e, m). Some (Inr (merge_append e m h))) = Some (Inr (m', h'))
    \<and> merging m' h' (out @ [y]) xs qs \<and> m_qsize m' = m_qsize m - 1 \<and> grows h h' (set out)"
proof -
  define m1 where "m1 = m\<lparr>m_q := h_next h y, m_qsize := m_qsize m - 1\<rparr>"
  obtain m' h' where a: "merge_append y m1 h = (m', h')"
    by fastforce
  have p: "m_q m = y" "y \<noteq> 0"
    using assms by (auto simp: merging_def)
  have "merging m' h' (out @ [y]) xs qs \<and> grows h h' (set out) \<and> m_qsize m' = m_qsize m1"
    using append_merging [of h m1 out xs qs y m' h'] assms a p by (auto simp: merging_def m1_def)
  then show ?thesis
    using a p by (simp add: take_q_def load_next_def m1_def)
qed

lemma choice_merging:
  assumes "merging m h out (x # xs) (y # qs)" "0 < m_qsize m"
  shows "\<exists>t h'. merge_choice cmp m h = Some (Inr (t, h')) \<and> decides x y t
    \<and> merging m h' out (x # xs) (y # qs) \<and> grows h h' {} \<and> mark (info x) h' \<and> mark (info y) h'"
proof -
  have m: "m_p m = x" "m_q m = y" "x \<noteq> 0" "y \<noteq> 0" "m_psize m \<noteq> 0" "h_info h = info" "info x \<in> items" "info y \<in> items"
    "inv h"
    using assms inv_info by (auto simp: merging_def)
  obtain c h' where c: "cmp (info x) (info y) h = Some (Inr (c, h'))" "inv h'" "h_next h' = h_next h"
    "dec (info x) (info y) (c \<le> 0)" "mark (info x) h'" "mark (info y) h'" "\<forall>x. mark x h \<longrightarrow> mark x h'"
    using cmp_runs [OF m(9,7,8)] by blast
  then have "merge_choice cmp m h = Some (Inr (c \<le> 0, h'))"
    using m assms(2) by (simp add: merge_choice_def load_info_def)
  then show ?thesis
    using c assms(1) by (auto simp: merging_def decides_def grows_def)
qed

lemma merge_loop_unfold:
  "merge_loop cmp m h =
     (if m_psize m > 0 \<or> m_qsize m > 0 \<and> m_q m \<noteq> 0
      then cbind (merge_step cmp m h) (\<lambda>(m, h). merge_loop cmp m h)
      else Some (Inr (m, h)))"
  by (rule merge_loop.simps)

definition merged :: "merge_state \<Rightarrow> 'r core_heap_scheme \<Rightarrow> u32 list \<Rightarrow> u32 list \<Rightarrow> u32 list \<Rightarrow> bool" where
  "merged m h out xs qs \<longleftrightarrow> (\<exists>m' h' zs. merge_loop cmp m h = Some (Inr (m', h'))
     \<and> merges decides xs (take (m_qsize m) qs) zs \<and> merging m' h' (out @ zs) [] (drop (m_qsize m) qs)
     \<and> grows h h' (set out \<union> set xs \<union> set (take (m_qsize m) qs))
     \<and> (xs \<noteq> [] \<longrightarrow> take (m_qsize m) qs \<noteq> [] \<longrightarrow> mark (info (hd xs)) h' \<and> mark (info (hd qs)) h'))"

lemma merged_step:
  assumes "merge_loop cmp m h = merge_loop cmp m1 h1" "merged m1 h1 (out @ [e]) xs1 qs1"
    "\<And>zs. merges decides xs1 (take (m_qsize m1) qs1) zs \<Longrightarrow> merges decides xs (take (m_qsize m) qs) (e # zs)"
    "drop (m_qsize m1) qs1 = drop (m_qsize m) qs" "grows h h1 (set out)"
    "set (e # xs1 @ take (m_qsize m1) qs1) \<subseteq> set xs \<union> set (take (m_qsize m) qs)"
    "xs \<noteq> [] \<Longrightarrow> take (m_qsize m) qs \<noteq> [] \<Longrightarrow> mark (info (hd xs)) h1 \<and> mark (info (hd qs)) h1"
  shows "merged m h out xs qs"
proof -
  obtain m' h' zs where r: "merge_loop cmp m1 h1 = Some (Inr (m', h'))"
    "merges decides xs1 (take (m_qsize m1) qs1) zs" "merging m' h' ((out @ [e]) @ zs) [] (drop (m_qsize m1) qs1)"
    "grows h1 h' (set (out @ [e]) \<union> set xs1 \<union> set (take (m_qsize m1) qs1))"
    using assms(2) unfolding merged_def by blast
  have "grows h h' (set out \<union> set xs \<union> set (take (m_qsize m) qs))"
    by (rule grows_trans [OF assms(5) r(4)]) (use assms(6) in auto)
  then show ?thesis
    unfolding merged_def using r assms(1,4,7) assms(3) [OF r(2)]
    by (intro exI [of _ m'] exI [of _ h'] exI [of _ "e # zs"]) (auto simp: grows_def)
qed

text \<open>One step of the loop that takes from \<open>p\<close>, and one that takes from \<open>q\<close>.\<close>

lemma loop_from_p:
  assumes "merge_choice cmp m h = Some (Inr (True, h1))" "merging m h1 out (x # xs) qs" "grows h h1 {}"
  shows "\<exists>m' h'. merge_loop cmp m h = merge_loop cmp m' h' \<and> merging m' h' (out @ [x]) xs qs
    \<and> m_qsize m' = m_qsize m \<and> grows h h' (set out) \<and> (\<forall>a. mark a h1 \<longrightarrow> mark a h')"
proof -
  from take_p_merging [OF assms(2)] obtain m' h' where s:
    "cbind (take_p m h1) (\<lambda>(e, m). Some (Inr (merge_append e m h1))) = Some (Inr (m', h'))"
    "merging m' h' (out @ [x]) xs qs" "m_qsize m' = m_qsize m" "grows h1 h' (set out)"
    by auto
  have "merge_loop cmp m h = merge_loop cmp m' h'"
    using assms(1,2) s(1) by (simp add: merge_loop_unfold [of m h] merge_step_def merging_def)
  moreover have "grows h h' (set out)" "\<forall>a. mark a h1 \<longrightarrow> mark a h'"
    using grows_trans [OF assms(3) s(4), of "set out"] s(4) by (simp_all add: grows_def)
  ultimately show ?thesis
    using s(2,3) by blast
qed

lemma loop_from_q:
  assumes "merge_choice cmp m h = Some (Inr (False, h1))" "merging m h1 out xs (y # qs)" "grows h h1 {}"
    "0 < m_qsize m"
  shows "\<exists>m' h'. merge_loop cmp m h = merge_loop cmp m' h' \<and> merging m' h' (out @ [y]) xs qs
    \<and> m_qsize m' = m_qsize m - 1 \<and> grows h h' (set out) \<and> (\<forall>a. mark a h1 \<longrightarrow> mark a h')"
proof -
  from take_q_merging [OF assms(2)] obtain m' h' where s:
    "cbind (take_q m h1) (\<lambda>(e, m). Some (Inr (merge_append e m h1))) = Some (Inr (m', h'))"
    "merging m' h' (out @ [y]) xs qs" "m_qsize m' = m_qsize m - 1" "grows h1 h' (set out)"
    by auto
  have "merge_loop cmp m h = merge_loop cmp m' h'"
    using assms(1,2,4) s(1) by (auto simp: merge_loop_unfold [of m h] merge_step_def merging_def)
  moreover have "grows h h' (set out)" "\<forall>a. mark a h1 \<longrightarrow> mark a h'"
    using grows_trans [OF assms(3) s(4), of "set out"] s(4) by (simp_all add: grows_def)
  ultimately show ?thesis
    using s(2,3) by blast
qed

lemma merged_both:
  assumes "merging m h out (x # xs) (y # qs)" "m_qsize m = Suc k"
    and IH: "\<And>xs' m' qs' h' out'. length xs' + min (m_qsize m') (length qs') <
      length (x # xs) + min (m_qsize m) (length (y # qs)) \<Longrightarrow> merging m' h' out' xs' qs' \<Longrightarrow> merged m' h' out' xs' qs'"
  shows "merged m h out (x # xs) (y # qs)"
proof -
  from choice_merging [of m h out x xs y qs] assms(1,2) obtain t h1 where c:
    "merge_choice cmp m h = Some (Inr (t, h1))" "decides x y t" "merging m h1 out (x # xs) (y # qs)" "grows h h1 {}"
    "mark (info x) h1" "mark (info y) h1"
    by auto
  show ?thesis
  proof (cases t)
    case True
    with loop_from_p [OF _ c(3,4)] c(1) obtain m' h' where
      s: "merge_loop cmp m h = merge_loop cmp m' h'" "merging m' h' (out @ [x]) xs (y # qs)" "m_qsize m' = m_qsize m"
        "grows h h' (set out)" "\<forall>a. mark a h1 \<longrightarrow> mark a h'"
      by auto
    have "merged m' h' (out @ [x]) xs (y # qs)"
      by (rule IH) (use s(2,3) in simp_all)
    then show ?thesis
      using s c(2,5,6) True assms(2)
      by (intro merged_step [of m h m' h' out x xs "y # qs"]) (auto intro: merges_p)
  next
    case False
    with loop_from_q [OF _ c(3,4)] c(1) assms(2) obtain m' h' where
      s: "merge_loop cmp m h = merge_loop cmp m' h'" "merging m' h' (out @ [y]) (x # xs) qs" "m_qsize m' = k"
        "grows h h' (set out)" "\<forall>a. mark a h1 \<longrightarrow> mark a h'"
      by auto
    have "merged m' h' (out @ [y]) (x # xs) qs"
      by (rule IH) (use s(2,3) assms(2) in simp_all)
    then show ?thesis
      using s c(2,5,6) False assms(2)
      by (intro merged_step [of m h m' h' out y "x # xs" qs]) (auto intro: merges_q)
  qed
qed

lemma merge_loop_merged: "merging m h out xs qs \<Longrightarrow> merged m h out xs qs"
proof (induction "length xs + min (m_qsize m) (length qs)" arbitrary: m h out xs qs rule: less_induct)
  case less
  have hd: "m_q m = 0 \<longleftrightarrow> qs = []" "m_psize m = length xs"
    using less.prems chain_hd by (auto simp: merging_def)
  have refl: "grows h h {}"
    by (simp add: grows_def)
  consider (none) "xs = []" "m_qsize m = 0 \<or> qs = []" | (p) x xs' where "xs = x # xs'" "m_qsize m = 0 \<or> qs = []"
    | (q) y qs' k where "xs = []" "m_qsize m = Suc k" "qs = y # qs'"
    | (both) x xs' y qs' k where "xs = x # xs'" "m_qsize m = Suc k" "qs = y # qs'"
    by (cases xs; cases qs; cases "m_qsize m") auto
  then show ?case
  proof cases
    case none
    then have "merge_loop cmp m h = Some (Inr (m, h))"
      using hd by (auto simp: merge_loop_unfold [of m h])
    then show ?thesis
      using none less.prems by (auto simp: merged_def grows_def intro!: merges_left)
  next
    case p
    then have "merge_choice cmp m h = Some (Inr (True, h))"
      using hd by (auto simp: merge_choice_def)
    from loop_from_p [OF this less.prems [unfolded p(1)] refl] obtain m' h' where
      s: "merge_loop cmp m h = merge_loop cmp m' h'" "merging m' h' (out @ [x]) xs' qs" "m_qsize m' = m_qsize m"
        "grows h h' (set out)"
      by blast
    then have "merged m' h' (out @ [x]) xs' qs"
      using less.hyps [of xs' m' qs h' "out @ [x]"] p(1) by simp
    then show ?thesis
      using p s by (intro merged_step [of m h m' h' out x xs' qs]) (auto simp: merges_Nil_right)
  next
    case q
    then have "merge_choice cmp m h = Some (Inr (False, h))"
      using hd by (auto simp: merge_choice_def)
    from loop_from_q [OF this less.prems [unfolded q(3)] refl] q(2) obtain m' h' where
      s: "merge_loop cmp m h = merge_loop cmp m' h'" "merging m' h' (out @ [y]) xs qs'" "m_qsize m' = m_qsize m - 1"
        "grows h h' (set out)"
      by auto
    then have "merged m' h' (out @ [y]) xs qs'"
      using less.hyps [of xs m' qs' h' "out @ [y]"] q by simp
    then show ?thesis
      using q s by (intro merged_step [of m h m' h' out y xs qs']) (auto simp: merges_Nil_left)
  next
    case both
    then show ?thesis
      using merged_both [OF _ _ less.hyps] less.prems by simp
  qed
qed

lemma pass_loop_unfold:
  "pass_loop cmp insize p list tail nmerges h =
     (if p = 0 then Some (Inr (list, tail, nmerges, h))
      else cbind (step_along insize 0 p h) (\<lambda>(psize, q).
           cbind (merge_loop cmp \<lparr>m_p = p, m_q = q, m_psize = psize, m_qsize = insize, m_list = list, m_tail = tail\<rparr> h)
             (\<lambda>(m, h). pass_loop cmp insize (m_q m) (m_list m) (m_tail m) (nmerges + 1) h)))"
  by (rule pass_loop.simps)

definition passed :: "nat \<Rightarrow> u32 \<Rightarrow> u32 \<Rightarrow> u32 \<Rightarrow> nat \<Rightarrow> 'r core_heap_scheme \<Rightarrow> u32 list \<Rightarrow> u32 list \<Rightarrow> bool" where
  "passed k p list tail n h out qs \<longleftrightarrow> (\<exists>list' tail' h' zs.
     pass_loop cmp k p list tail n h = Some (Inr (list', tail', n + nruns k (length qs), h'))
     \<and> pass decides k qs zs \<and> built (h_next h') list' tail' (out @ zs) \<and> inv h'
     \<and> grows h h' (set out \<union> set qs) \<and> runs_seen (\<lambda>a. mark (info a) h') (2 * k) zs)"

lemma merged_run_seen:
  assumes "merges decides xs ys zs" "2 \<le> length zs"
    "\<And>a. mark (info a) h \<Longrightarrow> mark (info a) h'"
    "2 \<le> length xs \<Longrightarrow> list_all (\<lambda>a. mark (info a) h) xs" "2 \<le> length ys \<Longrightarrow> list_all (\<lambda>a. mark (info a) h) ys"
    "xs \<noteq> [] \<Longrightarrow> ys \<noteq> [] \<Longrightarrow> mark (info (hd xs)) h' \<and> mark (info (hd ys)) h'"
  shows "list_all (\<lambda>a. mark (info a) h') zs"
proof -
  have half: "list_all (\<lambda>a. mark (info a) h') us"
    if "2 \<le> length us \<Longrightarrow> list_all (\<lambda>a. mark (info a) h) us" "us \<noteq> [] \<Longrightarrow> 2 \<le> length us \<or> mark (info (hd us)) h'"
    for us
    using that assms(3) by (cases us rule: list.exhaust; cases "2 \<le> length us")
      (auto simp: list_all_iff numeral_2_eq_2 Suc_le_eq)
  have "length xs + length ys = length zs"
    using merges_length [OF assms(1)] by simp
  then have "list_all (\<lambda>a. mark (info a) h') xs" "list_all (\<lambda>a. mark (info a) h') ys"
    using assms(2,4-6) by (intro half; cases xs; cases ys; auto)+
  then show ?thesis
    using merges_set [OF assms(1)] by (auto simp: list_all_iff)
qed

lemma passed_step:
  assumes "passed k p1 list1 tail1 (n + 1) h1 (out @ zs) (drop (2 * k) qs)"
    "pass_loop cmp k p list tail n h = pass_loop cmp k p1 list1 tail1 (n + 1) h1"
    "merges decides (take k qs) (take k (drop k qs)) zs"
    "grows h h1 (set out \<union> set (take k qs) \<union> set (take k (drop k qs)))"
    "2 \<le> length zs \<Longrightarrow> list_all (\<lambda>a. mark (info a) h1) zs" "qs \<noteq> []" "0 < k"
  shows "passed k p list tail n h out qs"
proof -
  obtain list' tail' h' bs where r:
    "pass_loop cmp k p1 list1 tail1 (n + 1) h1 = Some (Inr (list', tail', n + 1 + nruns k (length (drop (2 * k) qs)), h'))"
    "pass decides k (drop (2 * k) qs) bs" "built (h_next h') list' tail' ((out @ zs) @ bs)" "inv h'"
    "grows h1 h' (set (out @ zs) \<union> set (drop (2 * k) qs))" "runs_seen (\<lambda>a. mark (info a) h') (2 * k) bs"
    using assms(1) unfolding passed_def by blast
  have zs: "set zs = set (take k qs) \<union> set (take k (drop k qs))" "length zs = min (2 * k) (length qs)"
    using merges_set [OF assms(3)] merges_length [OF assms(3)] by auto
  have "bs = [] \<or> length zs = 2 * k"
    using pass_length [OF r(2)] zs(2) by auto
  then have runs: "take (2 * k) (zs @ bs) = zs" "drop (2 * k) (zs @ bs) = bs"
    using zs(2) by auto
  have "grows h h' (set out \<union> set qs)"
    by (rule grows_trans [OF assms(4) r(5)]) (auto simp: zs(1) dest: in_set_takeD in_set_dropD)
  moreover have "list_all (\<lambda>a. mark (info a) h') zs" if "2 \<le> length zs"
    using assms(5) [OF that] r(5) by (auto simp: grows_def list_all_iff)
  then have "runs_seen (\<lambda>a. mark (info a) h') (2 * k) (zs @ bs)"
    using r(6) by (intro runs_seen_step [of "2 * k" "zs @ bs"]) (simp_all only: runs)
  moreover have "n + 1 + nruns k (length (drop (2 * k) qs)) = n + nruns k (length qs)"
    using nruns_step [of k "length qs"] assms(6,7) by simp
  ultimately show ?thesis
    unfolding passed_def using assms(2) r(1,3,4) pass_merge [OF assms(6,3) r(2)] by auto
qed

lemma pass_loop_passed:
  assumes "0 < k"
  shows "built (h_next h) list tail out \<Longrightarrow> chain (h_next h) p qs \<Longrightarrow> distinct (out @ qs) \<Longrightarrow> inv h \<Longrightarrow>
    \<forall>a \<in> set qs. info a \<in> items \<Longrightarrow> runs_seen (\<lambda>a. mark (info a) h) k qs \<Longrightarrow> passed k p list tail n h out qs"
proof (induction "length qs" arbitrary: p list tail n h out qs rule: less_induct)
  case less
  show ?case
  proof (cases "qs = []")
    case True
    then have "pass_loop cmp k p list tail n h = Some (Inr (list, tail, n, h))"
      using less.prems(2) by (subst pass_loop_unfold) simp
    then show ?thesis
      using True less.prems(1,4) by (auto simp: passed_def grows_def nruns_def intro: pass_end)
  next
    case False
    obtain q where q: "step_along k 0 p h = Some (Inr (length (take k qs), q))" "chain (h_next h) q (drop k qs)"
      using step_along_chain [OF less.prems(2) False, of k 0] by auto
    define m where "m = \<lparr>m_p = p, m_q = q, m_psize = length (take k qs), m_qsize = k, m_list = list, m_tail = tail\<rparr>"
    have "path (h_next h) p (take k qs)"
      using chain_path [of "h_next h" p "take k qs" "drop k qs"] less.prems(2) by simp
    moreover have "distinct (out @ take k qs @ drop k qs)" "\<forall>a \<in> set (take k qs @ drop k qs). info a \<in> items"
      using less.prems(3,5) by simp_all
    ultimately have "merging m h out (take k qs) (drop k qs)"
      using less.prems(1,4) q(2) unfolding merging_def by (simp add: m_def)
    from merge_loop_merged [OF this] obtain m' h1 zs where mr: "merge_loop cmp m h = Some (Inr (m', h1))"
        "merges decides (take k qs) (take k (drop k qs)) zs" "merging m' h1 (out @ zs) [] (drop (2 * k) qs)"
        "grows h h1 (set out \<union> set (take k qs) \<union> set (take k (drop k qs)))"
        "take k qs \<noteq> [] \<longrightarrow> take k (drop k qs) \<noteq> [] \<longrightarrow> mark (info (hd (take k qs))) h1 \<and> mark (info (hd (drop k qs))) h1"
      unfolding merged_def by (auto simp: m_def mult_2)
    have grown: "mark (info a) h \<Longrightarrow> mark (info a) h1" for a
      using mr(4) by (simp add: grows_def)
    have seen: "list_all (\<lambda>a. mark (info a) h1) zs" if "2 \<le> length zs"
      using runs_seen_first [OF less.prems(6) assms] runs_seen_first [OF runs_seen_rest [OF less.prems(6)] assms] mr(5)
      by (intro merged_run_seen [OF mr(2) that grown, where h = h]) (auto simp: hd_conv_nth)
    have rest: "runs_seen (\<lambda>a. mark (info a) h1) k (drop (2 * k) qs)"
      using runs_seen_rest [OF runs_seen_rest [OF less.prems(6)]]
      by (intro runs_seen_mono [OF grown]) (simp_all add: mult_2)
    have tail_pass: "passed k (m_q m') (m_list m') (m_tail m') (n + 1) h1 (out @ zs) (drop (2 * k) qs)"
      using mr(3) rest False assms by (intro less.hyps) (auto simp: merging_def)
    have "pass_loop cmp k p list tail n h =
        pass_loop cmp k (m_q m') (m_list m') (m_tail m') (n + 1) h1"
      using q(1) mr(1) chain_hd [OF less.prems(2)] False
      by (subst pass_loop_unfold) (simp add: m_def)
    then show ?thesis
      by (rule passed_step [OF tail_pass _ mr(2,4) seen False assms])
  qed
qed

lemma sort_loop_unfold:
  "sort_loop cmp insize list h =
     cbind (pass_loop cmp insize list 0 0 0 h) (\<lambda>(list, tail, nmerges, h).
       if tail = 0 then Some (Inl Overrun)
       else let h = set_next tail 0 h
            in if nmerges \<le> 1 then Some (Inr (list, h)) else sort_loop cmp (insize * 2) list h)"
  by (rule sort_loop.simps)

text \<open>One turn of the outer loop, up to the decision whether to repeat.\<close>

lemma sort_turn:
  assumes "0 < k" "as \<noteq> []" "chain (h_next h) list as" "inv h" "\<forall>a \<in> set as. info a \<in> items"
    "runs_seen (\<lambda>a. mark (info a) h) k as"
  shows "\<exists>list' h' bs. sort_loop cmp k list h =
      (if length as \<le> 2 * k then Some (Inr (list', h')) else sort_loop cmp (2 * k) list' h')
    \<and> pass decides k as bs \<and> chain (h_next h') list' bs \<and> inv h' \<and> grows h h' (set as)
    \<and> runs_seen (\<lambda>a. mark (info a) h') (2 * k) bs"
proof -
  have "passed k list 0 0 0 h [] as"
    using assms chain_distinct [OF assms(3)] by (intro pass_loop_passed) (simp_all add: built_def)
  then obtain list' tail' h' bs where r: "pass_loop cmp k list 0 0 0 h = Some (Inr (list', tail', nruns k (length as), h'))"
      "pass decides k as bs" "built (h_next h') list' tail' bs" "inv h'" "grows h h' (set as)"
      "runs_seen (\<lambda>a. mark (info a) h') (2 * k) bs"
    unfolding passed_def by auto
  have "mset bs = mset as"
    using pass_mset [OF r(2)] .
  then have bs: "set bs = set as" "bs \<noteq> []" "distinct bs"
    using assms(2) chain_distinct [OF assms(3)] by (metis set_mset_mset, auto dest: mset_eq_imp_distinct_iff)
  then have tail: "tail' = last bs" "tail' \<noteq> 0" "path (h_next h') list' bs" "tail' \<in> set as"
    using r(3) built_tail [OF r(3)] last_in_set [of bs] by (auto simp: built_def)
  let ?h = "set_next tail' 0 h'"
  have "sort_loop cmp k list h =
      (if length as \<le> 2 * k then Some (Inr (list', ?h)) else sort_loop cmp (2 * k) list' ?h)"
    using nruns_le_1 [OF assms(1), of "length as"] r(1) tail(2)
    by (subst sort_loop_unfold) (simp add: mult.commute)
  moreover have "chain (h_next ?h) list' bs"
    using tail(1,3) bs(2,3) by (intro path_chain) (simp_all add: path_upd_last)
  moreover have "grows h ?h (set as)"
    using r(5) tail(4) by (auto simp: grows_def mark_next)
  moreover have "runs_seen (\<lambda>a. mark (info a) ?h) (2 * k) bs"
    by (rule runs_seen_mono [OF _ r(6)]) (rule mark_next)
  ultimately show ?thesis
    using r(2,4) inv_next by blast
qed

lemma sort_loop_sorts:
  assumes "0 < k" "as \<noteq> []" "chain (h_next h) list as" "inv h" "\<forall>a \<in> set as. info a \<in> items"
    "runs_seen (\<lambda>a. mark (info a) h) k as"
  shows "\<exists>list' h' bs. sort_loop cmp k list h = Some (Inr (list', h')) \<and> sorts decides k as bs
    \<and> chain (h_next h') list' bs \<and> inv h' \<and> grows h h' (set as)
    \<and> (2 \<le> length as \<longrightarrow> (\<forall>a \<in> set as. mark (info a) h'))"
  using assms
proof (induction "length as - k" arbitrary: k as list h rule: less_induct)
  case less
  obtain list' h' bs where t: "sort_loop cmp k list h =
      (if length as \<le> 2 * k then Some (Inr (list', h')) else sort_loop cmp (2 * k) list' h')"
    "pass decides k as bs" "chain (h_next h') list' bs" "inv h'" "grows h h' (set as)"
    "runs_seen (\<lambda>a. mark (info a) h') (2 * k) bs"
    using sort_turn [OF less.prems] by blast
  have bs: "set bs = set as" "length bs = length as"
    using pass_mset [OF t(2)] by (metis set_mset_mset, metis size_mset)
  show ?case
  proof (cases "length as \<le> 2 * k")
    case True
    then have "\<forall>a \<in> set as. mark (info a) h'" if "2 \<le> length as"
      using runs_seen_first [OF t(6)] that less.prems(1) bs by (simp add: list_all_iff)
    then show ?thesis
      using True t sorts_last [OF t(2) True] by auto
  next
    case False
    have "bs \<noteq> []" "\<forall>a \<in> set bs. info a \<in> items" "length bs - 2 * k < length as - k"
      using less.prems(1,2,5) bs False by auto
    with less.hyps [of bs "2 * k" h' list'] less.prems(1) t(3,4,6) obtain list'' h'' cs where
      "sort_loop cmp (2 * k) list' h' = Some (Inr (list'', h''))" "sorts decides (2 * k) bs cs"
      "chain (h_next h'') list'' cs" "inv h''" "grows h' h'' (set bs)"
      "2 \<le> length bs \<longrightarrow> (\<forall>a \<in> set bs. mark (info a) h'')"
      by auto
    moreover have "grows h h'' (set as)"
      by (rule grows_trans [OF t(5) \<open>grows h' h'' (set bs)\<close>]) (simp_all add: bs(1))
    ultimately show ?thesis
      using False t(1,2) bs sorts_more [of decides k as bs cs] by auto
  qed
qed

lemma core_list_mergesort_sorts:
  assumes "as \<noteq> []" "chain (h_next h) list as" "inv h" "\<forall>a \<in> set as. info a \<in> items"
  shows "\<exists>list' h' bs. core_list_mergesort cmp list h = Some (Inr (list', h')) \<and> sorts decides 1 as bs
    \<and> chain (h_next h') list' bs \<and> inv h' \<and> grows h h' (set as)
    \<and> (2 \<le> length as \<longrightarrow> (\<forall>a \<in> set as. mark (info a) h'))"
  unfolding core_list_mergesort_def using assms by (intro sort_loop_sorts) (simp_all add: runs_seen_1)

end

section \<open>Comparison by a key\<close>

locale list_order = list_compare cmp inv info "by_key key" mark items
  for cmp :: "'r list_cmp"
    and inv :: "'r core_heap_scheme \<Rightarrow> bool"
    and info :: "u32 \<Rightarrow> u32"
    and key :: "u32 \<Rightarrow> 'k::linorder"
    and mark :: "u32 \<Rightarrow> 'r core_heap_scheme \<Rightarrow> bool"
    and items :: "u32 set"
begin

lemma decides_by_key: "decides = by_key (\<lambda>a. key (info a))"
  by (simp add: fun_eq_iff decides_def by_key_def)

lemma core_list_mergesort_sort_key:
  assumes "as \<noteq> []" "chain (h_next h) list as" "inv h" "\<forall>a \<in> set as. info a \<in> items"
  shows "\<exists>list' h'. core_list_mergesort cmp list h = Some (Inr (list', h'))
    \<and> chain (h_next h') list' (sort_key (\<lambda>a. key (info a)) as) \<and> inv h' \<and> grows h h' (set as)
    \<and> (2 \<le> length as \<longrightarrow> (\<forall>a \<in> set as. mark (info a) h'))"
proof -
  obtain list' h' bs where r: "core_list_mergesort cmp list h = Some (Inr (list', h'))" "sorts decides 1 as bs"
    "chain (h_next h') list' bs" "inv h'" "grows h h' (set as)"
    "2 \<le> length as \<longrightarrow> (\<forall>a \<in> set as. mark (info a) h')"
    using core_list_mergesort_sorts [OF assms] by blast
  have "bs = sort_key (\<lambda>a. key (info a)) as"
    using r(2) sorts_sort_key [of "\<lambda>a. key (info a)" 1 as bs] by (simp add: decides_by_key run_sort_1)
  then show ?thesis
    using r by auto
qed

end

section \<open>Comparison by index\<close>

text \<open>The value \<open>cmp_idx\<close> regenerates: the upper byte twice.\<close>

definition regen :: "u16 \<Rightarrow> u16" where
  "regen d = (d AND 0xff00) OR (0x00ff AND signed_drop_bit 8 d)"

lemma regen_bits: "bit (regen d) i \<longleftrightarrow> i < 16 \<and> bit d (if i < 8 then 8 + i else i)"
proof -
  have m: "(0xff00 :: u16) = push_bit 8 (mask 8)" "(0x00ff :: u16) = mask 8"
    by (simp_all add: mask_eq_exp_minus_1)
  show ?thesis
    unfolding regen_def m
    by (cases "i < 16") (auto simp: bit_simps dest: bit_imp_le_length)
qed

lemma regen_high:
  "drop_bit 8 (regen d) = drop_bit 8 d" "drop_bit 8 d = drop_bit 8 d' \<Longrightarrow> regen d = regen d'"
proof -
  show "drop_bit 8 (regen d) = drop_bit 8 d"
    by (rule bit_word_eqI) (auto simp: bit_simps regen_bits dest: bit_imp_le_length)
  assume eq: "drop_bit 8 d = drop_bit 8 d'"
  have "bit d (8 + i) = bit d' (8 + i)" for i
    using arg_cong [OF eq, of "\<lambda>w. bit w i"] by (simp add: bit_simps)
  then have "bit d i = bit d' i" if "8 \<le> i" for i
    using that by (metis le_add_diff_inverse)
  then show "regen d = regen d'"
    by (intro bit_word_eqI) (auto simp: regen_bits)
qed

text \<open>What sorting by index keeps of a heap: all but the \<open>next\<close> fields and the lower bytes of some items.\<close>

definition idx_inv :: "'r core_heap_scheme \<Rightarrow> u32 set \<Rightarrow> 'r core_heap_scheme \<Rightarrow> bool" where
  "idx_inv h0 A h \<longleftrightarrow> h_info h = h_info h0 \<and> h_idx h = h_idx h0 \<and> core_heap.more h = core_heap.more h0
     \<and> (\<forall>a. drop_bit 8 (h_data16 h a) = drop_bit 8 (h_data16 h0 a)) \<and> (\<forall>a. a \<notin> A \<longrightarrow> h_data16 h a = h_data16 h0 a)"

definition idx_mark :: "'r core_heap_scheme \<Rightarrow> u32 \<Rightarrow> 'r core_heap_scheme \<Rightarrow> bool" where
  "idx_mark h0 a h \<longleftrightarrow> h_data16 h a = regen (h_data16 h0 a)"

lemma idx_invD:
  assumes "idx_inv h0 A h"
  shows "h_info h = h_info h0" "h_idx h = h_idx h0" "core_heap.more h = core_heap.more h0"
    "drop_bit 8 (h_data16 h a) = drop_bit 8 (h_data16 h0 a)" "a \<notin> A \<Longrightarrow> h_data16 h a = h_data16 h0 a"
  using assms by (auto simp: idx_inv_def)

lemma regen_data_regen: "regen_data a h = h\<lparr>h_data16 := (h_data16 h)(a := regen (h_data16 h a))\<rparr>"
  by (simp add: regen_data_def regen_def Let_def)

lemma regen_idx_inv:
  assumes "idx_inv h0 A h" "a \<in> A"
  shows "idx_inv h0 A (regen_data a h)" "idx_mark h0 a (regen_data a h)"
    "idx_mark h0 x h \<Longrightarrow> idx_mark h0 x (regen_data a h)" "h_next (regen_data a h) = h_next h"
proof -
  show "idx_inv h0 A (regen_data a h)"
    using assms unfolding idx_inv_def by (auto simp: regen_data_regen regen_high(1))
  show "idx_mark h0 a (regen_data a h)"
    using regen_high(2) [OF idx_invD(4) [OF assms(1)]] by (simp add: idx_mark_def regen_data_regen)
  then show "idx_mark h0 x h \<Longrightarrow> idx_mark h0 x (regen_data a h)"
    by (auto simp: idx_mark_def regen_data_regen)
  show "h_next (regen_data a h) = h_next h"
    by (simp add: regen_data_regen)
qed

interpretation idx_sort: list_order "cmp_idx True" "idx_inv h0 A" "h_info h0" "\<lambda>a. sint (h_idx h0 a)"
  "idx_mark h0" "A - {0}" for h0 A
proof
  fix h a b
  assume h: "idx_inv h0 A h" and ab: "a \<in> A - {0}" "b \<in> A - {0}"
  let ?h = "regen_data b (regen_data a h)"
  note ra = regen_idx_inv [OF h, of a]
  note rb = regen_idx_inv [OF ra(1), of b]
  have "cmp_idx True a b h = Some (Inr (sint (h_idx h0 a) - sint (h_idx h0 b), ?h))"
    using ab idx_invD(2) [OF rb(1)] by (simp add: cmp_idx_def)
  then show "\<exists>c h'. cmp_idx True a b h = Some (Inr (c, h')) \<and> idx_inv h0 A h' \<and> h_next h' = h_next h
      \<and> by_key (\<lambda>a. sint (h_idx h0 a)) a b (c \<le> 0) \<and> idx_mark h0 a h' \<and> idx_mark h0 b h'
      \<and> (\<forall>x. idx_mark h0 x h \<longrightarrow> idx_mark h0 x h')"
    using ra rb ab by (auto simp: by_key_def)
next
  show "idx_inv h0 A h \<Longrightarrow> h_info h = h_info h0" for h
    by (rule idx_invD)
  show "idx_inv h0 A h \<Longrightarrow> idx_inv h0 A (set_next p v h)" for h p v
    by (simp add: idx_inv_def set_next_def)
  show "idx_mark h0 x h \<Longrightarrow> idx_mark h0 x (set_next p v h)" for h x p v
    by (simp add: idx_mark_def)
qed

lemma mergesort_by_idx:
  assumes "as \<noteq> []" "chain (h_next h) list as" "\<forall>a \<in> set as. h_info h a \<noteq> 0"
  shows "\<exists>list' h'. core_list_mergesort (cmp_idx True) list h = Some (Inr (list', h'))
    \<and> chain (h_next h') list' (sort_key (\<lambda>a. sint (h_idx h (h_info h a))) as)
    \<and> idx_inv h (h_info h ` set as) h' \<and> (\<forall>a. a \<notin> set as \<longrightarrow> h_next h' a = h_next h a)
    \<and> (2 \<le> length as \<longrightarrow> (\<forall>a \<in> set as. h_data16 h' (h_info h a) = regen (h_data16 h (h_info h a))))"
proof -
  have "idx_inv h (h_info h ` set as) h" "\<forall>a \<in> set as. h_info h a \<in> h_info h ` set as - {0}"
    using assms(3) by (auto simp: idx_inv_def)
  from idx_sort.core_list_mergesort_sort_key [OF assms(1,2) this] show ?thesis
    by (auto simp: idx_sort.grows_def idx_mark_def)
qed

text \<open>
  C9. \<open>core_list_mergesort\<close> by index returns on every finite non-empty list, with the list of the same cells
  stably sorted by the signed index of their data. Nothing but \<open>next\<close> fields of these cells and data values
  changes, and in a list of two or more cells every data value is regenerated from its upper byte.
\<close>
theorem core_list_mergesort_stable:
  assumes "as \<noteq> []" "chain (h_next h) list as" "\<forall>a \<in> set as. h_info h a \<noteq> 0"
  shows "\<exists>list' h'. core_list_mergesort (cmp_idx True) list h = Some (Inr (list', h'))
    \<and> chain (h_next h') list' (sort_key (\<lambda>a. sint (h_idx h (h_info h a))) as)
    \<and> (\<forall>a. a \<notin> set as \<longrightarrow> h_next h' a = h_next h a) \<and> h_info h' = h_info h \<and> h_idx h' = h_idx h
    \<and> (\<forall>a. a \<notin> h_info h ` set as \<longrightarrow> h_data16 h' a = h_data16 h a)
    \<and> (2 \<le> length as \<longrightarrow> (\<forall>a \<in> set as. h_data16 h' (h_info h a) = regen (h_data16 h (h_info h a))))"
proof -
  obtain list' h' where r: "core_list_mergesort (cmp_idx True) list h = Some (Inr (list', h'))"
    "chain (h_next h') list' (sort_key (\<lambda>a. sint (h_idx h (h_info h a))) as)"
    "idx_inv h (h_info h ` set as) h'" "\<forall>a. a \<notin> set as \<longrightarrow> h_next h' a = h_next h a"
    "2 \<le> length as \<longrightarrow> (\<forall>a \<in> set as. h_data16 h' (h_info h a) = regen (h_data16 h (h_info h a)))"
    using mergesort_by_idx [OF assms] by blast
  show ?thesis
    using r idx_invD(1,2,5) [OF r(3)] by (intro exI [of _ list'] exI [of _ h']) blast
qed

definition sample_heap :: core_heap where
  "sample_heap = \<lparr>h_next = (\<lambda>_. 0)(8 := 16, 16 := 24), h_info = (\<lambda>_. 0)(8 := 100, 16 := 104, 24 := 108),
    h_data16 = (\<lambda>_. 0x1234), h_idx = (\<lambda>_. 0)(100 := 3, 104 := 0xffff, 108 := 2)\<rparr>"

lemma core_list_mergesort_stable_witness:
  "chain (h_next sample_heap) 8 [8, 16, 24]
    \<and> (\<exists>list' h'. core_list_mergesort (cmp_idx True) 8 sample_heap = Some (Inr (list', h')) \<and> chain (h_next h') list' [16, 24, 8]
        \<and> h_data16 h' 100 = 0x1212)"
proof -
  have "chain (h_next sample_heap) 8 [8, 16, 24]" "\<forall>a \<in> set [8, 16, 24]. h_info sample_heap a \<noteq> 0"
    by (simp_all add: sample_heap_def)
  moreover have "sort_key (\<lambda>a. sint (h_idx sample_heap (h_info sample_heap a))) [8, 16, 24] = [16, 24, 8]"
    by (simp add: sample_heap_def)
  moreover have "regen 0x1234 = 0x1212"
    by (simp add: regen_def)
  ultimately show ?thesis
    using core_list_mergesort_stable [of "[8, 16, 24]" sample_heap 8] by (auto simp: sample_heap_def)
qed

text \<open>The empty list is no exception the code allows for: the pass leaves \<open>tail\<close> null, and \<open>tail->next\<close> is written.\<close>

lemma core_list_mergesort_empty: "core_list_mergesort cmp 0 h = Some (Inl Overrun)"
  unfolding core_list_mergesort_def by (subst sort_loop.simps, subst pass_loop.simps) simp

section \<open>Removal, search and insertion\<close>

lemma remove_undo:
  assumes "item \<noteq> 0" "h_next h item \<noteq> 0" "h_next h item \<noteq> item"
  shows "\<exists>h'. core_list_remove item h = Some (Inr (h_next h item, h'))
    \<and> core_list_undo_remove (h_next h item) item h' = Some (Inr (h_next h item, h))
    \<and> h_next h' = (h_next h)(item := h_next h (h_next h item), h_next h item := 0)
    \<and> h_info h' = (h_info h)(item := h_info h (h_next h item), h_next h item := h_info h item)
    \<and> h' = h\<lparr>h_next := h_next h', h_info := h_info h'\<rparr>"
  using assms
  by (auto simp: core_list_remove_def core_list_undo_remove_def load_next_def load_info_def set_next_def
      set_info_def Let_def fun_upd_twist intro!: core_heap.equality)

lemma core_list_find_chain:
  assumes "chain (h_next h) list as" "\<forall>a \<in> set as. h_info h a \<noteq> 0"
  shows "core_list_find list info h =
    Some (Inr (case List.find (find_match info h) as of None \<Rightarrow> 0 | Some a \<Rightarrow> a))"
  using assms
proof (induction as arbitrary: list)
  case Nil
  then show ?case by (simp add: core_list_find.simps)
next
  case (Cons a as)
  then show ?case by (subst core_list_find.simps) auto
qed

text \<open>Inserting a new cell behind a cell of a list, and the moves of cells in \<open>core_bench_list\<close>.\<close>

lemma chain_same_next: "(\<And>a. a \<in> set as \<Longrightarrow> nxt a = nxt' a) \<Longrightarrow> chain nxt p as \<longleftrightarrow> chain nxt' p as"
  by (induction as arbitrary: p) auto

lemma chain_split:
  assumes "distinct (as @ bs)" "as \<noteq> []"
  shows "chain nxt p (as @ bs) \<longleftrightarrow> path nxt p as \<and> chain nxt (nxt (last as)) bs"
  using assms
proof (induction as arbitrary: p)
  case (Cons a as)
  then show ?case by (cases as) auto
qed simp

lemma chain_insert:
  assumes "chain nxt p (as @ a # bs)" "b \<notin> set (as @ a # bs)" "b \<noteq> 0"
  shows "chain (nxt(b := nxt a, a := b)) p (as @ a # b # bs)"
  using assms
proof (induction as arbitrary: p)
  case Nil
  let ?n = "nxt(b := nxt a, a := b)"
  have "a \<notin> set bs"
    using Nil.prems(1) chain_distinct by fastforce
  then have "chain ?n (nxt a) bs"
    using Nil.prems chain_same_next [of bs ?n nxt] by auto
  then show ?case
    using Nil.prems by (auto simp del: fun_upd_apply) (simp_all add: fun_upd_def)
next
  case (Cons c as)
  then have "c \<noteq> a" "c \<noteq> b"
    using chain_distinct [OF Cons.prems(1)] by auto
  then show ?case
    using Cons by (auto simp del: fun_upd_apply) simp
qed

end
