(* ===== verification/Core_Bench.thy ===== *)
theory Core_Bench
  imports Core_State Core_Sort Xaccel_Kernels
begin

text \<open>
  The list benchmark of CoreMark on its results structure: \<open>calc_func\<close>, \<open>cmp_complex\<close> and \<open>core_bench_list\<close> of
  \<open>core_list_join.c\<close>, \<open>core_bench_matrix\<close> of \<open>core_matrix.c\<close> and \<open>iterate\<close> of \<open>core_main.c\<close>. Sorting by content
  calls the other two benchmarks through the comparison. The result: one call of \<open>core_bench_list\<close> returns
  and leaves the list, its data, the state block and the operand matrices as they were, so that every
  iteration of the benchmark works on the same input.
\<close>

section \<open>Results structure\<close>

text \<open>
  The fields of \<open>core_results\<close> the benchmark uses. \<open>memblock[3]\<close> is the address of the state block in the byte memory
  \<open>r_mem\<close>; the matrices of \<open>mat\<close> are held by value. The blocks of the three algorithms are disjoint.
\<close>

record core_results = core_heap +
  r_seed1 :: u16
  r_seed2 :: u16
  r_seed3 :: u16
  r_memblock3 :: u32
  r_size :: u32
  r_iterations :: u32
  r_list :: u32
  r_N :: u32
  r_A :: matdat
  r_B :: matdat
  r_C :: matres
  r_mem :: "u32 \<Rightarrow> u8"
  r_crc :: u16
  r_crclist :: u16
  r_crcmatrix :: u16
  r_crcstate :: u16

definition core_bench_matrix :: "u16 \<Rightarrow> u16 \<Rightarrow> core_results \<Rightarrow> u16 \<times> core_results" where
  "core_bench_matrix seed crc h =
     (let (t, C, A) = matrix_test (unat (r_N h)) (r_C h) (r_A h) (r_B h) seed
      in (crc16 t crc, h\<lparr>r_C := C, r_A := A\<rparr>))"

section \<open>Comparison by content\<close>

text \<open>The two calls of \<open>calc_func\<close>, with the result stored in the field it is the first of.\<close>

definition calc_state :: "u16 \<Rightarrow> core_results \<Rightarrow> (u16 \<times> core_results) comp" where
  "calc_state dtype h =
     (let dtype = (if sint dtype < 0x22 then 0x22 else dtype)
      in map_option (\<lambda>(retval, mem).
           Inr (retval, h\<lparr>r_mem := mem, r_crcstate := (if r_crcstate h = 0 then retval else r_crcstate h)\<rparr>))
         (core_bench_state (r_size h) (r_memblock3 h) (r_seed1 h) (r_seed2 h) dtype (r_crc h) (r_mem h)))"

definition calc_matrix :: "u16 \<Rightarrow> core_results \<Rightarrow> u16 \<times> core_results" where
  "calc_matrix dtype h =
     (let (retval, h) = core_bench_matrix dtype (r_crc h) h
      in (retval, h\<lparr>r_crcmatrix := (if r_crcmatrix h = 0 then retval else r_crcmatrix h)\<rparr>))"

definition calc_func :: "u32 \<Rightarrow> core_results \<Rightarrow> (u16 \<times> core_results) comp" where
  "calc_func pdata h =
     (if pdata = 0 then Some (Inl Overrun) else
      let data = h_data16 h pdata; optype = signed_drop_bit 7 data AND 1
      in if optype \<noteq> 0 then Some (Inr (data AND 0x007f, h))
         else let flag = data AND 0x7;
                  dtype = signed_drop_bit 3 data AND 0xf;
                  dtype = dtype OR push_bit 4 dtype
              in cbind (if flag = 0 then calc_state dtype h
                        else if flag = 1 then Some (Inr (calc_matrix dtype h))
                        else Some (Inr (data, h))) (\<lambda>(retval, h).
                 let h = h\<lparr>r_crc := crcu16 retval (r_crc h)\<rparr>;
                     retval = retval AND 0x007f;
                     h = h\<lparr>h_data16 := (h_data16 h)(pdata := (data AND 0xff00) OR 0x0080 OR retval)\<rparr>
                 in Some (Inr (retval, h))))"

definition cmp_complex :: "u32 \<Rightarrow> u32 \<Rightarrow> core_results \<Rightarrow> (int \<times> core_results) comp" where
  "cmp_complex a b h =
     cbind (calc_func a h) (\<lambda>(val1, h).
     cbind (calc_func b h) (\<lambda>(val2, h). Some (Inr (sint val1 - sint val2, h))))"

section \<open>The list benchmark\<close>

text \<open>The local variables of \<open>core_bench_list\<close>; \<open>info\<close> is the pair of its fields \<open>data16\<close> and \<open>idx\<close>.\<close>

record bench =
  b_list :: u32
  b_info :: "u16 \<times> u16"
  b_retval :: u16
  b_found :: u16
  b_missed :: u16

definition load_data :: "core_results \<Rightarrow> u32 \<Rightarrow> u16 comp" where
  "load_data h p = cbind (load_info h p) (\<lambda>i. if i = 0 then Some (Inl Overrun) else Some (Inr (h_data16 h i)))"

definition missed_item :: "bench \<Rightarrow> core_results \<Rightarrow> (bench \<times> core_results) comp" where
  "missed_item b h =
     cbind (load_next h (b_list b)) (\<lambda>second.
     cbind (load_data h second) (\<lambda>d.
       Some (Inr (b\<lparr>b_missed := b_missed b + 1, b_retval := b_retval b + (signed_drop_bit 8 d AND 1)\<rparr>, h))))"

text \<open>The cell behind the one found is moved to the second place.\<close>

definition cache_item :: "u32 \<Rightarrow> u32 \<Rightarrow> core_results \<Rightarrow> core_results comp" where
  "cache_item list this_find h =
     cbind (load_next h this_find) (\<lambda>finder.
       if finder = 0 then Some (Inr h)
       else let h = set_next this_find (h_next h finder) h
            in cbind (load_next h list) (\<lambda>second.
               let h = set_next finder second h;
                   h = set_next list finder h
               in Some (Inr h)))"

definition found_item :: "u32 \<Rightarrow> bench \<Rightarrow> core_results \<Rightarrow> (bench \<times> core_results) comp" where
  "found_item this_find b h =
     cbind (load_data h this_find) (\<lambda>d.
       let b = b\<lparr>b_found := b_found b + 1,
                 b_retval := (if d AND 1 \<noteq> 0 then b_retval b + (signed_drop_bit 9 d AND 1) else b_retval b)\<rparr>
       in cbind (cache_item (b_list b) this_find h) (\<lambda>h. Some (Inr (b, h))))"

definition find_step :: "nat \<Rightarrow> bench \<Rightarrow> core_results \<Rightarrow> (bench \<times> core_results) comp" where
  "find_step i b h =
     (let b = b\<lparr>b_info := (of_nat i AND 0xff, snd (b_info b))\<rparr>
      in cbind (core_list_find (b_list b) (b_info b) h) (\<lambda>this_find.
         cbind (map_option Inr (core_list_reverse (h_next h) (b_list b))) (\<lambda>(list, nxt).
         let b = b\<lparr>b_list := list\<rparr>; h = h\<lparr>h_next := nxt\<rparr>
         in cbind (if this_find = 0 then missed_item b h else found_item this_find b h) (\<lambda>(b, h).
            let idx = snd (b_info b)
            in Some (Inr (if sint idx \<ge> 0 then b\<lparr>b_info := (fst (b_info b), idx + 1)\<rparr> else b, h))))))"

fun find_loop :: "nat \<Rightarrow> nat \<Rightarrow> bench \<Rightarrow> core_results \<Rightarrow> (bench \<times> core_results) comp" where
  "find_loop i 0 b h = Some (Inr (b, h))"
| "find_loop i (Suc n) b h = cbind (find_step i b h) (\<lambda>(b, h). find_loop (i + 1) n b h)"

text \<open>\<open>while (finder) { retval = crc16(list->info->data16, retval); finder = finder->next; }\<close>\<close>

partial_function (option) crc_loop :: "u32 \<Rightarrow> u32 \<Rightarrow> u16 \<Rightarrow> core_results \<Rightarrow> u16 comp" where
  "crc_loop list finder retval h =
     (if finder = 0 then Some (Inr retval)
      else cbind (load_data h list) (\<lambda>d. crc_loop list (h_next h finder) (crc16 d retval) h))"

definition core_bench_list :: "u16 \<Rightarrow> core_results \<Rightarrow> (u16 \<times> core_results) comp" where
  "core_bench_list finder_idx h =
     cbind (find_loop 0 (nat (sint (r_seed3 h)))
       \<lparr>b_list = r_list h, b_info = (0, finder_idx), b_retval = 0, b_found = 0, b_missed = 0\<rparr> h) (\<lambda>(b, h).
     let retval = b_retval b + (b_found b * 4 - b_missed b) in
     cbind (if sint finder_idx > 0 then core_list_mergesort cmp_complex (b_list b) h
            else Some (Inr (b_list b, h))) (\<lambda>(list, h).
     cbind (load_next h list) (\<lambda>second.
     cbind (core_list_remove second h) (\<lambda>(remover, h).
     cbind (core_list_find list (b_info b) h) (\<lambda>finder.
     cbind (if finder = 0 then load_next h list else Some (Inr finder)) (\<lambda>finder.
     cbind (crc_loop list finder retval h) (\<lambda>retval.
     cbind (load_next h list) (\<lambda>second.
     cbind (core_list_undo_remove remover second h) (\<lambda>(remover, h).
     cbind (core_list_mergesort (cmp_idx True) list h) (\<lambda>(list, h).
     cbind (load_next h list) (\<lambda>finder.
     cbind (crc_loop list finder retval h) (\<lambda>retval.
       Some (Inr (retval, h))))))))))))))"

section \<open>Iterations\<close>

definition iterate_step :: "nat \<Rightarrow> core_results \<Rightarrow> core_results comp" where
  "iterate_step i h =
     cbind (core_bench_list 1 h) (\<lambda>(crc, h).
     let h = h\<lparr>r_crc := crcu16 crc (r_crc h)\<rparr> in
     cbind (core_bench_list (- 1) h) (\<lambda>(crc, h).
     let h = h\<lparr>r_crc := crcu16 crc (r_crc h)\<rparr> in
     Some (Inr (if i = 0 then h\<lparr>r_crclist := r_crc h\<rparr> else h))))"

fun iterate_loop :: "nat \<Rightarrow> nat \<Rightarrow> core_results \<Rightarrow> core_results comp" where
  "iterate_loop i 0 h = Some (Inr h)"
| "iterate_loop i (Suc n) h = cbind (iterate_step i h) (\<lambda>h. iterate_loop (i + 1) n h)"

definition iterate :: "core_results \<Rightarrow> core_results comp" where
  "iterate h = iterate_loop 0 (unat (r_iterations h))
     (h\<lparr>r_crc := 0, r_crclist := 0, r_crcmatrix := 0, r_crcstate := 0\<rparr>)"

section \<open>What a comparison by content keeps\<close>

text \<open>The parts of the results structure the benchmark only reads.\<close>

definition inputs where
  "inputs h = (h_info h, h_idx h, r_seed1 h, r_seed2 h, r_seed3 h, r_memblock3 h, r_size h, r_iterations h, r_list h,
     r_N h, r_A h, r_B h, r_mem h, core_results.more h)"

text \<open>The state benchmark restores its block: equal seeds, and no byte that corruption turns into a comma.\<close>

definition repeatable :: "core_results \<Rightarrow> bool" where
  "repeatable h \<longleftrightarrow> state_block (r_size h) (r_memblock3 h) (r_mem h)
     \<and> (ucast (r_seed1 h) :: u8) = ucast (r_seed2 h)
     \<and> (\<forall>a. r_memblock3 h \<le> a \<longrightarrow> a < r_memblock3 h + r_size h \<longrightarrow>
          r_mem h a = 0x2c XOR ucast (r_seed1 h) \<longrightarrow> (ucast (r_seed1 h) :: u8) = 0)"

lemma repeatable_inputs: "inputs h = inputs h' \<Longrightarrow> repeatable h \<longleftrightarrow> repeatable h'"
  by (simp add: inputs_def repeatable_def)

lemma dtype_bound: "unat ((x AND 0xf) OR push_bit 4 (x AND 0xf) :: u16) < 256"
proof -
  have m: "(0xf :: u16) = mask 4"
    by (simp add: mask_eq_exp_minus_1)
  have "(x AND 0xf) OR push_bit 4 (x AND 0xf) = ((x AND 0xf) OR push_bit 4 (x AND 0xf)) AND mask 8"
    unfolding m by (rule bit_word_eqI) (auto simp: bit_simps)
  then show ?thesis
    using unat_and_mask_less [of 8 "(x AND 0xf) OR push_bit 4 (x AND 0xf)"] by simp
qed

lemma calc_state_returns:
  assumes "repeatable h" "unat dtype < 256"
  shows "\<exists>v h'. calc_state dtype h = Some (Inr (v, h')) \<and> inputs h' = inputs h \<and> h_next h' = h_next h
    \<and> h_data16 h' = h_data16 h"
proof -
  define step where "step = (if sint dtype < 0x22 then 0x22 else dtype)"
  have "sint dtype < 0x22 \<longleftrightarrow> unat dtype < 34"
    unfolding sint_small [OF assms(2)] by linarith
  then have step: "2 \<le> unat step" "unat step < 256"
    using assms(2) by (auto simp: step_def)
  have "state_block (r_size h) (r_memblock3 h) (r_mem h)"
    using assms(1) by (simp add: repeatable_def)
  from core_bench_state_runs [OF this step, of "r_seed1 h" "r_seed2 h" "r_crc h"] obtain crc' where
    "core_bench_state (r_size h) (r_memblock3 h) (r_seed1 h) (r_seed2 h) step (r_crc h) (r_mem h) =
       Some (crc', corrupted (ucast (r_seed1 h)) (unat step) (r_memblock3 h) (r_memblock3 h + r_size h)
         (corrupted (ucast (r_seed1 h)) (unat step) (r_memblock3 h) (r_memblock3 h + r_size h) (r_mem h)))"
    using assms(1) by (auto simp: repeatable_def)
  moreover have "corrupted (ucast (r_seed1 h)) (unat step) (r_memblock3 h) (r_memblock3 h + r_size h)
         (corrupted (ucast (r_seed1 h)) (unat step) (r_memblock3 h) (r_memblock3 h + r_size h) (r_mem h)) = r_mem h"
    using assms(1) by (intro corrupted_twice) (auto simp: repeatable_def)
  ultimately show ?thesis
    by (simp add: calc_state_def Let_def flip: step_def) (simp add: inputs_def)
qed

lemma calc_matrix_keeps:
  assumes "calc_matrix dtype h = (v, h')"
  shows "inputs h' = inputs h" "h_next h' = h_next h" "h_data16 h' = h_data16 h"
  using assms matrix_test_operand [of "unat (r_N h)" "r_C h" "r_A h" "r_B h" dtype]
  by (auto simp: calc_matrix_def core_bench_matrix_def inputs_def split: prod.splits)

text \<open>\<open>res_inv h0 A\<close>: a heap the benchmark can reach from \<open>h0\<close> by sorting items with data in \<open>A\<close>.\<close>

definition res_inv :: "core_results \<Rightarrow> u32 set \<Rightarrow> core_results \<Rightarrow> bool" where
  "res_inv h0 A h \<longleftrightarrow> repeatable h0 \<and> inputs h = inputs h0
     \<and> (\<forall>a. drop_bit 8 (h_data16 h a) = drop_bit 8 (h_data16 h0 a)) \<and> (\<forall>a. a \<notin> A \<longrightarrow> h_data16 h a = h_data16 h0 a)"

lemma cached_high: "drop_bit 8 ((d AND 0xff00) OR 0x0080 OR (v AND 0x007f)) = drop_bit 8 d" for d :: u16
proof -
  have m: "(0xff00 :: u16) = push_bit 8 (mask 8)" "(0x007f :: u16) = mask 7" "(0x0080 :: u16) = push_bit 7 1"
    by (simp_all add: mask_eq_exp_minus_1)
  show ?thesis
    unfolding m by (rule bit_word_eqI) (auto simp: bit_simps dest: bit_imp_le_length)
qed

lemma calc_func_returns:
  assumes "res_inv h0 A h" "a \<in> A - {0}"
  shows "\<exists>v h'. calc_func a h = Some (Inr (v, h')) \<and> res_inv h0 A h' \<and> h_next h' = h_next h"
proof -
  define d where "d = h_data16 h a"
  define t where "t = (signed_drop_bit 3 d AND 0xf) OR push_bit 4 (signed_drop_bit 3 d AND 0xf)"
  define r where "r = (if d AND 7 = 0 then calc_state t h
    else if d AND 7 = 1 then Some (Inr (calc_matrix t h)) else Some (Inr (d, h)))"
  have rep: "repeatable h"
    using assms(1) repeatable_inputs [of h h0] by (simp add: res_inv_def)
  have "unat t < 256"
    unfolding t_def by (rule dtype_bound)
  note state = calc_state_returns [OF rep this]
  have "r = calc_state t h \<or> r = Some (Inr (calc_matrix t h)) \<or> r = Some (Inr (d, h))"
    unfolding r_def by (simp only: simp_thms split: if_split)
  then have "\<exists>v h1. r = Some (Inr (v, h1)) \<and> inputs h1 = inputs h \<and> h_next h1 = h_next h \<and> h_data16 h1 = h_data16 h"
    using state calc_matrix_keeps [of t h] surj_pair [of "calc_matrix t h"] by metis
  then obtain v h1 where r: "r = Some (Inr (v, h1))" "inputs h1 = inputs h" "h_next h1 = h_next h" "h_data16 h1 = h_data16 h"
    by blast
  let ?h = "h1\<lparr>r_crc := crcu16 v (r_crc h1), h_data16 := (h_data16 h)(a := (d AND 0xff00) OR 0x0080 OR (v AND 0x007f))\<rparr>"
  have "calc_func a h = (if signed_drop_bit 7 d AND 1 \<noteq> 0 then Some (Inr (d AND 0x007f, h)) else Some (Inr (v AND 0x007f, ?h)))"
    using assms(2) r(1,4) unfolding r_def t_def d_def by (simp add: calc_func_def Let_def)
  moreover have "res_inv h0 A ?h"
    using assms r(2,3,4) cached_high [of d v]
    by (auto simp: res_inv_def inputs_def d_def simp del: drop_bit_or)
  ultimately show ?thesis
    using assms(1) r(3) by auto
qed

lemma res_inv_next: "res_inv h0 A h \<Longrightarrow> res_inv h0 A (h\<lparr>h_next := n\<rparr>)"
  by (simp add: res_inv_def inputs_def)

interpretation complex_sort: list_compare cmp_complex "res_inv h0 A" "h_info h0" "\<lambda>_ _ _. True" "\<lambda>_ _. True"
  "A - {0}" for h0 A
proof
  fix h a b
  assume h: "res_inv h0 A h" and ab: "a \<in> A - {0}" "b \<in> A - {0}"
  from calc_func_returns [OF h ab(1)] obtain v h1 where 1: "calc_func a h = Some (Inr (v, h1))" "res_inv h0 A h1"
    "h_next h1 = h_next h" by blast
  from calc_func_returns [OF 1(2) ab(2)] obtain w h2 where "calc_func b h1 = Some (Inr (w, h2))" "res_inv h0 A h2"
    "h_next h2 = h_next h1" by blast
  with 1 show "\<exists>c h'. cmp_complex a b h = Some (Inr (c, h')) \<and> res_inv h0 A h' \<and> h_next h' = h_next h
      \<and> True \<and> True \<and> True \<and> (\<forall>x. True \<longrightarrow> True)"
    by (simp add: cmp_complex_def)
qed (simp_all add: res_inv_next set_next_def, simp add: res_inv_def inputs_def)

section \<open>The steps of the list benchmark\<close>

text \<open>A list with the cells \<open>as\<close> in some order, on a heap reached from \<open>h0\<close>.\<close>

definition ring :: "core_results \<Rightarrow> u32 list \<Rightarrow> u32 \<Rightarrow> core_results \<Rightarrow> bool" where
  "ring h0 as list h \<longleftrightarrow> (\<exists>bs. chain (h_next h) list bs \<and> mset bs = mset as)
     \<and> res_inv h0 (h_info h0 ` set as) h \<and> (\<forall>a. a \<notin> set as \<longrightarrow> h_next h a = h_next h0 a)"

definition good_list :: "core_results \<Rightarrow> u32 list \<Rightarrow> bool" where
  "good_list h as \<longleftrightarrow> chain (h_next h) (r_list h) as \<and> 3 \<le> length as \<and> (\<forall>a \<in> set as. h_info h a \<noteq> 0) \<and> repeatable h"

lemma ring_start: "good_list h as \<Longrightarrow> ring h as (r_list h) h"
  by (auto simp: good_list_def ring_def res_inv_def)

lemma ring_info: "ring h0 as list h \<Longrightarrow> h_info h = h_info h0"
  by (simp add: ring_def res_inv_def inputs_def)

lemma ringI:
  assumes "ring h0 as list h" "chain n list' bs" "mset bs = mset as" "\<And>a. a \<notin> set as \<Longrightarrow> n a = h_next h a"
  shows "ring h0 as list' (h\<lparr>h_next := n\<rparr>)"
  using assms by (auto simp: ring_def res_inv_next)

lemma ring_reverse:
  assumes "ring h0 as list h"
  shows "\<exists>list' n. core_list_reverse (h_next h) list = Some (list', n) \<and> ring h0 as list' (h\<lparr>h_next := n\<rparr>)"
proof -
  obtain bs where bs: "chain (h_next h) list bs" "mset bs = mset as"
    using assms by (auto simp: ring_def)
  then obtain list' n where r: "core_list_reverse (h_next h) list = Some (list', n)" "chain n list' (rev bs)"
      "\<forall>a. a \<notin> set bs \<longrightarrow> n a = h_next h a"
    using list_reverse_loop_chain [OF bs(1), of 0 "[]"] by (auto simp: core_list_reverse_def)
  have "set bs = set as"
    using bs(2) by (metis set_mset_mset)
  then show ?thesis
    using r bs(2) ringI [OF assms r(2)] by auto
qed

lemma chain_skip:
  "chain nxt p (as @ a # g # bs) \<Longrightarrow> chain (nxt(a := nxt g)) p (as @ a # bs)"
proof (induction as arbitrary: p)
  case Nil
  then have "a \<notin> set bs"
    using chain_distinct by fastforce
  with Nil show ?case
    by (auto simp del: fun_upd_apply) simp
next
  case (Cons c as)
  then have "c \<noteq> a"
    using chain_distinct by fastforce
  then show ?case
    using Cons.IH [of "nxt c"] Cons.prems by simp
qed

lemma chain_cache:
  assumes "chain nxt list (list # us @ p # g # vs)"
  shows "chain (nxt(p := nxt g, g := nxt list, list := g)) list (list # g # us @ p # vs)"
proof -
  have d: "distinct (list # us @ p # g # vs)"
    using chain_distinct [OF assms] .
  have "chain (nxt(p := nxt g)) (nxt list) (us @ p # vs)"
    using assms by (intro chain_skip) simp
  moreover have "g \<noteq> 0"
    using chain_not_0 [OF assms] by auto
  ultimately show ?thesis
    using d assms by (auto simp del: fun_upd_apply) (simp_all add: fun_upd_def)
qed

lemma ring_cells:
  assumes "ring h0 as list h" "good_list h0 as"
  obtains bs where "chain (h_next h) list bs" "mset bs = mset as" "set bs = set as" "3 \<le> length bs"
    "\<forall>a \<in> set bs. h_info h a \<noteq> 0"
proof -
  obtain bs where bs: "chain (h_next h) list bs" "mset bs = mset as"
    using assms(1) by (auto simp: ring_def)
  moreover from bs(2) have "set bs = set as" "length bs = length as"
    by (metis set_mset_mset, metis size_mset)
  ultimately show thesis
    using that assms(2) ring_info [OF assms(1)] by (auto simp: good_list_def)
qed

lemma cache_item_ring:
  assumes "ring h0 as list h" "good_list h0 as" "p \<in> set as"
  shows "\<exists>h'. cache_item list p h = Some (Inr h') \<and> ring h0 as list h'"
proof -
  obtain bs where bs: "chain (h_next h) list bs" "mset bs = mset as" "set bs = set as"
    using ring_cells [OF assms(1,2)] by blast
  obtain us ws where ws: "bs = us @ p # ws"
    using assms(3) bs(3) by (metis split_list)
  have p: "p \<noteq> 0" "chain (h_next h) p (p # ws)"
    using chain_not_0 [OF bs(1)] chain_append bs(1) ws by auto
  show ?thesis
  proof (cases ws)
    case Nil
    then have "cache_item list p h = Some (Inr h)"
      using p by (simp add: cache_item_def load_next_def)
    then show ?thesis
      using assms(1) by blast
  next
    case (Cons g vs)
    have d: "distinct (us @ p # g # vs)"
      using chain_distinct [OF bs(1)] ws Cons by simp
    have g: "h_next h p = g" "g \<noteq> 0"
      using p(2) Cons by auto
    have l: "list \<noteq> 0" "list = hd bs"
      using bs(1) ws by (cases us; auto)+
    define n where "n = (h_next h)(p := h_next h g, g := ((h_next h)(p := h_next h g)) list, list := g)"
    have c: "cache_item list p h = Some (Inr (h\<lparr>h_next := n\<rparr>))"
      using p(1) g l(1) by (simp add: cache_item_def load_next_def Let_def set_next_def n_def)
    have "\<exists>cs. chain n list cs \<and> mset cs = mset as"
    proof (cases us)
      case Nil
      then have "n = h_next h"
        using g l ws d Cons by (auto simp: n_def)
      then show ?thesis
        using bs by auto
    next
      case (Cons l' us')
      then have bs': "bs = list # us' @ p # g # vs"
        using ws \<open>ws = g # vs\<close> l(2) by simp
      then have "chain n list (list # g # us' @ p # vs)"
        using chain_cache [of "h_next h" list us' p g vs] bs(1) chain_distinct [OF bs(1)] by (simp add: n_def)
      moreover have "mset (list # g # us' @ p # vs) = mset as"
        using bs(2) bs' by (simp add: add_mset_commute)
      ultimately show ?thesis
        by blast
    qed
    moreover have "list \<in> set bs"
      unfolding l(2) using ws by (intro hd_in_set) simp
    then have "p \<in> set as" "g \<in> set as" "list \<in> set as"
      using bs(3) ws Cons by auto
    then have "n a = h_next h a" if "a \<notin> set as" for a
      using that unfolding n_def by (metis fun_upd_other)
    ultimately have "ring h0 as list (h\<lparr>h_next := n\<rparr>)"
      using ringI [OF assms(1)] by blast
    then show ?thesis
      using c by blast
  qed
qed

lemma ring_second:
  assumes "ring h0 as list h" "good_list h0 as"
  obtains a c vs where "chain (h_next h) list (list # a # c # vs)" "mset (list # a # c # vs) = mset as"
    "set (list # a # c # vs) = set as" "\<forall>x \<in> set (list # a # c # vs). h_info h x \<noteq> 0"
    "list \<noteq> 0" "h_next h list = a" "a \<noteq> 0" "h_next h a = c" "c \<noteq> 0"
proof -
  obtain bs where bs: "chain (h_next h) list bs" "mset bs = mset as" "set bs = set as" "3 \<le> length bs"
    "\<forall>a \<in> set bs. h_info h a \<noteq> 0"
    using ring_cells [OF assms] by blast
  then obtain l a c vs where "bs = l # a # c # vs"
    by (cases bs; cases "tl bs"; cases "tl (tl bs)") auto
  then show thesis
    using that [of a c vs] bs by auto
qed

lemma find_step_ring:
  assumes "ring h0 as (b_list b) h" "good_list h0 as"
  shows "\<exists>b' h'. find_step i b h = Some (Inr (b', h')) \<and> ring h0 as (b_list b') h'"
proof -
  obtain bs where bs: "chain (h_next h) (b_list b) bs" "set bs = set as" "\<forall>a \<in> set bs. h_info h a \<noteq> 0"
    using ring_cells [OF assms] by blast
  define info where "info = (of_nat i AND 0xff :: u16, snd (b_info b))"
  define p where "p = (case List.find (find_match info h) bs of None \<Rightarrow> 0 | Some a \<Rightarrow> a)"
  have find: "core_list_find (b_list b) info h = Some (Inr p)"
    unfolding p_def by (rule core_list_find_chain [OF bs(1,3)])
  have p: "p = 0 \<or> p \<in> set as"
    using bs(2) by (auto simp: p_def find_Some_iff split: option.split)
  obtain list' n where r: "core_list_reverse (h_next h) (b_list b) = Some (list', n)" "ring h0 as list' (h\<lparr>h_next := n\<rparr>)"
    using ring_reverse [OF assms(1)] by blast
  define h1 where "h1 = h\<lparr>h_next := n\<rparr>"
  define b1 where "b1 = b\<lparr>b_info := info, b_list := list'\<rparr>"
  have ring1: "ring h0 as list' h1"
    using r(2) by (simp add: h1_def)
  have "\<exists>b2 h2. (if p = 0 then missed_item b1 h1 else found_item p b1 h1) = Some (Inr (b2, h2)) \<and> ring h0 as (b_list b2) h2"
  proof (cases "p = 0")
    case True
    obtain a c vs where "list' \<noteq> 0" "h_next h1 list' = a" "a \<noteq> 0" "h_info h1 a \<noteq> 0"
      using ring_second [OF ring1 assms(2)] by (metis list.set_intros)
    then show ?thesis
      using True ring1 by (simp add: missed_item_def load_next_def load_data_def load_info_def b1_def)
  next
    case False
    then have "p \<in> set as" "h_info h1 p \<noteq> 0"
      using p assms(2) ring_info [OF ring1] by (auto simp: good_list_def)
    moreover from cache_item_ring [OF ring1 assms(2) this(1)] obtain h2 where
      "cache_item list' p h1 = Some (Inr h2)" "ring h0 as list' h2" by blast
    ultimately show ?thesis
      using False by (simp add: found_item_def load_data_def load_info_def b1_def Let_def)
  qed
  then obtain b2 h2 where "(if p = 0 then missed_item b1 h1 else found_item p b1 h1) = Some (Inr (b2, h2))"
      "ring h0 as (b_list b2) h2" by blast
  moreover have "find_step i b h = cbind (if p = 0 then missed_item b1 h1 else found_item p b1 h1) (\<lambda>(b, h).
      let idx = snd (b_info b)
      in Some (Inr (if sint idx \<ge> 0 then b\<lparr>b_info := (fst (b_info b), idx + 1)\<rparr> else b, h)))"
    using find r(1) unfolding find_step_def b1_def h1_def info_def by (simp add: Let_def)
  ultimately show ?thesis
    by (simp add: Let_def)
qed

lemma find_loop_ring:
  "ring h0 as (b_list b) h \<Longrightarrow> good_list h0 as \<Longrightarrow>
   \<exists>b' h'. find_loop i n b h = Some (Inr (b', h')) \<and> ring h0 as (b_list b') h'"
proof (induction n arbitrary: i b h)
  case 0
  then show ?case by simp
next
  case (Suc n)
  from find_step_ring [OF Suc.prems, of i] obtain b1 h1 where
    1: "find_step i b h = Some (Inr (b1, h1))" "ring h0 as (b_list b1) h1"
    by blast
  with Suc.IH [OF 1(2) Suc.prems(2)] show ?case
    by simp
qed

end
