(* ===== verification/Core_Restore.thy ===== *)
theory Core_Restore
  imports Core_Bench
begin

text \<open>
  One call of \<open>core_bench_list\<close>, and with it every iteration of the benchmark, ends and leaves its input as it
  was: the list, the data items, the state block and the operand matrices. What is left behind are the
  result matrix and the checksums.
\<close>

section \<open>The middle of the benchmark\<close>

lemma crc_loop_returns:
  assumes "chain (h_next h) finder as" "list \<noteq> 0" "h_info h list \<noteq> 0"
  shows "\<exists>r. crc_loop list finder retval h = Some (Inr r)"
  using assms(1)
proof (induction as arbitrary: finder retval)
  case Nil
  then show ?case by (simp add: crc_loop.simps)
next
  case (Cons a as)
  then show ?case
    using assms(2,3) by (subst crc_loop.simps) (simp add: load_data_def load_info_def)
qed

lemma find_in_set: "List.find P xs = Some x \<Longrightarrow> x \<in> set xs"
  by (induction xs) (auto split: if_splits)

text \<open>Between the two sorts a cell is removed, the rest is searched and summed, and the cell is put back.\<close>

lemma middle_returns:
  assumes "ring h0 as list h" "good_list h0 as"
  shows "\<exists>second remover h1 finder finder' r. load_next h list = Some (Inr second)
    \<and> core_list_remove second h = Some (Inr (remover, h1)) \<and> core_list_find list info h1 = Some (Inr finder)
    \<and> (if finder = 0 then load_next h1 list else Some (Inr finder)) = Some (Inr finder')
    \<and> crc_loop list finder' retval h1 = Some (Inr r) \<and> load_next h1 list = Some (Inr second)
    \<and> core_list_undo_remove remover second h1 = Some (Inr (remover, h))"
proof -
  obtain a c vs where bs: "chain (h_next h) list (list # a # c # vs)"
      "\<forall>x \<in> set (list # a # c # vs). h_info h x \<noteq> 0" "list \<noteq> 0" "h_next h list = a" "a \<noteq> 0" "h_next h a = c" "c \<noteq> 0"
    using ring_second [OF assms] by metis
  have d: "distinct (list # a # c # vs)"
    using chain_distinct [OF bs(1)] .
  obtain h1 where h1: "core_list_remove a h = Some (Inr (c, h1))" "core_list_undo_remove c a h1 = Some (Inr (c, h))"
      "h_next h1 = (h_next h)(a := h_next h c, c := 0)" "h_info h1 = (h_info h)(a := h_info h c, c := h_info h a)"
    using remove_undo [of a h] bs d by auto
  have "chain ((h_next h)(a := h_next h c)) list (list # a # vs)"
    using chain_skip [of "h_next h" list "[list]" a c vs] bs(1) by simp
  then have ch: "chain (h_next h1) list (list # a # vs)"
    unfolding h1(3) using d by (subst chain_upd) auto
  have infos: "\<forall>x \<in> set (list # a # vs). h_info h1 x \<noteq> 0"
    using bs(2) h1(4) d by auto
  define finder where "finder = (case List.find (find_match info h1) (list # a # vs) of None \<Rightarrow> 0 | Some x \<Rightarrow> x)"
  have find: "core_list_find list info h1 = Some (Inr finder)"
    unfolding finder_def by (rule core_list_find_chain [OF ch infos])
  have next1: "load_next h1 list = Some (Inr a)"
    using bs(3,4) h1(3) d by (simp add: load_next_def)
  have "finder \<in> {0} \<union> set (list # a # vs)"
    using find_in_set [of "find_match info h1" "list # a # vs"]
    by (cases "List.find (find_match info h1) (list # a # vs)") (simp_all only: finder_def option.case Un_iff insert_iff simp_thms)
  then obtain finder' where f: "(if finder = 0 then load_next h1 list else Some (Inr finder)) = Some (Inr finder')"
      "finder' \<in> set (list # a # vs)"
    using next1 by (cases "finder = 0") auto
  then obtain us ws where "list # a # vs = us @ finder' # ws"
    by (metis split_list)
  then have "chain (h_next h1) finder' (finder' # ws)"
    using ch chain_append by metis
  then have "\<exists>r. crc_loop list finder' retval h1 = Some (Inr r)"
    using infos by (elim crc_loop_returns [OF _ bs(3)]) simp
  then show ?thesis
    using h1(1,2) find f(1) next1 bs(3,4) by (auto simp: load_next_def)
qed

section \<open>The sorts\<close>

lemma complex_sort_ring:
  assumes "ring h0 as list h" "good_list h0 as"
  shows "\<exists>list' h'. core_list_mergesort cmp_complex list h = Some (Inr (list', h')) \<and> ring h0 as list' h'"
proof -
  obtain bs where bs: "chain (h_next h) list bs" "mset bs = mset as" "set bs = set as" "3 \<le> length bs"
      "\<forall>a \<in> set bs. h_info h a \<noteq> 0"
    using ring_cells [OF assms] by blast
  have inv: "res_inv h0 (h_info h0 ` set as) h" and ne: "bs \<noteq> []"
    using assms(1) bs(4) by (auto simp: ring_def)
  have "\<forall>a \<in> set bs. h_info h0 a \<in> h_info h0 ` set as - {0}"
    using bs(3,5) ring_info [OF assms(1)] by auto
  from complex_sort.core_list_mergesort_sorts [OF ne bs(1) inv this] obtain list' h' cs where
    r: "core_list_mergesort cmp_complex list h = Some (Inr (list', h'))" "sorts (complex_sort.decides h0) 1 bs cs"
      "chain (h_next h') list' cs" "res_inv h0 (h_info h0 ` set as) h'" "complex_sort.grows h h' (set bs)"
    by blast
  have "mset cs = mset as"
    using sorts_mset [OF r(2)] bs(2) by simp
  moreover have "h_next h' a = h_next h0 a" if "a \<notin> set as" for a
    using r(5) that assms(1) bs(3) by (simp add: complex_sort.grows_def ring_def)
  ultimately have "ring h0 as list' h'"
    using r(3,4) by (auto simp: ring_def)
  then show ?thesis
    using r(1) by blast
qed

lemma sort_key_unique:
  assumes "mset bs = mset as" "sorted_wrt (<) (map f as)"
  shows "sort_key f bs = as"
proof -
  have s: "sorted (map f as)" "distinct (map f as)"
    using assms(2) strict_sorted_iff by blast+
  have "mset (map f (sort_key f bs)) = mset (map f as)"
    using assms(1) by (metis mset_map mset_sort)
  then have "map f (sort_key f bs) = map f as"
    using properties_for_sort [of "map f (sort_key f bs)" "map f as"] s(1) by (simp add: sorted_sort_id)
  moreover have "set (sort_key f bs) = set as"
    using assms(1) by (metis set_sort set_mset_mset)
  ultimately show ?thesis
    using s(2) by (intro map_inj_on [where f = f]) (simp_all add: distinct_map)
qed

lemma chain_next_eq:
  assumes "chain n p as" "chain n' p' as" "\<And>a. a \<notin> set as \<Longrightarrow> n a = n' a" "as \<noteq> []"
  shows "n = n'" "p = p'"
proof -
  have "chain n p as \<Longrightarrow> chain n' p' as \<Longrightarrow> a \<in> set as \<Longrightarrow> n a = n' a" for a
  proof (induction as arbitrary: p p')
    case (Cons b bs)
    then show ?case
      by (cases bs) auto
  qed simp
  then show "n = n'"
    using assms by blast
  show "p = p'"
    using assms(1,2,4) by (cases as) auto
qed

lemma more_inputs:
  assumes "h_info h = h_info h'" "h_idx h = h_idx h'" "core_heap.more h = core_heap.more h'"
  shows "inputs h = inputs h'"
  using assms by (cases h; cases h') (simp add: inputs_def)

text \<open>The list is in the order of its indices, which are all different, and every data value is regenerated.\<close>

definition initial_list :: "core_results \<Rightarrow> u32 list \<Rightarrow> bool" where
  "initial_list h as \<longleftrightarrow> good_list h as \<and> sorted_wrt (<) (map (\<lambda>a. sint (h_idx h (h_info h a))) as)
     \<and> (\<forall>a \<in> set as. regen (h_data16 h (h_info h a)) = h_data16 h (h_info h a))"

lemma initial_list_same:
  assumes "initial_list h as" "inputs h' = inputs h" "h_next h' = h_next h" "h_data16 h' = h_data16 h"
  shows "initial_list h' as"
proof -
  have "repeatable h' \<longleftrightarrow> repeatable h"
    using repeatable_inputs [OF assms(2)] .
  moreover have "h_info h' = h_info h" "h_idx h' = h_idx h" "r_list h' = r_list h"
    using assms(2) by (simp_all add: inputs_def)
  ultimately show ?thesis
    using assms(1,3,4) by (simp add: initial_list_def good_list_def)
qed

lemma idx_sort_restores:
  assumes "ring h0 as list h" "initial_list h0 as"
  shows "\<exists>h'. core_list_mergesort (cmp_idx True) list h = Some (Inr (r_list h0, h'))
    \<and> inputs h' = inputs h0 \<and> h_next h' = h_next h0 \<and> h_data16 h' = h_data16 h0"
proof -
  have good: "good_list h0 as"
    using assms(2) by (simp add: initial_list_def)
  obtain bs where bs: "chain (h_next h) list bs" "mset bs = mset as" "set bs = set as" "3 \<le> length bs"
      "\<forall>a \<in> set bs. h_info h a \<noteq> 0"
    using ring_cells [OF assms(1) good] by blast
  have inv: "inputs h = inputs h0" "\<And>a. drop_bit 8 (h_data16 h a) = drop_bit 8 (h_data16 h0 a)"
      "\<And>a. a \<notin> h_info h0 ` set as \<Longrightarrow> h_data16 h a = h_data16 h0 a"
      "\<And>a. a \<notin> set as \<Longrightarrow> h_next h a = h_next h0 a"
    using assms(1) by (auto simp: ring_def res_inv_def)
  have same: "h_info h = h_info h0" "h_idx h = h_idx h0"
    using inv(1) by (simp_all add: inputs_def)
  have ne: "bs \<noteq> []"
    using bs(4) by auto
  from mergesort_by_idx [OF ne bs(1,5)] obtain list' h' where
    r: "core_list_mergesort (cmp_idx True) list h = Some (Inr (list', h'))"
      "chain (h_next h') list' (sort_key (\<lambda>a. sint (h_idx h (h_info h a))) bs)"
      "idx_inv h (h_info h ` set bs) h'" "\<forall>a. a \<notin> set bs \<longrightarrow> h_next h' a = h_next h a"
      "2 \<le> length bs \<longrightarrow> (\<forall>a \<in> set bs. h_data16 h' (h_info h a) = regen (h_data16 h (h_info h a)))"
    by blast
  have sorted: "sort_key (\<lambda>a. sint (h_idx h (h_info h a))) bs = as"
    unfolding same using assms(2) by (intro sort_key_unique [OF bs(2)]) (simp add: initial_list_def)
  have "chain (h_next h') list' as" "chain (h_next h0) (r_list h0) as" "as \<noteq> []"
    using r(2) good by (auto simp: sorted good_list_def)
  moreover have "h_next h' a = h_next h0 a" if "a \<notin> set as" for a
    using r(4) bs(3) inv(4) that by simp
  ultimately have "h_next h' = h_next h0" "list' = r_list h0"
    by (metis chain_next_eq(1), metis chain_next_eq(2))
  moreover have "inputs h' = inputs h0"
    using more_inputs [of h' h] idx_invD(1-3) [OF r(3)] inv(1) by simp
  moreover have "h_data16 h' x = h_data16 h0 x" for x
  proof (cases "x \<in> h_info h0 ` set as")
    case True
    then obtain a where a: "a \<in> set as" "x = h_info h0 a"
      by blast
    then have "h_data16 h' x = regen (h_data16 h x)"
      using r(5) bs(3,4) same by simp
    also have "\<dots> = regen (h_data16 h0 x)"
      by (rule regen_high(2) [OF inv(2)])
    finally show ?thesis
      using assms(2) a by (simp add: initial_list_def)
  next
    case False
    then show ?thesis
      using idx_invD(5) [OF r(3), of x] inv(3) bs(3) same by simp
  qed
  ultimately show ?thesis
    using r(1) by blast
qed

section \<open>One call and all iterations\<close>

lemma bench_list_returns:
  assumes "initial_list h0 as"
  shows "\<exists>ret h'. core_bench_list finder_idx h0 = Some (Inr (ret, h'))
    \<and> inputs h' = inputs h0 \<and> h_next h' = h_next h0 \<and> h_data16 h' = h_data16 h0"
proof -
  have good: "good_list h0 as"
    using assms by (simp add: initial_list_def)
  let ?b = "\<lparr>b_list = r_list h0, b_info = (0, finder_idx), b_retval = 0, b_found = 0, b_missed = 0\<rparr>"
  obtain b h1 where 1: "find_loop 0 (nat (sint (r_seed3 h0))) ?b h0 = Some (Inr (b, h1))" "ring h0 as (b_list b) h1"
    using find_loop_ring [of h0 as ?b h0 0 "nat (sint (r_seed3 h0))"] ring_start [OF good] good by auto
  define retval where "retval = b_retval b + (b_found b * 4 - b_missed b)"
  obtain list h2 where 2: "(if sint finder_idx > 0 then core_list_mergesort cmp_complex (b_list b) h1
        else Some (Inr (b_list b, h1))) = Some (Inr (list, h2))" "ring h0 as list h2"
    using complex_sort_ring [OF 1(2) good] 1(2) by (cases "sint finder_idx > 0") auto
  obtain second remover h3 finder finder' r where 3: "load_next h2 list = Some (Inr second)"
      "core_list_remove second h2 = Some (Inr (remover, h3))" "core_list_find list (b_info b) h3 = Some (Inr finder)"
      "(if finder = 0 then load_next h3 list else Some (Inr finder)) = Some (Inr finder')"
      "crc_loop list finder' retval h3 = Some (Inr r)" "load_next h3 list = Some (Inr second)"
      "core_list_undo_remove remover second h3 = Some (Inr (remover, h2))"
    using middle_returns [OF 2(2) good, of "b_info b" retval] by blast
  obtain h4 where 4: "core_list_mergesort (cmp_idx True) list h2 = Some (Inr (r_list h0, h4))"
      "inputs h4 = inputs h0" "h_next h4 = h_next h0" "h_data16 h4 = h_data16 h0"
    using idx_sort_restores [OF 2(2) assms] by blast
  have good4: "good_list h4 as" "r_list h4 = r_list h0"
    using initial_list_same [OF assms 4(2-4)] 4(2) by (simp_all add: initial_list_def inputs_def)
  obtain a c vs where 5: "chain (h_next h4) (r_list h0) (r_list h0 # a # c # vs)" "h_info h4 (r_list h0) \<noteq> 0"
      "r_list h0 \<noteq> 0" "h_next h4 (r_list h0) = a"
    by (rule ring_second [OF ring_start [OF good4(1)] good4(1), unfolded good4(2)]) simp
  then obtain r' where 6: "load_next h4 (r_list h0) = Some (Inr a)" "crc_loop (r_list h0) a r h4 = Some (Inr r')"
    using crc_loop_returns [of h4 a "a # c # vs" "r_list h0" r] by (auto simp: load_next_def)
  have "core_bench_list finder_idx h0 = Some (Inr (r', h4))"
    unfolding core_bench_list_def 1(1) cbind_simps prod.case retval_def [symmetric] Let_def 2(1) 3(1-5)
    using 3(6,7) 4(1) 6 by simp
  then show ?thesis
    using 4 by blast
qed

lemma iterate_loop_returns:
  "initial_list h as \<Longrightarrow> \<exists>h'. iterate_loop i n h = Some (Inr h')
    \<and> inputs h' = inputs h \<and> h_next h' = h_next h \<and> h_data16 h' = h_data16 h"
proof (induction n arbitrary: i h)
  case 0
  then show ?case by simp
next
  case (Suc n)
  from bench_list_returns [OF Suc.prems, of 1] obtain c h1 where 1: "core_bench_list 1 h = Some (Inr (c, h1))"
      "inputs h1 = inputs h" "h_next h1 = h_next h" "h_data16 h1 = h_data16 h" by blast
  let ?h1 = "h1\<lparr>r_crc := crcu16 c (r_crc h1)\<rparr>"
  have k1: "inputs ?h1 = inputs h" "h_next ?h1 = h_next h" "h_data16 ?h1 = h_data16 h"
    using 1 by (simp_all add: inputs_def)
  note init1 = initial_list_same [OF Suc.prems k1]
  from bench_list_returns [OF init1, of "- 1"] obtain d h2 where 2: "core_bench_list (- 1) ?h1 = Some (Inr (d, h2))"
      "inputs h2 = inputs ?h1" "h_next h2 = h_next ?h1" "h_data16 h2 = h_data16 ?h1" by blast
  let ?h2 = "h2\<lparr>r_crc := crcu16 d (r_crc h2)\<rparr>"
  let ?h3 = "if i = 0 then ?h2\<lparr>r_crclist := r_crc ?h2\<rparr> else ?h2"
  have k3: "inputs ?h3 = inputs h" "h_next ?h3 = h_next h" "h_data16 ?h3 = h_data16 h"
    using 2(2-4) k1 by (simp_all add: inputs_def)
  have "iterate_step i h = Some (Inr ?h3)"
    using 1(1) 2(1) by (simp add: iterate_step_def)
  then show ?case
    using Suc.IH [OF initial_list_same [OF Suc.prems k3], of "i + 1"] k3 by simp
qed

lemma iterate_returns:
  assumes "initial_list h as"
  shows "\<exists>h'. iterate h = Some (Inr h') \<and> initial_list h' as
    \<and> h' = h\<lparr>r_C := r_C h', r_crc := r_crc h', r_crclist := r_crclist h', r_crcmatrix := r_crcmatrix h',
             r_crcstate := r_crcstate h'\<rparr>"
proof -
  let ?h = "h\<lparr>r_crc := 0, r_crclist := 0, r_crcmatrix := 0, r_crcstate := 0\<rparr>"
  have k: "inputs ?h = inputs h" "h_next ?h = h_next h" "h_data16 ?h = h_data16 h"
    by (simp_all add: inputs_def)
  obtain h' where r: "iterate_loop 0 (unat (r_iterations h)) ?h = Some (Inr h')" "inputs h' = inputs h"
      "h_next h' = h_next h" "h_data16 h' = h_data16 h"
    using iterate_loop_returns [OF initial_list_same [OF assms k], of 0 "unat (r_iterations h)"] k by auto
  have "h' = h\<lparr>r_C := r_C h', r_crc := r_crc h', r_crclist := r_crclist h', r_crcmatrix := r_crcmatrix h',
             r_crcstate := r_crcstate h'\<rparr>"
    using r(2-4) by (cases h; cases h') (simp add: inputs_def)
  then show ?thesis
    using r(1) initial_list_same [OF assms r(2-4)] by (auto simp: iterate_def)
qed

end
