(* ===== verification/Core_Init.thy ===== *)
theory Core_Init
  imports Core_Restore
begin

text \<open>
  The initialisation of the list and matrix benchmarks of CoreMark: \<open>core_list_init\<close> of \<open>core_list_join.c\<close> and
  \<open>core_init_matrix\<close> of \<open>core_matrix.c\<close>. The list built has the initial state the benchmark restores.
\<close>

section \<open>The list\<close>

text \<open>The data of the \<open>i\<close>-th item: \<open>seed ^ i\<close> is cut to 16 bits before it is masked.\<close>

definition init_data :: "u16 \<Rightarrow> u32 \<Rightarrow> u16" where
  "init_data seed i =
     (let datpat = (seed XOR ucast i) AND 0xf;
          dat = push_bit 3 datpat OR (ucast i AND 7)
      in push_bit 8 dat OR dat)"

fun insert_loop ::
  "u32 \<Rightarrow> u16 \<Rightarrow> u32 \<Rightarrow> u32 \<Rightarrow> nat \<Rightarrow> nat \<Rightarrow> u32 \<Rightarrow> u32 \<Rightarrow> 'r core_heap_scheme \<Rightarrow> (u32 \<times> u32 \<times> 'r core_heap_scheme) comp" where
  "insert_loop list seed mend dend i 0 memblock datablock h = Some (Inr (memblock, datablock, h))"
| "insert_loop list seed mend dend i (Suc n) memblock datablock h =
     cbind (core_list_insert_new list (init_data seed (of_nat i), 0x7fff) memblock datablock mend dend h)
       (\<lambda>(_, memblock, datablock, h). insert_loop list seed mend dend (i + 1) n memblock datablock h)"

definition init_idx :: "u32 \<Rightarrow> u16 \<Rightarrow> u32 \<Rightarrow> u16" where
  "init_idx size' seed i =
     (if i < size' div 5 then ucast i
      else let pat = ucast i XOR seed; i = i + 1
           in ucast (0x3fff AND (push_bit 8 (i AND 7) OR ucast pat)))"

definition set_idx :: "u32 \<Rightarrow> u16 \<Rightarrow> 'r core_heap_scheme \<Rightarrow> 'r core_heap_scheme" where
  "set_idx p v h = h\<lparr>h_idx := (h_idx h)(p := v)\<rparr>"

partial_function (option) index_loop :: "u32 \<Rightarrow> u16 \<Rightarrow> u32 \<Rightarrow> u32 \<Rightarrow> 'r core_heap_scheme \<Rightarrow> 'r core_heap_scheme comp" where
  "index_loop size' seed finder i h =
     cbind (load_next h finder) (\<lambda>n.
       if n = 0 then Some (Inr h)
       else if h_info h finder = 0 then Some (Inl Overrun)
       else index_loop size' seed n (i + 1) (set_idx (h_info h finder) (init_idx size' seed i) h))"

definition core_list_init :: "u32 \<Rightarrow> u32 \<Rightarrow> u16 \<Rightarrow> 'r core_heap_scheme \<Rightarrow> (u32 \<times> 'r core_heap_scheme) comp" where
  "core_list_init blksize memblock seed h =
     (let per_item = 16 + 4;
          size' = blksize div per_item - 2;
          memblock_end = memblock + 8 * size';
          datablock = memblock_end;
          datablock_end = datablock + 4 * size';
          list = memblock
      in if list = 0 \<or> datablock = 0 then Some (Inl Overrun) else
         let h = set_next list 0 h;
             h = set_info list datablock h;
             h = copy_info datablock (0x8080, 0) h
         in cbind (core_list_insert_new list (0xffff, 0x7fff) (memblock + 8) (datablock + 4) memblock_end datablock_end h)
              (\<lambda>(_, memblock, datablock, h).
            cbind (insert_loop list seed memblock_end datablock_end 0 (unat size') memblock datablock h)
              (\<lambda>(_, _, h).
            cbind (load_next h list) (\<lambda>finder.
            cbind (index_loop size' seed finder 1 h) (\<lambda>h.
            core_list_mergesort (cmp_idx True) list h)))))"

section \<open>The matrices\<close>

text \<open>The largest \<open>N\<close> with \<open>8 * N * N\<close> below the block size: \<open>i\<close> and \<open>j\<close> of the search loop, in 32 bits.\<close>

partial_function (option) dim_loop :: "u32 \<Rightarrow> u32 \<Rightarrow> u32 \<Rightarrow> u32 option" where
  "dim_loop blksize i j = (if j < blksize then dim_loop blksize (i + 1) ((i + 1) * (i + 1) * 2 * 4) else Some i)"

definition matrix_clip :: "u16 \<Rightarrow> bool \<Rightarrow> u16" where
  "matrix_clip x y = (if y then x AND 0x0ff else x AND 0x0ffff)"

text \<open>One element of \<open>B\<close> and of \<open>A\<close>; \<open>%\<close> of the signed 32-bit product truncates towards zero.\<close>

definition fill_step :: "nat \<Rightarrow> u32 \<times> u32 \<times> matdat \<times> matdat \<Rightarrow> u32 \<times> u32 \<times> matdat \<times> matdat" where
  "fill_step p s = (case s of (seed, order, A, B) \<Rightarrow>
     let seed = word_of_int (sgn (sint (order * seed)) * (\<bar>sint (order * seed)\<bar> mod 65536));
         val = matrix_clip (ucast (seed + order)) False;
         B = B(p := val);
         val = ucast (ucast val + order);
         val = matrix_clip val True;
         A = A(p := val)
     in (seed, order + 1, A, B))"

definition core_init_matrix :: "u32 \<Rightarrow> u32 \<Rightarrow> matdat \<Rightarrow> matdat \<Rightarrow> (u32 \<times> matdat \<times> matdat) option" where
  "core_init_matrix blksize seed A B =
     map_option (\<lambda>i.
       let N = i - 1;
           seed = (if seed = 0 then 1 else seed);
           (_, _, A, B) = foldl (\<lambda>s i. foldl (\<lambda>s j. fill_step (i * unat N + j) s) s [0..<unat N]) (seed, 1, A, B) [0..<unat N]
       in (N, A, B))
     (dim_loop blksize 0 0)"

section \<open>The cells of the block\<close>

text \<open>
  The \<open>k\<close>-th cell and the \<open>k\<close>-th data item of a block of \<open>n\<close> cells and \<open>n\<close> items at address \<open>m\<close>. The block does not
  wrap around the address space.
\<close>

definition cell :: "u32 \<Rightarrow> nat \<Rightarrow> u32" where
  "cell m k = m + 8 * of_nat k"

definition item :: "u32 \<Rightarrow> nat \<Rightarrow> nat \<Rightarrow> u32" where
  "item m n k = m + 8 * of_nat n + 4 * of_nat k"

definition block_ok :: "u32 \<Rightarrow> nat \<Rightarrow> bool" where
  "block_ok m n \<longleftrightarrow> 0 < unat m \<and> unat m + 12 * n < 2 ^ 32"

lemma unat_addr: "x < 2 ^ 32 \<Longrightarrow> unat (of_nat x :: u32) = x"
  by (simp add: unat_of_nat)

lemma unat_cell: "block_ok m n \<Longrightarrow> k \<le> n \<Longrightarrow> unat (cell m k) = unat m + 8 * k"
proof -
  assume "block_ok m n" "k \<le> n"
  then have "unat m + 8 * k < 2 ^ 32"
    by (simp add: block_ok_def)
  moreover have "cell m k = of_nat (unat m + 8 * k)"
    by (simp add: cell_def)
  ultimately show ?thesis
    by (simp only: unat_addr)
qed

lemma unat_item: "block_ok m n \<Longrightarrow> k \<le> n \<Longrightarrow> unat (item m n k) = unat m + 8 * n + 4 * k"
proof -
  assume "block_ok m n" "k \<le> n"
  then have "unat m + 8 * n + 4 * k < 2 ^ 32"
    by (simp add: block_ok_def)
  moreover have "item m n k = of_nat (unat m + 8 * n + 4 * k)"
    by (simp add: item_def)
  ultimately show ?thesis
    by (simp only: unat_addr)
qed

lemma cell_eq: "block_ok m n \<Longrightarrow> i \<le> n \<Longrightarrow> j \<le> n \<Longrightarrow> cell m i = cell m j \<longleftrightarrow> i = j"
  by (simp add: word_unat_eq_iff unat_cell)

lemma item_eq: "block_ok m n \<Longrightarrow> i \<le> n \<Longrightarrow> j \<le> n \<Longrightarrow> item m n i = item m n j \<longleftrightarrow> i = j"
  by (simp add: word_unat_eq_iff unat_item)

lemma cell_item_not_0: "block_ok m n \<Longrightarrow> k \<le> n \<Longrightarrow> cell m k \<noteq> 0 \<and> item m n k \<noteq> 0"
  using unat_cell [of m n k] unat_item [of m n k] by (auto simp: block_ok_def)

lemma cell_le: "block_ok m n \<Longrightarrow> k \<le> n \<Longrightarrow> cell m n \<le> cell m k \<longleftrightarrow> n \<le> k"
  by (simp add: word_le_nat_alt unat_cell)

lemma item_le: "block_ok m n \<Longrightarrow> k \<le> n \<Longrightarrow> item m n n \<le> item m n k \<longleftrightarrow> n \<le> k"
  by (simp add: word_le_nat_alt unat_item)

lemma cell_Suc: "cell m (Suc k) = cell m k + 8" "item m n (Suc k) = item m n k + 4"
  by (simp_all add: cell_def item_def algebra_simps)

section \<open>The list before it is indexed\<close>

definition init_list :: "u32 \<Rightarrow> nat \<Rightarrow> nat \<Rightarrow> 'r core_heap_scheme \<Rightarrow> bool" where
  "init_list m n k h \<longleftrightarrow> chain (h_next h) (cell m 0) (cell m 0 # map (cell m) (rev [1..<Suc k]))
     \<and> (\<forall>j \<le> k. h_info h (cell m j) = item m n j)
     \<and> (\<forall>j \<le> k. regen (h_data16 h (item m n j)) = h_data16 h (item m n j))
     \<and> h_idx h (item m n 0) = 0 \<and> (1 \<le> k \<longrightarrow> h_idx h (item m n 1) = 0x7fff)"

lemma insert_new_init:
  assumes "block_ok m n" "init_list m n k h" "Suc (Suc k) < n" "regen d = d" "1 \<le> k \<or> i = 0x7fff"
  shows "\<exists>h'. core_list_insert_new (cell m 0) (d, i) (cell m (Suc k)) (item m n (Suc k)) (cell m n) (item m n n) h =
      Some (Inr (cell m (Suc k), cell m (Suc (Suc k)), item m n (Suc (Suc k)), h'))
    \<and> init_list m n (Suc k) h' \<and> core_heap.more h' = core_heap.more h"
proof -
  let ?c = "cell m (Suc k)" and ?d = "item m n (Suc k)"
  define h' where "h' = copy_info ?d (d, i) (set_info ?c ?d (set_next (cell m 0) ?c (set_next ?c (h_next h (cell m 0)) h)))"
  have room: "\<not> cell m n \<le> ?c + 8" "\<not> item m n n \<le> ?d + 4"
    using assms(1,3) by (simp_all flip: cell_Suc add: cell_le item_le)
  have "core_list_insert_new (cell m 0) (d, i) ?c ?d (cell m n) (item m n n) h =
      Some (Inr (?c, cell m (Suc (Suc k)), item m n (Suc (Suc k)), h'))"
    using room cell_item_not_0 [OF assms(1), of 0]
    by (simp add: core_list_insert_new_def load_next_def h'_def cell_Suc Let_def)
  moreover have "chain (h_next h') (cell m 0) (cell m 0 # map (cell m) (rev [1..<Suc (Suc k)]))"
  proof -
    have "?c \<notin> set (cell m 0 # map (cell m) (rev [1..<Suc k]))"
      using assms(1,3) by (auto simp: cell_eq)
    then show ?thesis
      using chain_insert [of "h_next h" "cell m 0" "[]" "cell m 0" "map (cell m) (rev [1..<Suc k])" ?c] assms
        cell_item_not_0 [OF assms(1), of "Suc k"]
      by (simp add: init_list_def h'_def copy_info_def set_info_def)
  qed
  moreover have "core_heap.more h' = core_heap.more h"
    by (simp add: h'_def copy_info_def set_info_def set_next_def)
  ultimately show ?thesis
    using assms by (auto simp: init_list_def h'_def copy_info_def set_info_def cell_eq item_eq le_Suc_eq)
qed

lemma insert_new_full:
  assumes "block_ok m n" "n \<le> Suc (Suc k)" "Suc k < n"
  shows "core_list_insert_new list info (cell m (Suc k)) (item m n (Suc k)) (cell m n) (item m n n) h =
    Some (Inr (0, cell m (Suc k), item m n (Suc k), h))"
  using assms cell_le [OF assms(1), of "Suc (Suc k)"]
  by (simp add: core_list_insert_new_def flip: cell_Suc(1))

lemma regen_pair: "unat x < 256 \<Longrightarrow> regen (push_bit 8 x OR x) = push_bit 8 x OR x" for x :: u16
proof -
  assume "unat x < 256"
  then have "take_bit 8 x = x"
    by (simp add: take_bit_nat_eq_self word_unat_eq_iff unsigned_take_bit_eq)
  then have "\<not> bit x i" if "8 \<le> i" for i
    using that by (metis bit_take_bit_iff not_less)
  then show ?thesis
    by (intro bit_word_eqI) (auto simp: regen_bits bit_simps)
qed

lemma regen_init_data: "regen (init_data seed i) = init_data seed i"
proof -
  define x where "x = push_bit 3 ((seed XOR ucast i) AND 0xf) OR (ucast i AND 7 :: u16)"
  have m: "(0xf :: u16) = mask 4" "(7 :: u16) = mask 3"
    by (simp_all add: mask_eq_exp_minus_1)
  have "x = x AND mask 8"
    unfolding x_def m by (rule bit_word_eqI) (auto simp: bit_simps)
  then have "unat x < 256"
    using unat_and_mask_less [of 8 x] by simp
  then show ?thesis
    using regen_pair [of x] by (simp add: init_data_def x_def Let_def)
qed

lemma insert_loop_init:
  "block_ok m n \<Longrightarrow> init_list m n k h \<Longrightarrow> Suc k < n \<Longrightarrow> 1 \<le> k \<Longrightarrow>
   \<exists>a b h'. insert_loop (cell m 0) seed (cell m n) (item m n n) i t (cell m (Suc k)) (item m n (Suc k)) h =
      Some (Inr (a, b, h')) \<and> init_list m n (min (k + t) (n - 2)) h' \<and> core_heap.more h' = core_heap.more h"
proof (induction t arbitrary: i k h)
  case 0
  then have "min k (n - 2) = k"
    by linarith
  with 0 show ?case by simp
next
  case (Suc t)
  show ?case
  proof (cases "Suc (Suc k) < n")
    case True
    from insert_new_init [OF Suc.prems(1,2) True regen_init_data, where i = "0x7fff"] obtain h1 where
      1: "core_list_insert_new (cell m 0) (init_data seed (of_nat i), 0x7fff) (cell m (Suc k)) (item m n (Suc k))
          (cell m n) (item m n n) h = Some (Inr (cell m (Suc k), cell m (Suc (Suc k)), item m n (Suc (Suc k)), h1))"
        "init_list m n (Suc k) h1" "core_heap.more h1 = core_heap.more h"
      by blast
    then show ?thesis
      using Suc.IH [OF Suc.prems(1) 1(2) True] by simp
  next
    case False
    then have "min (k + Suc t) (n - 2) = min (k + t) (n - 2)"
      using Suc.prems(3) by simp
    moreover have "core_list_insert_new (cell m 0) (init_data seed (of_nat i), 0x7fff) (cell m (Suc k)) (item m n (Suc k))
        (cell m n) (item m n n) h = Some (Inr (0, cell m (Suc k), item m n (Suc k), h))"
      using False Suc.prems(1,3) by (intro insert_new_full) simp_all
    ultimately show ?thesis
      using Suc.IH [OF Suc.prems] by simp
  qed
qed

section \<open>Indexing\<close>

lemma index_loop_chain:
  assumes "chain (h_next h) p xs" "xs \<noteq> []" "inj_on (h_info h) (set xs)" "\<forall>a \<in> set xs. h_info h a \<noteq> 0"
  shows "\<exists>f. index_loop z seed p i h = Some (Inr (h\<lparr>h_idx := f\<rparr>))
    \<and> map (\<lambda>a. f (h_info h a)) xs =
        map (\<lambda>j. init_idx z seed (i + of_nat j)) [0..<length xs - 1] @ [h_idx h (h_info h (last xs))]
    \<and> (\<forall>a. a \<notin> h_info h ` set xs \<longrightarrow> f a = h_idx h a)"
  using assms
proof (induction xs arbitrary: p i h)
  case (Cons x xs)
  have x: "p = x" "x \<noteq> 0" "chain (h_next h) (h_next h x) xs" "h_info h x \<noteq> 0"
    using Cons.prems by auto
  show ?case
  proof (cases "xs = []")
    case True
    then show ?thesis
      using x by (subst index_loop.simps) (auto simp: load_next_def intro!: exI [of _ "h_idx h"])
  next
    case False
    define h1 where "h1 = set_idx (h_info h x) (init_idx z seed i) h"
    have h1: "h_next h1 = h_next h" "h_info h1 = h_info h" "h_idx h1 = (h_idx h)(h_info h x := init_idx z seed i)"
      by (simp_all add: h1_def set_idx_def)
    have nx: "h_next h x \<noteq> 0"
      using chain_hd [OF x(3)] False by simp
    have "\<exists>f. index_loop z seed (h_next h x) (i + 1) h1 = Some (Inr (h1\<lparr>h_idx := f\<rparr>))
        \<and> map (\<lambda>a. f (h_info h1 a)) xs =
            map (\<lambda>j. init_idx z seed (i + 1 + of_nat j)) [0..<length xs - 1] @ [h_idx h1 (h_info h1 (last xs))]
        \<and> (\<forall>a. a \<notin> h_info h1 ` set xs \<longrightarrow> f a = h_idx h1 a)"
      using Cons.prems x(3) False by (intro Cons.IH) (auto simp: h1)
    then obtain f where f: "index_loop z seed (h_next h x) (i + 1) h1 = Some (Inr (h1\<lparr>h_idx := f\<rparr>))"
        "map (\<lambda>a. f (h_info h a)) xs =
          map (\<lambda>j. init_idx z seed (i + 1 + of_nat j)) [0..<length xs - 1] @ [h_idx h1 (h_info h (last xs))]"
        "\<forall>a. a \<notin> h_info h ` set xs \<longrightarrow> f a = h_idx h1 a"
      unfolding h1 by blast
    have out: "h_info h x \<notin> h_info h ` set xs"
      using Cons.prems(3) chain_distinct [OF Cons.prems(1)] by (auto simp: inj_on_def)
    have "h_info h (last xs) \<in> h_info h ` set xs"
      using False by simp
    with out have "h_idx h1 (h_info h (last xs)) = h_idx h (h_info h (last xs))"
      unfolding h1(3) by (metis fun_upd_other)
    moreover have "f (h_info h x) = init_idx z seed i"
      using f(3) out by (simp add: h1)
    moreover have "[0..<length xs] = 0 # map Suc [0..<length xs - 1]"
      using False by (cases xs) (simp_all add: map_Suc_upt upt_conv_Cons del: upt_Suc)
    ultimately have "map (\<lambda>a. f (h_info h a)) (x # xs) =
        map (\<lambda>j. init_idx z seed (i + of_nat j)) [0..<length (x # xs) - 1] @ [h_idx h (h_info h (last (x # xs)))]"
      using f(2) False by (simp add: comp_def add.assoc)
    moreover have "index_loop z seed p i h = Some (Inr (h\<lparr>h_idx := f\<rparr>))"
      using f(1) x nx by (subst index_loop.simps) (simp add: load_next_def h1_def set_idx_def)
    moreover have "\<forall>a. a \<notin> h_info h ` set (x # xs) \<longrightarrow> f a = h_idx h a"
      using f(3) by (simp add: h1)
    ultimately show ?thesis
      by blast
  qed
qed simp

text \<open>The indices of the cells in the order of the first list: head, indexed cells, tail.\<close>

definition init_keys :: "u32 \<Rightarrow> u16 \<Rightarrow> nat \<Rightarrow> u16 list" where
  "init_keys z seed n = 0 # map (\<lambda>j. init_idx z seed (1 + of_nat j)) [0..<n - 3] @ [0x7fff]"

definition init_cells :: "u32 \<Rightarrow> nat \<Rightarrow> u32 list" where
  "init_cells m n = cell m 0 # map (cell m) (rev [1..<n - 1])"

lemma head_init:
  assumes "block_ok m n"
  shows "init_list m n 0 (copy_info (item m n 0) (0x8080, 0) (set_info (cell m 0) (item m n 0) (set_next (cell m 0) 0 h)))"
  using cell_item_not_0 [OF assms, of 0]
  by (simp add: init_list_def copy_info_def set_info_def regen_def)

lemma index_init:
  assumes "block_ok m n" "3 < n" "init_list m n (n - 2) h"
  shows "\<exists>f nx. load_next h (cell m 0) = Some (Inr nx) \<and> index_loop z seed nx 1 h = Some (Inr (h\<lparr>h_idx := f\<rparr>))
    \<and> map (\<lambda>a. f (h_info h a)) (init_cells m n) = init_keys z seed n"
proof -
  define xs where "xs = map (cell m) (rev [1..<n - 1])"
  have Sn: "Suc (n - 2) = n - 1"
    using assms(2) by simp
  have xs: "xs \<noteq> []" "length xs - 1 = n - 3" "last xs = cell m 1"
    using assms(2) by (auto simp: xs_def last_map last_rev hd_upt)
  have h: "chain (h_next h) (cell m 0) (cell m 0 # xs)" "\<forall>j \<le> n - 2. h_info h (cell m j) = item m n j"
      "h_idx h (item m n 0) = 0" "h_idx h (item m n 1) = 0x7fff"
    using assms(2,3) by (auto simp: init_list_def xs_def Sn)
  have mem: "\<exists>j. a = cell m j \<and> 1 \<le> j \<and> j \<le> n - 2" if "a \<in> set xs" for a
    using that by (force simp: xs_def)
  have inj: "inj_on (h_info h) (set xs)" "\<forall>a \<in> set xs. h_info h a \<noteq> 0" "item m n 0 \<notin> h_info h ` set xs"
    using h(2) assms(1,2) cell_item_not_0 [OF assms(1)] item_eq [OF assms(1)]
    by (auto simp: inj_on_def dest!: mem)
  have nx: "chain (h_next h) (h_next h (cell m 0)) xs" "cell m 0 \<noteq> 0"
    using h(1) by auto
  obtain f where f: "index_loop z seed (h_next h (cell m 0)) 1 h = Some (Inr (h\<lparr>h_idx := f\<rparr>))"
      "map (\<lambda>a. f (h_info h a)) xs = map (\<lambda>j. init_idx z seed (1 + of_nat j)) [0..<length xs - 1] @ [h_idx h (h_info h (last xs))]"
      "\<forall>a. a \<notin> h_info h ` set xs \<longrightarrow> f a = h_idx h a"
    using index_loop_chain [OF nx(1) xs(1) inj(1,2), of z seed 1] by blast
  have "map (\<lambda>a. f (h_info h a)) (cell m 0 # xs) = init_keys z seed n"
    using f(2,3) xs h(2,3,4) inj(3) assms(2) by (simp add: init_keys_def)
  then show ?thesis
    using f(1) nx(2) by (auto simp: load_next_def init_cells_def xs_def)
qed

lemma sort_key_strict:
  assumes "distinct (map f as)"
  shows "sorted_wrt (<) (map f (sort_key f as))"
proof -
  have "distinct (map f (sort_key f as))"
    using assms by (metis mset_eq_imp_distinct_iff mset_map mset_sort)
  then show ?thesis
    by (simp add: strict_sorted_iff)
qed

lemma core_list_init_runs:
  assumes "n = unat (blksize div 20 - 2)" "block_ok m n" "3 < n"
  shows "\<exists>h3. core_list_init blksize m seed h = core_list_mergesort (cmp_idx True) (cell m 0) h3
    \<and> chain (h_next h3) (cell m 0) (init_cells m n)
    \<and> (\<forall>a \<in> set (init_cells m n). h_info h3 a \<noteq> 0 \<and> regen (h_data16 h3 (h_info h3 a)) = h_data16 h3 (h_info h3 a))
    \<and> map (\<lambda>a. h_idx h3 (h_info h3 a)) (init_cells m n) = init_keys (blksize div 20 - 2) seed n
    \<and> core_heap.more h3 = core_heap.more h"
proof -
  define z where "z = blksize div 20 - 2"
  have ends: "m + 8 * z = item m n 0" "item m n 0 + 4 * z = item m n n" "m + 8 = cell m (Suc 0)"
      "item m n 0 + 4 = item m n (Suc 0)" "unat z = n"
    and base: "cell m 0 = m" "cell m n = item m n 0"
    using assms(1) by (simp_all add: z_def cell_def item_def)
  define h0 where "h0 = copy_info (item m n 0) (0x8080, 0) (set_info (cell m 0) (item m n 0) (set_next (cell m 0) 0 h))"
  have h0: "init_list m n 0 h0" "core_heap.more h0 = core_heap.more h"
    unfolding h0_def by (rule head_init [OF assms(2)]) (simp add: copy_info_def set_info_def set_next_def)
  obtain h1 where h1: "core_list_insert_new (cell m 0) (0xffff, 0x7fff) (cell m (Suc 0)) (item m n (Suc 0))
        (cell m n) (item m n n) h0 = Some (Inr (cell m (Suc 0), cell m (Suc (Suc 0)), item m n (Suc (Suc 0)), h1))"
      "init_list m n (Suc 0) h1" "core_heap.more h1 = core_heap.more h0"
    using insert_new_init [OF assms(2) h0(1), where d = "0xffff" and i = "0x7fff"] assms(3) by (auto simp: regen_def)
  have "min (Suc 0 + n) (n - 2) = n - 2"
    by simp
  then obtain a b h2 where h2: "insert_loop (cell m 0) seed (cell m n) (item m n n) 0 n (cell m (Suc (Suc 0)))
        (item m n (Suc (Suc 0))) h1 = Some (Inr (a, b, h2))" "init_list m n (n - 2) h2" "core_heap.more h2 = core_heap.more h1"
    using insert_loop_init [OF assms(2) h1(2), of seed 0 n] assms(3) by auto
  obtain f nx where f: "load_next h2 (cell m 0) = Some (Inr nx)" "index_loop z seed nx 1 h2 = Some (Inr (h2\<lparr>h_idx := f\<rparr>))"
      "map (\<lambda>a. f (h_info h2 a)) (init_cells m n) = init_keys z seed n"
    using index_init [OF assms(2,3) h2(2)] by blast
  define h3 where "h3 = h2\<lparr>h_idx := f\<rparr>"
  have run: "core_list_init blksize m seed h = core_list_mergesort (cmp_idx True) (cell m 0) h3"
    using h1(1) h2(1) f(1,2) cell_item_not_0 [OF assms(2), of 0]
    unfolding core_list_init_def Let_def h3_def base h0_def
    by (simp add: ends flip: z_def)
  have Sn: "Suc (n - 2) = n - 1"
    using assms(3) by simp
  have h3: "chain (h_next h3) (cell m 0) (init_cells m n)" "h_info h3 = h_info h2"
    using h2(2) by (simp_all add: h3_def init_list_def init_cells_def Sn)
  have info: "h_info h3 a \<noteq> 0 \<and> regen (h_data16 h3 (h_info h3 a)) = h_data16 h3 (h_info h3 a)" if a: "a \<in> set (init_cells m n)" for a
  proof -
    obtain j where "a = cell m j" "j \<le> n - 2"
      using a assms(3) by (force simp: init_cells_def)
    then show ?thesis
      using h2(2) cell_item_not_0 [OF assms(2), of j] assms(3) by (simp add: h3_def init_list_def)
  qed
  then show ?thesis
    using run h3 f(3) h1(3) h2(3) h0(2) by (intro exI [of _ h3]) (simp add: h3_def z_def)
qed

lemma core_list_init_returns:
  assumes "n = unat (blksize div 20 - 2)" "block_ok m n" "3 < n" "distinct (init_keys (blksize div 20 - 2) seed n)"
  shows "\<exists>list h' as. core_list_init blksize m seed h = Some (Inr (list, h')) \<and> chain (h_next h') list as
    \<and> mset as = mset (init_cells m n) \<and> (\<forall>a \<in> set as. h_info h' a \<noteq> 0)
    \<and> sorted_wrt (<) (map (\<lambda>a. sint (h_idx h' (h_info h' a))) as)
    \<and> (\<forall>a \<in> set as. regen (h_data16 h' (h_info h' a)) = h_data16 h' (h_info h' a))
    \<and> core_heap.more h' = core_heap.more h"
proof -
  from core_list_init_runs [OF assms(1-3), of seed h] obtain h3 where
    run: "core_list_init blksize m seed h = core_list_mergesort (cmp_idx True) (cell m 0) h3"
    and h3: "chain (h_next h3) (cell m 0) (init_cells m n)" "core_heap.more h3 = core_heap.more h"
      "map (\<lambda>a. h_idx h3 (h_info h3 a)) (init_cells m n) = init_keys (blksize div 20 - 2) seed n"
    and info: "\<And>a. a \<in> set (init_cells m n) \<Longrightarrow>
      h_info h3 a \<noteq> 0 \<and> regen (h_data16 h3 (h_info h3 a)) = h_data16 h3 (h_info h3 a)"
    by blast
  have ne: "init_cells m n \<noteq> []"
    by (simp add: init_cells_def)
  from mergesort_by_idx [OF ne h3(1)] info obtain list h' where
    r: "core_list_mergesort (cmp_idx True) (cell m 0) h3 = Some (Inr (list, h'))"
      "chain (h_next h') list (sort_key (\<lambda>a. sint (h_idx h3 (h_info h3 a))) (init_cells m n))"
      "idx_inv h3 (h_info h3 ` set (init_cells m n)) h'"
      "2 \<le> length (init_cells m n) \<longrightarrow>
        (\<forall>a \<in> set (init_cells m n). h_data16 h' (h_info h3 a) = regen (h_data16 h3 (h_info h3 a)))"
    by blast
  have same: "h_info h' = h_info h3" "h_idx h' = h_idx h3" "core_heap.more h' = core_heap.more h3"
    using idx_invD(1-3) [OF r(3)] by simp_all
  have "map (\<lambda>a. sint (h_idx h3 (h_info h3 a))) (init_cells m n) = map sint (init_keys (blksize div 20 - 2) seed n)"
    using arg_cong [OF h3(3), of "map sint"] by (simp add: comp_def)
  then have "distinct (map (\<lambda>a. sint (h_idx h3 (h_info h3 a))) (init_cells m n))"
    using assms(4) by (simp add: distinct_map inj_on_def signed_word_eqI)
  note strict = sort_key_strict [OF this]
  have "2 \<le> length (init_cells m n)"
    using assms(3) by (simp add: init_cells_def)
  then have data: "h_data16 h' (h_info h3 a) = h_data16 h3 (h_info h3 a)" if "a \<in> set (init_cells m n)" for a
    using r(4) info that by simp
  show ?thesis
    using run r(1,2) strict info data same h3(2)
    by (intro exI [of _ list] exI [of _ h'] exI [of _ "sort_key (\<lambda>a. sint (h_idx h3 (h_info h3 a))) (init_cells m n)"])
       simp
qed

section \<open>The matrices\<close>

lemma dim_loop_returns:
  assumes "unat blksize \<le> 2 ^ 31" "i \<le> 2 ^ 14" "\<forall>k < i. 8 * k * k < unat blksize"
  shows "\<exists>r. dim_loop blksize (of_nat i) (of_nat (8 * i * i)) = Some (of_nat r) \<and> r \<le> 2 ^ 14
    \<and> unat blksize \<le> 8 * r * r \<and> (\<forall>k < r. 8 * k * k < unat blksize)"
  using assms(2,3)
proof (induction "2 ^ 14 - i" arbitrary: i rule: less_induct)
  case less
  have small: "8 * i * i \<le> 8 * 2 ^ 14 * 2 ^ 14"
    using less.prems(1) by (intro mult_mono) simp_all
  then have j: "unat (of_nat (8 * i * i) :: u32) = 8 * i * i"
    by (intro unat_addr) simp
  show ?case
  proof (cases "8 * i * i < unat blksize")
    case False
    then have "dim_loop blksize (of_nat i) (of_nat (8 * i * i)) = Some (of_nat i)"
      using j by (subst dim_loop.simps) (simp add: word_less_nat_alt)
    then show ?thesis
      using False less.prems by (auto simp: not_less)
  next
    case True
    have "8 * i * i < 8 * 2 ^ 14 * 2 ^ 14"
      using True assms(1) by simp
    then have lt: "i < 2 ^ 14"
      using less.prems(1) by (cases "i = 2 ^ 14") simp_all
    have "dim_loop blksize (of_nat i) (of_nat (8 * i * i)) =
        dim_loop blksize (of_nat (Suc i)) (of_nat (8 * Suc i * Suc i))"
      using True j by (subst dim_loop.simps) (simp add: word_less_nat_alt algebra_simps)
    moreover have "\<forall>k < Suc i. 8 * k * k < unat blksize"
      using True less.prems(2) by (auto simp: less_Suc_eq)
    ultimately show ?thesis
      using less.hyps [of "Suc i"] lt by simp
  qed
qed

lemma fill_fold:
  assumes "foldl (\<lambda>s p. fill_step p s) (seed, order, A, B) [0..<k] = (seed', order', A', B')"
  shows "(\<forall>p < k. unat (A' p) < 256) \<and> (\<forall>p \<ge> k. A' p = A p \<and> B' p = B p)"
  using assms
proof (induction k arbitrary: seed' order' A' B')
  case 0
  then show ?case by simp
next
  case (Suc k)
  obtain s o' A1 B1 where fold: "foldl (\<lambda>s p. fill_step p s) (seed, order, A, B) [0..<k] = (s, o', A1, B1)"
    by (cases "foldl (\<lambda>s p. fill_step p s) (seed, order, A, B) [0..<k]") auto
  have "unat ((x :: u16) AND 0xff) < 256" for x
    using unat_and_mask_less [of 8 x] by (simp add: mask_eq_exp_minus_1)
  then show ?case
    using Suc.IH [OF fold] Suc.prems fold
    by (auto simp: fill_step_def Let_def matrix_clip_def less_Suc_eq)
qed

lemma core_init_matrix_returns:
  assumes "unat blksize \<le> 2 ^ 31" "0 < unat blksize"
  shows "\<exists>N A' B'. core_init_matrix blksize seed A B = Some (N, A', B') \<and> 8 * unat N * unat N < unat blksize
    \<and> unat blksize \<le> 8 * (unat N + 1) * (unat N + 1)
    \<and> (\<forall>p < unat N * unat N. unat (A' p) < 256) \<and> (\<forall>p \<ge> unat N * unat N. A' p = A p \<and> B' p = B p)"
proof -
  obtain r where r: "dim_loop blksize 0 0 = Some (of_nat r)" "r \<le> 2 ^ 14" "unat blksize \<le> 8 * r * r"
      "\<forall>k < r. 8 * k * k < unat blksize"
    using dim_loop_returns [OF assms(1), of 0] by auto
  have pos: "0 < r"
    using r(3) assms(2) by (cases r) simp_all
  define N :: u32 where "N = of_nat r - 1"
  have N: "unat N = r - 1"
  proof -
    have "N = of_nat (r - 1)"
      using pos by (simp add: N_def of_nat_diff)
    then show ?thesis
      using r(2) unat_addr [of "r - 1"] by simp
  qed
  define s where "s = (if seed = 0 then 1 else seed)"
  obtain s' o' A' B' where f: "foldl (\<lambda>s p. fill_step p s) (s, 1, A, B) [0..<unat N * unat N] = (s', o', A', B')"
    by (cases "foldl (\<lambda>s p. fill_step p s) (s, 1, A, B) [0..<unat N * unat N]") auto
  have "core_init_matrix blksize seed A B = Some (N, A', B')"
    unfolding core_init_matrix_def r(1) using f by (simp add: Let_def grid_fold [of "\<lambda>s p. fill_step p s"] flip: N_def s_def)
  moreover have r1: "r = unat N + 1"
    using N pos by simp
  moreover have "8 * unat N * unat N < unat blksize" "unat blksize \<le> 8 * (unat N + 1) * (unat N + 1)"
    using r(3,4) by (simp_all add: r1)
  ultimately show ?thesis
    using fill_fold [OF f] by blast
qed

end
