(* ===== verification/Core_Main.thy ===== *)
theory Core_Main
  imports Core_Init
begin

text \<open>
  The main function of CoreMark, \<open>core_main.c\<close>, up to the end of the iterations: reading the seeds
  (\<open>get_seed_32\<close> of \<open>core_util.c\<close>, \<open>SEED_VOLATILE\<close>), dividing the memory block, initialising the three algorithms and
  iterating. The choice of the number of iterations by time, taken when the fourth seed is 0, and the report
  are left out.
\<close>

section \<open>Seeds and memory\<close>

record volatile_seeds =
  seed1_volatile :: u32
  seed2_volatile :: u32
  seed3_volatile :: u32
  seed4_volatile :: u32
  seed5_volatile :: u32

definition get_seed_32 :: "volatile_seeds \<Rightarrow> nat \<Rightarrow> u32" where
  "get_seed_32 v i =
     (if i = 1 then seed1_volatile v else if i = 2 then seed2_volatile v else if i = 3 then seed3_volatile v
      else if i = 4 then seed4_volatile v else if i = 5 then seed5_volatile v else 0)"

text \<open>The default values for a performance run and a validation run.\<close>

definition default_seeds :: "u16 \<times> u16 \<times> u16 \<Rightarrow> u16 \<times> u16 \<times> u16" where
  "default_seeds s = (case (if s = (0, 0, 0) then (0, 0, 0x66) else s) of s \<Rightarrow>
     if s = (1, 0, 0) then (0x3415, 0x3415, 0x66) else s)"

definition get_execs :: "volatile_seeds \<Rightarrow> u32" where
  "get_execs v = (if get_seed_32 v 5 = 0 then 7 else get_seed_32 v 5)"

text \<open>The number of algorithms to execute below the \<open>i\<close>-th: the whole number for \<open>i = 3\<close>.\<close>

definition num_algorithms :: "u32 \<Rightarrow> nat \<Rightarrow> nat" where
  "num_algorithms execs i = length (filter (\<lambda>k. push_bit k 1 AND execs \<noteq> 0) [0..<i])"

section \<open>Initialisation\<close>

definition init_list_block :: "u32 \<Rightarrow> u32 \<Rightarrow> core_results \<Rightarrow> core_results comp" where
  "init_list_block execs m h =
     (if execs AND 1 \<noteq> 0
      then cbind (core_list_init (r_size h) m (r_seed1 h) h) (\<lambda>(list, h). Some (Inr (h\<lparr>r_list := list\<rparr>)))
      else Some (Inr h))"

definition init_matrix_block :: "u32 \<Rightarrow> core_results \<Rightarrow> core_results comp" where
  "init_matrix_block execs h =
     (if execs AND 2 \<noteq> 0
      then map_option (\<lambda>(N, A, B). Inr (h\<lparr>r_N := N, r_A := A, r_B := B\<rparr>))
             (core_init_matrix (r_size h) (scast (r_seed1 h) OR push_bit 16 (scast (r_seed2 h))) (r_A h) (r_B h))
      else Some (Inr h))"

definition init_state_block :: "u32 \<Rightarrow> u32 \<Rightarrow> core_results \<Rightarrow> core_results comp" where
  "init_state_block execs m h =
     (if execs AND 4 \<noteq> 0
      then map_option (\<lambda>mem. Inr (h\<lparr>r_mem := mem, r_memblock3 := m\<rparr>)) (core_init_state (r_size h) (r_seed1 h) m (r_mem h))
      else Some (Inr h))"

definition core_setup :: "volatile_seeds \<Rightarrow> u32 \<Rightarrow> u32 \<Rightarrow> core_results \<Rightarrow> core_results comp" where
  "core_setup v total_data_size static_memblk h =
     (let (seed1, seed2, seed3) = default_seeds (ucast (get_seed_32 v 1), ucast (get_seed_32 v 2), ucast (get_seed_32 v 3));
          execs = get_execs v;
          num = num_algorithms execs 3
      in if num = 0 then Some (Inl Overrun)
         else let size' = total_data_size div of_nat num;
                  block = (\<lambda>i. static_memblk + size' * of_nat (num_algorithms execs i));
                  h = h\<lparr>r_seed1 := seed1, r_seed2 := seed2, r_seed3 := seed3, r_iterations := get_seed_32 v 4, r_size := size'\<rparr>
              in cbind (init_list_block execs (block 0) h) (\<lambda>h.
                 cbind (init_matrix_block execs h) (\<lambda>h.
                 init_state_block execs (block 2) h)))"

definition core_run :: "volatile_seeds \<Rightarrow> u32 \<Rightarrow> u32 \<Rightarrow> core_results \<Rightarrow> core_results comp" where
  "core_run v total_data_size static_memblk h = cbind (core_setup v total_data_size static_memblk h) iterate"

section \<open>The benchmark runs to its end\<close>

lemma all_algorithms: "num_algorithms 7 3 = 3" "num_algorithms 7 0 = 0" "num_algorithms 7 2 = 2"
  by (simp_all add: num_algorithms_def upt_rec)

text \<open>
  What the benchmark needs of the seeds and the block: room for four cells, indices that are all different,
  seeds for which corrupting the state block can be undone, and a block that does not wrap around.
\<close>

definition runnable :: "u16 \<Rightarrow> u16 \<Rightarrow> u32 \<Rightarrow> u32 \<Rightarrow> bool" where
  "runnable seed1 seed2 size' m \<longleftrightarrow> seed1 = seed2
     \<and> ((ucast seed1 :: u8) = 0 \<or> 0x2c XOR (ucast seed1 :: u8) \<notin> set alphabet)
     \<and> 120 \<le> unat size' \<and> 0 < unat m \<and> unat m + 3 * unat size' + 256 \<le> 2 ^ 32
     \<and> distinct (init_keys (size' div 20 - 2) seed1 (unat (size' div 20 - 2)))"

lemma more_fields:
  assumes "core_heap.more h = core_heap.more h'"
  shows "r_size h = r_size h'" "r_seed1 h = r_seed1 h'" "r_seed2 h = r_seed2 h'" "r_seed3 h = r_seed3 h'"
  using assms by (cases h; cases h'; simp)+

lemma core_setup_initial:
  assumes "default_seeds (ucast (get_seed_32 v 1), ucast (get_seed_32 v 2), ucast (get_seed_32 v 3)) = (seed1, seed2, seed3)"
    "get_seed_32 v 5 = 0" "runnable seed1 seed2 (total' div 3) m"
  shows "\<exists>h' as. core_setup v total' m h = Some (Inr h') \<and> initial_list h' as"
proof -
  define z where "z = total' div 3"
  define n where "n = unat (z div 20 - 2)"
  have run: "seed1 = seed2" "(ucast seed1 :: u8) = 0 \<or> 0x2c XOR (ucast seed1 :: u8) \<notin> set alphabet"
      "120 \<le> unat z" "0 < unat m" "unat m + 3 * unat z + 256 \<le> 2 ^ 32" "distinct (init_keys (z div 20 - 2) seed1 n)"
    using assms(3) unfolding runnable_def z_def [symmetric] n_def [symmetric] by blast+
  have "unat (z div 20) = unat z div 20"
    by (simp add: unat_div)
  then have n: "n = unat z div 20 - 2" "3 < n"
    using run(3) by (simp_all add: n_def unat_sub word_le_nat_alt)
  have blk: "block_ok m n"
    using run(4,5) n(1) by (simp add: block_ok_def)
  define h0 where "h0 = h\<lparr>r_seed1 := seed1, r_seed2 := seed2, r_seed3 := seed3, r_iterations := get_seed_32 v 4, r_size := z\<rparr>"
  obtain list h1 as where h1: "core_list_init z m seed1 h0 = Some (Inr (list, h1))" "chain (h_next h1) list as"
      "mset as = mset (init_cells m n)" "\<forall>a \<in> set as. h_info h1 a \<noteq> 0"
      "sorted_wrt (<) (map (\<lambda>a. sint (h_idx h1 (h_info h1 a))) as)"
      "\<forall>a \<in> set as. regen (h_data16 h1 (h_info h1 a)) = h_data16 h1 (h_info h1 a)"
      "core_heap.more h1 = core_heap.more h0"
    using core_list_init_returns [OF n_def blk n(2) run(6), of h0] by blast
  define h2 where "h2 = h1\<lparr>r_list := list\<rparr>"
  have h2: "init_list_block 7 m h0 = Some (Inr h2)" "r_size h2 = z" "r_seed1 h2 = seed1" "r_seed2 h2 = seed2"
    using h1(1) more_fields [OF h1(7)] by (simp_all add: init_list_block_def h2_def h0_def)
  have z31: "unat z \<le> 2 ^ 31" "0 < unat z"
    using run(3,5) by simp_all
  obtain N A B where mat: "core_init_matrix z (scast seed1 OR push_bit 16 (scast seed2)) (r_A h2) (r_B h2) = Some (N, A, B)"
    using core_init_matrix_returns [OF z31] by blast
  define h3 where "h3 = h2\<lparr>r_N := N, r_A := A, r_B := B\<rparr>"
  have h3: "init_matrix_block 7 h2 = Some (Inr h3)"
    using mat h2 by (simp add: init_matrix_block_def h3_def)
  define p where "p = m + z * 2"
  have p: "unat p + unat z + 256 \<le> 2 ^ 32"
    using run(5) by (simp add: p_def unat_word_ariths)
  have z2: "2 \<le> unat z"
    using run(3) by simp
  obtain mem where mem: "core_init_state z seed1 p (r_mem h3) = Some mem" "state_block z p mem"
      "\<And>a. p \<le> a \<Longrightarrow> a < p + z \<Longrightarrow> mem a = 0x2c XOR ucast seed1 \<Longrightarrow> (ucast seed1 :: u8) = 0"
    by (rule init_state_block [OF z2 p run(2), of "r_mem h3"]) blast
  define h4 where "h4 = h3\<lparr>r_mem := mem, r_memblock3 := p\<rparr>"
  have h4: "init_state_block 7 p h3 = Some (Inr h4)"
    using mem(1) h2 by (simp add: init_state_block_def h4_def h3_def)
  have whole: "core_setup v total' m h = Some (Inr h4)"
    using assms(1,2) h2(1) h3 h4
    by (simp add: core_setup_def get_execs_def all_algorithms Let_def h0_def z_def p_def)
  have "repeatable h4"
    using mem(2,3) h2(2-4) run(1) by (simp add: repeatable_def h4_def h3_def)
  moreover have "length as = n - 1"
    using arg_cong [OF h1(3), of size] n(2) by (simp add: init_cells_def)
  ultimately have "initial_list h4 as"
    using h1 n(2) by (simp add: initial_list_def good_list_def h4_def h3_def h2_def)
  then show ?thesis
    using whole by blast
qed


text \<open>The 2K performance run and the 2K validation run of \<open>core_portme.c\<close>.\<close>

definition performance_run :: volatile_seeds where
  "performance_run = \<lparr>seed1_volatile = 0, seed2_volatile = 0, seed3_volatile = 0x66, seed4_volatile = 1000, seed5_volatile = 0\<rparr>"

definition validation_run :: volatile_seeds where
  "validation_run = \<lparr>seed1_volatile = 0x3415, seed2_volatile = 0x3415, seed3_volatile = 0x66, seed4_volatile = 1000,
     seed5_volatile = 0\<rparr>"

lemma runs_runnable: "runnable 0 0 666 0x80001000" "runnable 0x3415 0x3415 666 0x80001000"
proof -
  have "distinct (init_keys 31 0 31)" "distinct (init_keys 31 0x3415 31)"
    by code_simp+
  moreover have "0x2c XOR (ucast (0x3415 :: u16) :: u8) \<notin> set alphabet"
    by code_simp
  ultimately show "runnable 0 0 666 0x80001000" "runnable 0x3415 0x3415 666 0x80001000"
    by (simp_all add: runnable_def)
qed

lemma runs_seeds:
  "default_seeds (ucast (get_seed_32 performance_run 1), ucast (get_seed_32 performance_run 2),
     ucast (get_seed_32 performance_run 3)) = (0, 0, 0x66)" "get_seed_32 performance_run 5 = 0"
  "default_seeds (ucast (get_seed_32 validation_run 1), ucast (get_seed_32 validation_run 2),
     ucast (get_seed_32 validation_run 3)) = (0x3415, 0x3415, 0x66)" "get_seed_32 validation_run 5 = 0"
  by (simp_all add: performance_run_def validation_run_def get_seed_32_def default_seeds_def)


text \<open>
  C8. A call of \<open>core_bench_list\<close> on a list in its initial state returns, whatever index it searches for, and
  restores its input: the order of the cells, their data items and values, the seeds, the state block and the
  operand matrices are as before. On the way the list is searched, reversed and rearranged, sorted by
  content, which runs the state and the matrix benchmark, and sorted back by index.
\<close>
theorem core_bench_list_restores:
  assumes "initial_list h as"
  shows "\<exists>ret h'. core_bench_list finder_idx h = Some (Inr (ret, h'))
    \<and> h' = h\<lparr>r_C := r_C h', r_crc := r_crc h', r_crclist := r_crclist h', r_crcmatrix := r_crcmatrix h',
             r_crcstate := r_crcstate h'\<rparr>"
proof -
  obtain ret h' where r: "core_bench_list finder_idx h = Some (Inr (ret, h'))" "inputs h' = inputs h"
      "h_next h' = h_next h" "h_data16 h' = h_data16 h"
    using bench_list_returns [OF assms] by blast
  have "h' = h\<lparr>r_C := r_C h', r_crc := r_crc h', r_crclist := r_crclist h', r_crcmatrix := r_crcmatrix h',
             r_crcstate := r_crcstate h'\<rparr>"
    using r(2-4) by (cases h; cases h') (simp add: inputs_def)
  then show ?thesis
    using r(1) by blast
qed

lemma core_bench_list_restores_witness:
  "\<exists>h as. initial_list h as \<and> (\<exists>ret h'. core_bench_list 1 h = Some (Inr (ret, h'))
    \<and> h' = h\<lparr>r_C := r_C h', r_crc := r_crc h', r_crclist := r_crclist h', r_crcmatrix := r_crcmatrix h',
             r_crcstate := r_crcstate h'\<rparr>)"
proof -
  obtain h as where "initial_list h as"
    using core_setup_initial [OF runs_seeds(1,2), of 2000 "0x80001000"] runs_runnable(1) by fastforce
  with core_bench_list_restores [OF this, of 1] show ?thesis
    by blast
qed

end
