(* ===== verification/Spec2Isabelle.thy ===== *)
theory Spec2Isabelle
  imports Prelude Trace_Pack Tag_Table Cache_Sim Nemu_Mem Profile Pair_Table Xaccel_Kernels Xaccel_Scan Xaccel_List
    Riscv_Xaccel Rtl_Profile Klib_Div Core_Main
begin

text \<open>
  Verification of the processor tool chain in this repository.
\<close>

end
